(* ===== verification/Prelude.thy ===== *)
theory Prelude
  imports Main "HOL-Library.Word" "HOL-Library.AList" "HOL-Library.Char_ord" "HOL-Library.List_Lexorder"
    "HOL-Library.Product_Lexorder" "HOL-Library.State_Monad"
begin

text \<open>
  Shared vocabulary of the development: the Go types the components use (bytes, 64-bit integers,
  UUIDs, instants), Go errors with \<^verbatim>\<open>errors.Join\<close> and \<^verbatim>\<open>errors.Is\<close>, results of operations, Go maps as
  association lists, and the generic lemmas about them.
\<close>

section \<open>Machine types\<close>

type_synonym byte = "8 word"
type_synonym bytes = "byte list"
type_synonym u8 = "8 word"
type_synonym u64 = "64 word"

text \<open>
  A UUID is a Go array of 16 bytes; it is read as the 128-bit number those bytes spell, most
  significant first, so that \<^verbatim>\<open>uuid.Nil\<close> is 0 and the order of \<^verbatim>\<open>uuid.UUID.String\<close> (fixed-width
  lowercase hexadecimal) is the order of the numbers.
\<close>

type_synonym uuid = "128 word"

definition uuid_Nil :: uuid where
  "uuid_Nil = 0"

text \<open>A Go string is a byte sequence, as is a HOL string; \<^verbatim>\<open>[]byte(s)\<close> and \<^verbatim>\<open>string(b)\<close> convert.\<close>

definition bytes_of_string :: "string \<Rightarrow> bytes" where
  "bytes_of_string s = map (\<lambda>c. word_of_nat (of_char c)) s"

definition string_of_bytes :: "bytes \<Rightarrow> string" where
  "string_of_bytes b = map (\<lambda>w. char_of (unat w)) b"

lemma of_char_lt_256: "(of_char c :: nat) < 256"
  by (metis char_of_nat nat_of_char_less_256)

lemma string_of_bytes_of_string [simp]: "string_of_bytes (bytes_of_string s) = s"
proof (induction s)
  case Nil
  show ?case by (simp add: string_of_bytes_def bytes_of_string_def)
next
  case (Cons c s)
  have "unat (word_of_nat (of_char c) :: byte) = of_char c"
    using of_char_lt_256 [of c] by (simp add: unat_of_nat)
  with Cons show ?case
    by (simp add: string_of_bytes_def bytes_of_string_def)
qed

lemma length_bytes_of_string [simp]: "length (bytes_of_string s) = length s"
  by (simp add: bytes_of_string_def)

lemma bytes_of_string_eq_Nil [simp]: "bytes_of_string s = [] \<longleftrightarrow> s = []"
  by (simp add: bytes_of_string_def)

section \<open>Instants and durations\<close>

text \<open>
  \<^verbatim>\<open>time.Time\<close> is the instant it names, in nanoseconds since the Unix epoch; its zero value is the
  first of January of year 1. \<^verbatim>\<open>time.Duration\<close> is a 64-bit count of nanoseconds: \<^verbatim>\<open>Sub\<close> saturates at
  its bounds, while \<^verbatim>\<open>Add\<close> and the comparisons are exact on instants. \<^verbatim>\<open>Truncate\<close> rounds down to a
  multiple of the unit counted from year 1, which is a whole number of microseconds from the epoch.
\<close>

type_synonym instant = int
type_synonym duration = int

definition zero_time :: instant where
  "zero_time = - 62135596800000000000"

definition time_IsZero :: "instant \<Rightarrow> bool" where
  "time_IsZero t \<longleftrightarrow> t = zero_time"

definition Microsecond :: duration where
  "Microsecond = 1000"

definition Second :: duration where
  "Second = 1000000000"

definition Minute :: duration where
  "Minute = 60 * Second"

definition Hour :: duration where
  "Hour = 60 * Minute"

definition time_Sub :: "instant \<Rightarrow> instant \<Rightarrow> duration" where
  "time_Sub t u = max (- (2 ^ 63)) (min (2 ^ 63 - 1) (t - u))"

definition time_Truncate :: "instant \<Rightarrow> duration \<Rightarrow> instant" where
  "time_Truncate t d = t - (t - zero_time) mod d"

lemmas duration_defs = Microsecond_def Second_def Minute_def Hour_def

lemma time_Truncate_le: "0 < d \<Longrightarrow> time_Truncate t d \<le> t"
  by (simp add: time_Truncate_def)

lemma time_Truncate_gt: "0 < d \<Longrightarrow> t - d < time_Truncate t d"
  by (simp add: time_Truncate_def)

lemma time_Truncate_alt: "time_Truncate t d = zero_time + d * ((t - zero_time) div d)"
  using mult_div_mod_eq [of d "t - zero_time"] unfolding time_Truncate_def by linarith

lemma time_Truncate_mono: "0 < d \<Longrightarrow> t \<le> u \<Longrightarrow> time_Truncate t d \<le> time_Truncate u d"
  by (simp add: time_Truncate_alt zdiv_mono1)

lemma time_Truncate_idem [simp]: "time_Truncate (time_Truncate t d) d = time_Truncate t d"
  by (cases "d = 0") (simp_all add: time_Truncate_alt)

lemma time_Sub_le_iff: "0 \<le> d \<Longrightarrow> d < 2 ^ 63 - 1 \<Longrightarrow> time_Sub t u \<le> d \<longleftrightarrow> t - u \<le> d"
  by (auto simp: time_Sub_def)

section \<open>Errors and results\<close>

text \<open>
  The sentinel errors of each package, under the package's tag. A Go error is the list of the
  sentinels joined into it (\<^verbatim>\<open>errors.Join\<close>); \<^verbatim>\<open>errors.Is\<close> looks a sentinel up in it. An anonymous
  \<^verbatim>\<open>errors.New(text)\<close> is \<open>Msg text\<close>, an unexported error variable is \<open>PkgErr\<close> with its qualified name, an
  error of code outside the repository is \<open>Foreign text\<close>.
\<close>

datatype store_err = ErrNotFound | ErrConflict | ErrCapacity

datatype core_err =
    ErrInvalidTenant | ErrInvalidFactor | ErrInvalidVerified | ErrInvalidArgument | ErrTenantMismatch
  | ErrSubjectMismatch | ErrNotBound | ErrAlreadyBound | ErrNotIdentifying | ErrSameCredential
  | ErrProviderMismatch | ErrNoPrimary | ErrPendingExpired | ErrReauthPending | ErrLineageMismatch
  | ErrAccountUnusable | ErrEpochStale | ErrReauthRequired | ErrFactorRequired | ErrClaimsUnavailable
  | ErrClaimsSubjectUnknown | ErrClaimsTooLarge | ErrMalformed

datatype factors_err =
    ErrUserVerificationRequired | ErrUserPresenceRequired | ErrCredentialSuspended
  | ErrMissingCredentialID | ErrMissingProvider | ErrReservedProvider

datatype record_err = ErrInvalidRecord | ErrLifetimeExceeded

datatype tokens_err = ErrReused | ErrConcurrent | ErrRevoked

datatype session_err = ErrSessionTenantMismatch | ErrEnded | ErrHandleMismatch | ErrUnknownSubject
  | ErrMalformedClaims | ErrSessionInvalidConfig

datatype stateful_err =
    ErrNoCredential | ErrInvalidToken | ErrTransportMismatch | ErrAmbiguousTransport
  | ErrStatefulLifetimeExceeded | ErrCorrupt | ErrMalformedTok

datatype revoke_err = ErrRevokeUnavailable | ErrStale | ErrNotLive | ErrStaleEpoch
  | ErrRevokeInvalidConfig | ErrBacklog

datatype identity_err =
    ErrInvalidIdentifier | ErrInvalidMutation | ErrIdentifierTaken | ErrNotTombstoned | ErrTombstoned
  | ErrUnknownComponent | ErrIdentifiersHeld

datatype ceremony_err =
    ErrCeremonyInvalidRecord | ErrHandleTooShort | ErrStatelessKind | ErrStoredKind | ErrScopeMismatch
  | ErrCeremonyExpired

datatype keys_err =
    ErrInvalidExpiry | ErrUnboundedOverlap | ErrNoActiveKey | ErrTenantTombstoned | ErrInvalidRotation
  | ErrKeysLegacyAADVersion

datatype mfa_err = ErrMFALegacyAADVersion

datatype lifecycle_err = ErrSubscriberPanic | ErrInvalidRow | ErrOutboxStale | ErrOutboxUnavailable

datatype sentinel =
    StoreErr store_err
  | CoreErr core_err
  | FactorsErr factors_err
  | SessionsErr record_err
  | TokensRecordErr record_err
  | TokensErr tokens_err
  | SessionErr session_err
  | StatefulErr stateful_err
  | RevokeErr revoke_err
  | IdentityErr identity_err
  | CeremonyErr ceremony_err
  | KeysErr keys_err
  | LifecycleErr lifecycle_err
  | MFAErr mfa_err
  | PkgErr string
  | HttpxUnavailable
  | ContextErr string
  | Foreign string
  | Msg string

type_synonym err = "sentinel list"

definition errors_New :: "string \<Rightarrow> err" where
  "errors_New m = [Msg m]"

definition errors_Join :: "err \<Rightarrow> err \<Rightarrow> err" where
  "errors_Join a b = a @ b"

definition errors_Is :: "err \<Rightarrow> sentinel \<Rightarrow> bool" where
  "errors_Is e s \<longleftrightarrow> s \<in> set e"

lemma errors_Is_Join [simp]: "errors_Is (errors_Join a b) s \<longleftrightarrow> errors_Is a s \<or> errors_Is b s"
  by (simp add: errors_Is_def errors_Join_def)

lemma errors_Is_single [simp]: "errors_Is [x] s \<longleftrightarrow> s = x"
  by (simp add: errors_Is_def)

lemma errors_Is_New [simp]: "errors_Is (errors_New m) s \<longleftrightarrow> s = Msg m"
  by (simp add: errors_New_def)

text \<open>
  An operation returns a value, returns an error or panics (here: dereferences a nil pointer). A
  Go method that mutates its receiver is a function from the old state to the result and the new
  state. \<open>ctx\<close> is what \<^verbatim>\<open>ctx.Err()\<close> returns on entry.
\<close>

datatype 'a result = Ok 'a | Err err | Panic

type_synonym context_err = "err option"

definition with_ctx :: "context_err \<Rightarrow> 's \<Rightarrow> 'a result \<times> 's \<Rightarrow> 'a result \<times> 's" where
  "with_ctx ctx s r = (case ctx of Some e \<Rightarrow> (Err e, s) | None \<Rightarrow> r)"

lemma with_ctx_simps [simp]:
  "with_ctx None s r = r"
  "with_ctx (Some e) s r = (Err e, s)"
  by (simp_all add: with_ctx_def)

lemma with_ctx_snd: "snd (with_ctx ctx s r) = s \<or> snd (with_ctx ctx s r) = snd r"
  by (cases ctx) simp_all

text \<open>An early return on error or panic, and a result without its value.\<close>

definition result_bind :: "'a result \<Rightarrow> ('a \<Rightarrow> 'b result) \<Rightarrow> 'b result" where
  "result_bind r f = (case r of Ok x \<Rightarrow> f x | Err e \<Rightarrow> Err e | Panic \<Rightarrow> Panic)"

definition result_void :: "'a result \<Rightarrow> unit result" where
  "result_void r = (case r of Ok _ \<Rightarrow> Ok () | Err e \<Rightarrow> Err e | Panic \<Rightarrow> Panic)"

lemma result_bind_Ok [simp]: "result_bind r f = Ok y \<longleftrightarrow> (\<exists>x. r = Ok x \<and> f x = Ok y)"
  by (auto simp: result_bind_def split: result.splits)

lemma result_bind_Panic: "result_bind r f = Panic \<longleftrightarrow> r = Panic \<or> (\<exists>x. r = Ok x \<and> f x = Panic)"
  by (auto simp: result_bind_def split: result.splits)

section \<open>Go maps\<close>

text \<open>
  A Go map is an association list with distinct keys; the iteration order Go leaves open is the
  list's order, so a theorem about every such list holds for every iteration order. Lookup is
  \<^const>\<open>map_of\<close>, assignment \<^const>\<open>AList.update\<close>, \<^verbatim>\<open>delete\<close> is \<^const>\<open>AList.delete\<close>, and a loop that deletes the
  entries satisfying a condition is \<open>del_where\<close>.
\<close>

type_synonym ('k, 'v) gomap = "('k \<times> 'v) list"

abbreviation keys_of :: "('k, 'v) gomap \<Rightarrow> 'k list" where
  "keys_of m \<equiv> map fst m"

abbreviation wf_map :: "('k, 'v) gomap \<Rightarrow> bool" where
  "wf_map m \<equiv> distinct (keys_of m)"

definition del_where :: "('k \<Rightarrow> 'v \<Rightarrow> bool) \<Rightarrow> ('k, 'v) gomap \<Rightarrow> ('k, 'v) gomap" where
  "del_where P m = filter (\<lambda>(k, v). \<not> P k v) m"

declare map_of_eq_Some_iff [simp del] Some_eq_map_of_iff [simp del]

lemma map_of_update [simp]: "map_of (AList.update k v m) = (map_of m)(k \<mapsto> v)"
  by (simp add: update_conv')

lemma map_of_delete [simp]: "map_of (AList.delete k m) = (map_of m)(k := None)"
  by (simp add: delete_conv')

lemma wf_map_update [simp]: "wf_map m \<Longrightarrow> wf_map (AList.update k v m)"
  by (rule distinct_update)

lemma wf_map_delete [simp]: "wf_map m \<Longrightarrow> wf_map (AList.delete k m)"
  by (rule distinct_delete)

lemma wf_map_del_where [simp]: "wf_map m \<Longrightarrow> wf_map (del_where P m)"
  unfolding del_where_def by (rule distinct_map_filter)

lemma map_of_del_where:
  "wf_map m \<Longrightarrow>
   map_of (del_where P m) k =
     (case map_of m k of None \<Rightarrow> None | Some v \<Rightarrow> if P k v then None else Some v)"
proof (induction m)
  case Nil
  show ?case by (simp add: del_where_def)
next
  case (Cons kv m)
  obtain k0 v0 where kv: "kv = (k0, v0)" by fastforce
  from Cons.prems kv have k0: "map_of m k0 = None"
    by (simp add: map_of_eq_None_iff image_image)
  with Cons kv show ?case
    by (auto simp: del_where_def split: option.splits)
qed

lemma map_of_Some_in_keys: "map_of m k = Some v \<Longrightarrow> k \<in> set (keys_of m)"
  by (metis fst_conv image_eqI map_of_SomeD set_map)

lemma in_keys_iff: "k \<in> set (keys_of m) \<longleftrightarrow> (\<exists>v. map_of m k = Some v)"
  by (metis domIff dom_map_of_conv_image_fst list.set_map not_None_eq)

end
