(* ===== verification/Core_Factor.thy ===== *)
theory Core_Factor
  imports Prelude
begin

text \<open>
  Tenants, subjects and authentication factors: \<^verbatim>\<open>internal/core/tenant.go\<close> and
  \<^verbatim>\<open>internal/core/factor.go\<close>. The factor sets of a journey are lists sorted by code and free of
  duplicates; the lemmas show that every operation on them keeps them so, and how the
  multi-factor rule behaves when a set grows.
\<close>

section \<open>Tenants and subjects\<close>

datatype tenant_id = TenantID (tid: string)

definition zero_tenant :: tenant_id where
  "zero_tenant = TenantID []"

definition maxTenantLen :: nat where
  "maxTenantLen = 128"

definition tenant_char :: "char \<Rightarrow> bool" where
  "tenant_char c \<longleftrightarrow>
     (CHR ''a'' \<le> c \<and> c \<le> CHR ''z'') \<or> (CHR ''A'' \<le> c \<and> c \<le> CHR ''Z'') \<or>
     (CHR ''0'' \<le> c \<and> c \<le> CHR ''9'') \<or> c = CHR ''.'' \<or> c = CHR ''_'' \<or> c = CHR ''-''"

definition ParseTenantID :: "string \<Rightarrow> tenant_id result" where
  "ParseTenantID s =
     (if s = [] \<or> length s > maxTenantLen then Err [CoreErr ErrInvalidTenant]
      else if list_all tenant_char s then Ok (TenantID s)
      else Err (errors_Join [CoreErr ErrInvalidTenant] (errors_New ''invalid character'')))"

definition tenant_IsZero :: "tenant_id \<Rightarrow> bool" where
  "tenant_IsZero t \<longleftrightarrow> tid t = []"

record subject =
  s_tenant :: tenant_id
  s_user :: uuid

definition zero_subject :: subject where
  "zero_subject = \<lparr>s_tenant = zero_tenant, s_user = uuid_Nil\<rparr>"

definition subject_IsZero :: "subject \<Rightarrow> bool" where
  "subject_IsZero s \<longleftrightarrow> s_user s = uuid_Nil"

text \<open>A tenant identifier a program can hold: the single tenant, or what \<^const>\<open>ParseTenantID\<close> returned.\<close>

definition valid_tenant :: "tenant_id \<Rightarrow> bool" where
  "valid_tenant t \<longleftrightarrow> t = zero_tenant \<or> ParseTenantID (tid t) = Ok t"

section \<open>Factors\<close>

text \<open>\<open>NoRole\<close> is the zero \<^verbatim>\<open>FactorRole\<close>, the role of an invalid factor.\<close>

datatype role = NoRole | RolePrimary | RoleSecond | RoleQualifier

datatype factor = Factor (fcode: string)

definition FactorPassword :: factor where "FactorPassword = Factor ''pwd''"
definition FactorEmailLink :: factor where "FactorEmailLink = Factor ''email_link''"
definition FactorEmailCode :: factor where "FactorEmailCode = Factor ''email_code''"
definition FactorSMSCode :: factor where "FactorSMSCode = Factor ''sms_code''"
definition FactorFederated :: factor where "FactorFederated = Factor ''fed''"
definition FactorExternal :: factor where "FactorExternal = Factor ''ext''"
definition FactorPasskey :: factor where "FactorPasskey = Factor ''pk''"
definition FactorUserVerification :: factor where "FactorUserVerification = Factor ''uv''"
definition FactorTOTP :: factor where "FactorTOTP = Factor ''totp''"
definition FactorRecoveryCode :: factor where "FactorRecoveryCode = Factor ''rc''"
definition FactorPasskeyStepUp :: factor where "FactorPasskeyStepUp = Factor ''pk_stepup''"

lemmas factor_defs =
  FactorPassword_def FactorEmailLink_def FactorEmailCode_def FactorSMSCode_def FactorFederated_def
  FactorExternal_def FactorPasskey_def FactorUserVerification_def FactorTOTP_def
  FactorRecoveryCode_def FactorPasskeyStepUp_def

definition factorTable :: "(string, role \<times> string) gomap" where
  "factorTable =
     [(''pwd'', (RolePrimary, ''pwd'')),
      (''email_link'', (RolePrimary, ''email'')),
      (''email_code'', (RolePrimary, ''otp'')),
      (''sms_code'', (RolePrimary, ''sms'')),
      (''fed'', (RolePrimary, ''fed'')),
      (''ext'', (RolePrimary, ''ext'')),
      (''pk'', (RolePrimary, ''hwk'')),
      (''uv'', (RoleQualifier, ''user'')),
      (''totp'', (RoleSecond, ''otp'')),
      (''rc'', (RoleSecond, ''rc'')),
      (''pk_stepup'', (RoleSecond, ''hwk''))]"

definition FactorByCode :: "string \<Rightarrow> factor result" where
  "FactorByCode code =
     (case map_of factorTable code of
        None \<Rightarrow> Err [CoreErr ErrInvalidFactor]
      | Some _ \<Rightarrow> Ok (Factor code))"

definition factor_Valid :: "factor \<Rightarrow> bool" where
  "factor_Valid f \<longleftrightarrow> map_of factorTable (fcode f) \<noteq> None"

definition factor_Role :: "factor \<Rightarrow> role" where
  "factor_Role f = (case map_of factorTable (fcode f) of None \<Rightarrow> NoRole | Some (r, _) \<Rightarrow> r)"

definition factor_AMR :: "factor \<Rightarrow> string" where
  "factor_AMR f = (case map_of factorTable (fcode f) of None \<Rightarrow> [] | Some (_, a) \<Rightarrow> a)"

definition sortFactors :: "factor list \<Rightarrow> factor list" where
  "sortFactors fs = sort_key fcode fs"

definition AllFactors :: "factor list" where
  "AllFactors = sortFactors (map (\<lambda>(code, _). Factor code) factorTable)"

text \<open>The loop shared by \<^verbatim>\<open>unionFactors\<close> and \<^verbatim>\<open>NewMFADecision\<close>: append what is not there yet.\<close>

fun append_new :: "'a list \<Rightarrow> 'a list \<Rightarrow> 'a list" where
  "append_new out [] = out"
| "append_new out (f # fs) = append_new (if f \<in> set out then out else out @ [f]) fs"

definition unionFactors :: "factor list \<Rightarrow> factor list \<Rightarrow> factor list" where
  "unionFactors a b = sortFactors (append_new [] (a @ b))"

definition hasRole :: "factor list \<Rightarrow> role \<Rightarrow> bool" where
  "hasRole fs r \<longleftrightarrow> list_ex (\<lambda>f. factor_Role f = r) fs"

definition multiFactor :: "factor list \<Rightarrow> bool" where
  "multiFactor fs \<longleftrightarrow>
     (if hasRole fs RolePrimary \<and> hasRole fs RoleSecond then True
      else FactorPasskey \<in> set fs \<and> FactorUserVerification \<in> set fs)"

fun amr_loop :: "string list \<Rightarrow> factor list \<Rightarrow> string list" where
  "amr_loop out [] = out"
| "amr_loop out (f # fs) =
     (let v = factor_AMR f in amr_loop (if v \<noteq> [] \<and> v \<notin> set out then out @ [v] else out) fs)"

definition amrOf :: "factor list \<Rightarrow> string list" where
  "amrOf fs = amr_loop [] fs @ (if multiFactor fs then [''mfa''] else [])"

section \<open>Factor sets\<close>

definition factor_set :: "factor list \<Rightarrow> bool" where
  "factor_set fs \<longleftrightarrow> sorted (map fcode fs) \<and> distinct fs"

lemma set_append_new [simp]: "set (append_new out fs) = set out \<union> set fs"
  by (induction out fs rule: append_new.induct) auto

lemma distinct_append_new: "distinct out \<Longrightarrow> distinct (append_new out fs)"
  by (induction out fs rule: append_new.induct) auto

lemma set_sortFactors [simp]: "set (sortFactors fs) = set fs"
  by (simp add: sortFactors_def)

lemma sortFactors_Nil [simp]: "sortFactors fs = [] \<longleftrightarrow> fs = []"
  by (metis set_empty set_sortFactors)

lemma distinct_sortFactors [simp]: "distinct (sortFactors fs) \<longleftrightarrow> distinct fs"
  by (simp add: sortFactors_def)

lemma set_unionFactors [simp]: "set (unionFactors a b) = set a \<union> set b"
  by (simp add: unionFactors_def)

lemma factor_set_sortFactors: "distinct fs \<Longrightarrow> factor_set (sortFactors fs)"
  by (simp add: factor_set_def sortFactors_def)

lemma factor_set_unionFactors [simp]: "factor_set (unionFactors a b)"
  unfolding unionFactors_def by (intro factor_set_sortFactors distinct_append_new) simp

lemma factor_set_Nil [simp]: "factor_set []"
  by (simp add: factor_set_def)

lemma inj_fcode: "inj fcode"
  by (auto intro: injI simp: factor.expand)

lemma factor_set_strict: "factor_set fs \<longleftrightarrow> sorted_wrt (<) (map fcode fs)"
  by (auto simp: factor_set_def strict_sorted_iff distinct_map inj_on_def factor.expand)

lemma factor_set_eqI:
  assumes "factor_set a" "factor_set b" "set a = set b"
  shows "a = b"
proof -
  have "map fcode a = map fcode b"
    using assms by (intro strict_sorted_equal) (simp_all add: factor_set_strict)
  then show ?thesis
    by (simp add: inj_map_eq_map [OF inj_fcode])
qed

lemma hasRole_iff: "hasRole fs r \<longleftrightarrow> (\<exists>f \<in> set fs. factor_Role f = r)"
  by (simp add: hasRole_def list_ex_iff)

lemma hasRole_mono: "set a \<subseteq> set b \<Longrightarrow> hasRole a r \<Longrightarrow> hasRole b r"
  by (auto simp: hasRole_iff)

lemma multiFactor_mono: "set a \<subseteq> set b \<Longrightarrow> multiFactor a \<Longrightarrow> multiFactor b"
  by (auto simp: multiFactor_def dest: hasRole_mono split: if_splits)

lemma hasRole_append [simp]: "hasRole (a @ b) r \<longleftrightarrow> hasRole a r \<or> hasRole b r"
  by (auto simp: hasRole_iff)

lemma hasRole_union [simp]: "hasRole (unionFactors a b) r \<longleftrightarrow> hasRole a r \<or> hasRole b r"
  by (auto simp: hasRole_iff)

lemma hasRole_Nil [simp]: "\<not> hasRole [] r"
  by (simp add: hasRole_def)

lemma factor_Role_cases:
  "factor_Role FactorPassword = RolePrimary"
  "factor_Role FactorPasskey = RolePrimary"
  "factor_Role FactorUserVerification = RoleQualifier"
  "factor_Role FactorTOTP = RoleSecond"
  "factor_Role FactorRecoveryCode = RoleSecond"
  "factor_Role FactorPasskeyStepUp = RoleSecond"
  "factor_Role FactorFederated = RolePrimary"
  "factor_Role FactorExternal = RolePrimary"
  "factor_Role FactorEmailLink = RolePrimary"
  "factor_Role FactorEmailCode = RolePrimary"
  "factor_Role FactorSMSCode = RolePrimary"
  by (simp_all add: factor_Role_def factorTable_def factor_defs)

lemma factor_Valid_iff: "factor_Valid f \<longleftrightarrow> factor_Role f \<noteq> NoRole"
  by (auto simp: factor_Valid_def factor_Role_def factorTable_def split: option.splits if_splits)

lemma FactorByCode_Valid [simp]: "factor_Valid f \<Longrightarrow> FactorByCode (fcode f) = Ok f"
  by (auto simp: FactorByCode_def factor_Valid_def split: option.splits)

lemma FactorByCode_Ok: "FactorByCode c = Ok f \<Longrightarrow> factor_Valid f \<and> fcode f = c"
  by (auto simp: FactorByCode_def factor_Valid_def split: option.splits)

lemma multiFactor_primary:
  "multiFactor fs \<Longrightarrow> hasRole fs RolePrimary"
  using factor_Role_cases(2) by (auto simp: multiFactor_def hasRole_iff split: if_splits)

lemma multiFactor_iff:
  "multiFactor fs \<longleftrightarrow>
     (hasRole fs RolePrimary \<and> hasRole fs RoleSecond) \<or>
     (FactorPasskey \<in> set fs \<and> FactorUserVerification \<in> set fs)"
  by (auto simp: multiFactor_def)

end
