(* ===== verification/Core_Journey.thy ===== *)
theory Core_Journey
  imports Core_Factor
begin

text \<open>
  The sealed authentication vocabulary and its transitions: \<^verbatim>\<open>internal/core/pending.go\<close>,
  \<^verbatim>\<open>attrs.go\<close>, \<^verbatim>\<open>policy.go\<close> and \<^verbatim>\<open>transitions.go\<close>. A \<open>pending\<close> is the pre-session state of one
  journey, a \<open>session_attrs\<close> an established session. Their fields are unexported in the code, so the
  values a program can hold are exactly those the transitions produce: the mutually inductive
  predicates \<open>pending_reach\<close> and \<open>session_reach\<close>. The \<^verbatim>\<open>clone\<close> methods copy slices so that no caller
  shares them; on the immutable values of the model they are the identity and are not written out.
\<close>

section \<open>Enumerations\<close>

type_synonym transport = u8
type_synonym remember_intent = u8
type_synonym remember_policy = u8
type_synonym claims_outcome = u8

definition TransportCookies :: transport where "TransportCookies = 1"
definition TransportBearer :: transport where "TransportBearer = 2"

definition transport_Valid :: "transport \<Rightarrow> bool" where
  "transport_Valid t \<longleftrightarrow> t = TransportCookies \<or> t = TransportBearer"

definition RememberDeclined :: remember_intent where "RememberDeclined = 1"
definition RememberRequested :: remember_intent where "RememberRequested = 2"

definition RememberUserChoice :: remember_policy where "RememberUserChoice = 1"
definition RememberAlways :: remember_policy where "RememberAlways = 2"
definition RememberNever :: remember_policy where "RememberNever = 3"

definition ClaimsRefreshed :: claims_outcome where "ClaimsRefreshed = 1"
definition ClaimsKeptStale :: claims_outcome where "ClaimsKeptStale = 2"
definition ClaimsUnavailable :: claims_outcome where "ClaimsUnavailable = 3"
definition ClaimsSubjectUnknown :: claims_outcome where "ClaimsSubjectUnknown = 4"
definition ClaimsTooLarge :: claims_outcome where "ClaimsTooLarge = 5"

lemmas enum_defs =
  TransportCookies_def TransportBearer_def RememberDeclined_def RememberRequested_def
  RememberUserChoice_def RememberAlways_def RememberNever_def ClaimsRefreshed_def
  ClaimsKeptStale_def ClaimsUnavailable_def ClaimsSubjectUnknown_def ClaimsTooLarge_def

section \<open>Account state and MFA decision\<close>

record account_state =
  st_exists :: bool
  st_disabled :: bool
  st_deleted :: bool
  st_mustChange :: bool
  st_emailVerified :: bool
  st_epoch :: u64

definition NewAccountState :: "bool \<Rightarrow> bool \<Rightarrow> bool \<Rightarrow> bool \<Rightarrow> bool \<Rightarrow> u64 \<Rightarrow> account_state" where
  "NewAccountState ex dis del mc ev ep =
     \<lparr>st_exists = ex, st_disabled = dis, st_deleted = del, st_mustChange = mc,
      st_emailVerified = ev, st_epoch = ep\<rparr>"

definition account_Usable :: "account_state \<Rightarrow> bool" where
  "account_Usable s \<longleftrightarrow> st_exists s \<and> \<not> st_disabled s \<and> \<not> st_deleted s"

record mfa_decision =
  mfa_loaded :: bool
  mfa_enrolled :: "factor list"

definition NewMFADecision :: "factor list \<Rightarrow> mfa_decision" where
  "NewMFADecision enrolled =
     \<lparr>mfa_loaded = True, mfa_enrolled = sortFactors (append_new [] enrolled)\<rparr>"

definition mfa_IsZero :: "mfa_decision \<Rightarrow> bool" where
  "mfa_IsZero d \<longleftrightarrow> \<not> mfa_loaded d"

definition mfa_Required :: "mfa_decision \<Rightarrow> bool" where
  "mfa_Required d \<longleftrightarrow> \<not> mfa_loaded d \<or> length (mfa_enrolled d) > 0"

definition canonTime :: "instant \<Rightarrow> instant" where
  "canonTime t = (if time_IsZero t then zero_time else t)"

lemma canonTime_id [simp]: "canonTime t = t"
  by (simp add: canonTime_def time_IsZero_def)

section \<open>Verified factors\<close>

record verified =
  v_subject :: subject
  v_factors :: "factor list"
  v_credentialID :: bytes
  v_identifies :: bool
  v_provider :: string
  v_at :: instant

record verified_spec =
  vs_Subject :: subject
  vs_Factors :: "factor list"
  vs_CredentialID :: bytes
  vs_Identifies :: bool
  vs_Provider :: string
  vs_At :: instant

text \<open>The loop of \<^verbatim>\<open>checkVerifiedShape\<close>: the prefix seen so far and the counts per role.\<close>

fun shape_loop :: "factor list \<Rightarrow> nat \<times> nat \<times> nat \<Rightarrow> factor list \<Rightarrow> (nat \<times> nat \<times> nat) result" where
  "shape_loop seen (primary, second, uv) [] = Ok (primary, second, uv)"
| "shape_loop seen (primary, second, uv) (f # fs) =
     (if \<not> factor_Valid f \<or> f \<in> set seen then Err [CoreErr ErrInvalidFactor]
      else shape_loop (seen @ [f])
        (case factor_Role f of
           RolePrimary \<Rightarrow> (primary + 1, second, uv)
         | RoleSecond \<Rightarrow> (primary, second + 1, uv)
         | RoleQualifier \<Rightarrow> (primary, second, uv + 1)
         | NoRole \<Rightarrow> (primary, second, uv)) fs)"

definition checkVerifiedShape :: "factor list \<Rightarrow> bytes \<Rightarrow> bool \<Rightarrow> string \<Rightarrow> unit result" where
  "checkVerifiedShape fs credentialID identifies provider =
     (if length fs = 0 then Err (errors_New ''no factor'')
      else case shape_loop [] (0, 0, 0) fs of
        Err e \<Rightarrow> Err e
      | Panic \<Rightarrow> Panic
      | Ok (primary, second, uv) \<Rightarrow>
          (let hasPK = FactorPasskey \<in> set fs;
               combination =
                 (if second = 1 \<and> primary = 0 \<and> uv = 0 then
                    (if identifies then Err (errors_New ''second factors do not identify'') else Ok ())
                  else if primary = 1 \<and> second = 0 \<and> (uv = 1) = hasPK then Ok ()
                  else Err (errors_New ''invalid factor combination''));
               needsCred = (hasPK \<or> FactorPasskeyStepUp \<in> set fs);
               needsProvider = (FactorFederated \<in> set fs \<or> FactorExternal \<in> set fs)
           in case combination of
                Err e \<Rightarrow> Err e
              | Panic \<Rightarrow> Panic
              | Ok _ \<Rightarrow>
                 (if needsCred \<noteq> (length credentialID > 0) then Err (errors_New ''credential id mismatch'')
                  else if needsProvider \<noteq> (provider \<noteq> []) then Err (errors_New ''provider mismatch'')
                  else Ok ())))"

definition NewVerified :: "verified_spec \<Rightarrow> verified result" where
  "NewVerified s =
     (if subject_IsZero (vs_Subject s) \<or> time_IsZero (vs_At s) then Err [CoreErr ErrInvalidVerified]
      else case checkVerifiedShape (vs_Factors s) (vs_CredentialID s) (vs_Identifies s) (vs_Provider s) of
        Err e \<Rightarrow> Err (errors_Join [CoreErr ErrInvalidVerified] e)
      | Panic \<Rightarrow> Panic
      | Ok _ \<Rightarrow>
          Ok \<lparr>v_subject = vs_Subject s, v_factors = sortFactors (vs_Factors s),
              v_credentialID = vs_CredentialID s, v_identifies = vs_Identifies s,
              v_provider = vs_Provider s, v_at = canonTime (vs_At s)\<rparr>)"

section \<open>Session attributes\<close>

definition codecVersion :: u8 where "codecVersion = 1"

record credential_use =
  cu_factor :: factor
  cu_id :: bytes

definition credentialClash :: "credential_use list \<Rightarrow> factor \<Rightarrow> bytes \<Rightarrow> bool" where
  "credentialClash existing f i =
     (if f = FactorPasskey then list_ex (\<lambda>u. cu_factor u = FactorPasskeyStepUp \<and> cu_id u = i) existing
      else if f = FactorPasskeyStepUp then list_ex (\<lambda>u. cu_factor u = FactorPasskey \<and> cu_id u = i) existing
      else False)"

record session_attrs =
  a_version :: u8
  a_lineage :: uuid
  a_subject :: subject
  a_factors :: "factor list"
  a_credentialIDs :: "credential_use list"
  a_primaryAt :: instant
  a_secondAt :: instant
  a_epoch :: u64
  a_mustChange :: bool
  a_remember :: bool
  a_returnTo :: string
  a_transport :: transport
  a_provider :: string
  a_createdAt :: instant
  a_claimsFetchedAt :: instant

definition zero_attrs :: session_attrs where
  "zero_attrs =
     \<lparr>a_version = 0, a_lineage = uuid_Nil, a_subject = zero_subject, a_factors = [], a_credentialIDs = [],
      a_primaryAt = zero_time, a_secondAt = zero_time, a_epoch = 0, a_mustChange = False,
      a_remember = False, a_returnTo = [], a_transport = 0, a_provider = [], a_createdAt = zero_time,
      a_claimsFetchedAt = zero_time\<rparr>"

definition attrs_IsZero :: "session_attrs \<Rightarrow> bool" where
  "attrs_IsZero a \<longleftrightarrow> a_version a = 0"

definition attrs_HasFactor :: "session_attrs \<Rightarrow> factor \<Rightarrow> bool" where
  "attrs_HasFactor a f \<longleftrightarrow> factor_Valid f \<and> f \<in> set (a_factors a)"

definition attrs_MultiFactor :: "session_attrs \<Rightarrow> bool" where
  "attrs_MultiFactor a \<longleftrightarrow> multiFactor (a_factors a)"

definition FreshWithin :: "session_attrs \<Rightarrow> duration \<Rightarrow> instant \<Rightarrow> bool" where
  "FreshWithin a d now \<longleftrightarrow>
     (if d \<le> 0 \<or> time_IsZero (a_primaryAt a) \<or> time_Sub now (a_primaryAt a) > d then False
      else if hasRole (a_factors a) RoleSecond \<or> multiFactor (a_factors a) then
        \<not> time_IsZero (a_secondAt a) \<and> time_Sub now (a_secondAt a) \<le> d
      else True)"

section \<open>The pre-session journey\<close>

text \<open>\<^verbatim>\<open>redirect.Target\<close>: a target already validated by \<^verbatim>\<open>redirect.Parse\<close>.\<close>

datatype target = Target (target_String: string)

record pending =
  p_version :: u8
  p_tenant :: tenant_id
  p_subject :: subject
  p_epochAtBind :: u64
  p_verified :: "verified list"
  p_remember :: bool
  p_returnTo :: string
  p_transport :: transport
  p_provider :: string
  p_reauthOf :: uuid
  p_bindHash :: bytes
  p_expiresAt :: instant

definition zero_pending :: pending where
  "zero_pending =
     \<lparr>p_version = 0, p_tenant = zero_tenant, p_subject = zero_subject, p_epochAtBind = 0,
      p_verified = [], p_remember = False, p_returnTo = [], p_transport = 0, p_provider = [],
      p_reauthOf = uuid_Nil, p_bindHash = [], p_expiresAt = zero_time\<rparr>"

definition PendingTTL :: duration where
  "PendingTTL = 15 * Minute"

definition bindHashLen :: nat where
  "bindHashLen = 32"

definition NewPending ::
  "tenant_id \<Rightarrow> remember_intent \<Rightarrow> target \<Rightarrow> transport \<Rightarrow> remember_policy \<Rightarrow> instant \<Rightarrow> pending result" where
  "NewPending t remember returnTo tr pol now =
     (if remember \<noteq> RememberDeclined \<and> remember \<noteq> RememberRequested then
        Err (errors_Join [CoreErr ErrInvalidArgument] (errors_New ''remember intent''))
      else if \<not> transport_Valid tr then
        Err (errors_Join [CoreErr ErrInvalidArgument] (errors_New ''transport''))
      else
        (let rem = (if pol = RememberUserChoice then Some (remember = RememberRequested)
                    else if pol = RememberAlways then Some True
                    else if pol = RememberNever then Some False
                    else None)
         in case rem of
              None \<Rightarrow> Err (errors_Join [CoreErr ErrInvalidArgument] (errors_New ''remember-me policy''))
            | Some rm \<Rightarrow>
                (if time_IsZero now then Err (errors_Join [CoreErr ErrInvalidArgument] (errors_New ''time''))
                 else Ok (zero_pending
                   \<lparr>p_version := codecVersion, p_tenant := t, p_remember := rm,
                    p_returnTo := target_String returnTo, p_transport := tr,
                    p_expiresAt := canonTime (now + PendingTTL)\<rparr>))))"

definition PendingForReauth :: "session_attrs \<Rightarrow> instant \<Rightarrow> pending" where
  "PendingForReauth a now =
     (if a_version a = 0 then zero_pending
      else zero_pending
        \<lparr>p_version := codecVersion, p_tenant := s_tenant (a_subject a), p_subject := a_subject a,
         p_epochAtBind := a_epoch a, p_remember := a_remember a, p_transport := a_transport a,
         p_reauthOf := a_lineage a, p_expiresAt := canonTime (now + PendingTTL)\<rparr>)"

definition pending_Bound :: "pending \<Rightarrow> bool" where
  "pending_Bound p \<longleftrightarrow> \<not> subject_IsZero (p_subject p)"

definition Pending_Bind :: "pending \<Rightarrow> subject \<Rightarrow> account_state \<Rightarrow> pending result" where
  "Pending_Bind p s st =
     (if p_version p = 0 \<or> subject_IsZero s then Err [CoreErr ErrInvalidArgument]
      else if s_tenant s \<noteq> p_tenant p then Err [CoreErr ErrTenantMismatch]
      else if pending_Bound p then Err [CoreErr ErrAlreadyBound]
      else Ok (p\<lparr>p_subject := s, p_epochAtBind := st_epoch st\<rparr>))"

definition WithBindHash :: "pending \<Rightarrow> bytes \<Rightarrow> pending result" where
  "WithBindHash p h =
     (if p_version p = 0 \<or> length h \<noteq> bindHashLen \<or> length (p_bindHash p) \<noteq> 0
      then Err [CoreErr ErrInvalidArgument]
      else Ok (p\<lparr>p_bindHash := h\<rparr>))"

fun factor_union :: "factor list \<Rightarrow> verified list \<Rightarrow> factor list" where
  "factor_union out [] = out"
| "factor_union out (v # vs) = factor_union (unionFactors out (v_factors v)) vs"

definition factorSet :: "pending \<Rightarrow> factor list" where
  "factorSet p = factor_union [] (p_verified p)"

definition verified_uses :: "verified \<Rightarrow> credential_use list" where
  "verified_uses v =
     (if length (v_credentialID v) = 0 then []
      else map (\<lambda>f. \<lparr>cu_factor = f, cu_id = v_credentialID v\<rparr>)
             (filter (\<lambda>f. f = FactorPasskey \<or> f = FactorPasskeyStepUp) (v_factors v)))"

definition credentialUses :: "pending \<Rightarrow> credential_use list" where
  "credentialUses p = concat (map verified_uses (p_verified p))"

definition Pending_Add :: "pending \<Rightarrow> verified \<Rightarrow> account_state \<Rightarrow> pending result" where
  "Pending_Add p v st =
     (if p_version p = 0 \<or> length (v_factors v) = 0 then Err [CoreErr ErrInvalidArgument]
      else if s_tenant (v_subject v) \<noteq> p_tenant p then Err [CoreErr ErrTenantMismatch]
      else if \<not> v_at v < p_expiresAt p then Err [CoreErr ErrPendingExpired]
      else
        (let bound =
           (if \<not> pending_Bound p then
              (if hasRole (v_factors v) RoleSecond then Err [CoreErr ErrNotBound]
               else if \<not> v_identifies v then Err [CoreErr ErrNotIdentifying]
               else Ok (p\<lparr>p_subject := v_subject v, p_epochAtBind := st_epoch st\<rparr>))
            else if v_subject v \<noteq> p_subject p then Err [CoreErr ErrSubjectMismatch]
            else if st_epoch st \<noteq> p_epochAtBind p then Err [CoreErr ErrEpochStale]
            else Ok p)
         in case bound of
              Err e \<Rightarrow> Err e
            | Panic \<Rightarrow> Panic
            | Ok n \<Rightarrow>
                (if list_ex (\<lambda>f. credentialClash (credentialUses p) f (v_credentialID v)) (v_factors v)
                 then Err [CoreErr ErrSameCredential]
                 else if v_provider v \<noteq> [] \<and> p_provider p \<noteq> [] \<and> p_provider p \<noteq> v_provider v
                 then Err [CoreErr ErrProviderMismatch]
                 else Ok (n\<lparr>p_provider := (if v_provider v \<noteq> [] then v_provider v else p_provider n),
                            p_verified := p_verified n @ [v]\<rparr>))))"

fun latest :: "(verified \<Rightarrow> bool) \<Rightarrow> instant \<Rightarrow> verified list \<Rightarrow> instant" where
  "latest match t [] = t"
| "latest match t (v # vs) = latest match (if match v \<and> v_at v > t then v_at v else t) vs"

definition pending_primaryAt :: "pending \<Rightarrow> instant" where
  "pending_primaryAt p = latest (\<lambda>v. hasRole (v_factors v) RolePrimary) zero_time (p_verified p)"

definition pending_secondAt :: "pending \<Rightarrow> instant" where
  "pending_secondAt p =
     latest (\<lambda>v. hasRole (v_factors v) RoleSecond \<or> multiFactor (v_factors v)) zero_time (p_verified p)"

section \<open>Transitions\<close>

record admission =
  adm_attrs :: session_attrs
  adm_pending :: pending
  adm_needs :: "factor list"
  adm_session :: bool

definition admission_Session :: "admission \<Rightarrow> session_attrs \<times> bool" where
  "admission_Session a = (adm_attrs a, adm_session a)"

definition admission_NeedsFactor :: "admission \<Rightarrow> pending \<times> factor list \<times> bool" where
  "admission_NeedsFactor a =
     (if adm_session a \<or> p_version (adm_pending a) = 0 then (zero_pending, [], False)
      else (adm_pending a, adm_needs a, True))"

text \<open>\<open>fresh\<close> is the identifier \<^verbatim>\<open>uuid.New\<close> draws.\<close>

definition Admit :: "pending \<Rightarrow> account_state \<Rightarrow> mfa_decision \<Rightarrow> instant \<Rightarrow> uuid \<Rightarrow> admission result" where
  "Admit p st mfa now fresh =
     (if p_version p = 0 \<or> \<not> transport_Valid (p_transport p) \<or> mfa_IsZero mfa \<or> time_IsZero now
      then Err [CoreErr ErrInvalidArgument]
      else if \<not> now < p_expiresAt p then Err [CoreErr ErrPendingExpired]
      else if \<not> pending_Bound p then Err [CoreErr ErrNotBound]
      else if p_reauthOf p \<noteq> uuid_Nil then Err [CoreErr ErrReauthPending]
      else
        (let fs = factorSet p in
         if \<not> hasRole fs RolePrimary then Err [CoreErr ErrNoPrimary]
         else if \<not> account_Usable st then Err [CoreErr ErrAccountUnusable]
         else if st_epoch st \<noteq> p_epochAtBind p then Err [CoreErr ErrEpochStale]
         else if mfa_Required mfa \<and> \<not> multiFactor fs then
           Ok \<lparr>adm_attrs = zero_attrs, adm_pending = p, adm_needs = mfa_enrolled mfa, adm_session = False\<rparr>
         else
           Ok \<lparr>adm_attrs =
                 \<lparr>a_version = codecVersion, a_lineage = fresh, a_subject = p_subject p, a_factors = fs,
                  a_credentialIDs = credentialUses p, a_primaryAt = pending_primaryAt p,
                  a_secondAt = pending_secondAt p, a_epoch = st_epoch st,
                  a_mustChange = st_mustChange st, a_remember = p_remember p,
                  a_returnTo = p_returnTo p, a_transport = p_transport p, a_provider = p_provider p,
                  a_createdAt = canonTime now, a_claimsFetchedAt = canonTime now\<rparr>,
               adm_pending = zero_pending, adm_needs = [], adm_session = True\<rparr>))"

definition Reauthenticate ::
  "session_attrs \<Rightarrow> pending \<Rightarrow> account_state \<Rightarrow> mfa_decision \<Rightarrow> instant \<Rightarrow> session_attrs result" where
  "Reauthenticate a p st mfa now =
     (if a_version a = 0 \<or> p_version p = 0 \<or> mfa_IsZero mfa \<or> time_IsZero now
      then Err [CoreErr ErrInvalidArgument]
      else if p_reauthOf p = uuid_Nil \<or> p_reauthOf p \<noteq> a_lineage a then Err [CoreErr ErrLineageMismatch]
      else if p_subject p \<noteq> a_subject a then Err [CoreErr ErrSubjectMismatch]
      else if \<not> now < p_expiresAt p then Err [CoreErr ErrPendingExpired]
      else
        (let fs = factorSet p in
         if \<not> hasRole fs RolePrimary then Err [CoreErr ErrNoPrimary]
         else if \<not> account_Usable st then Err [CoreErr ErrAccountUnusable]
         else if st_epoch st \<noteq> a_epoch a \<or> st_epoch st \<noteq> p_epochAtBind p then Err [CoreErr ErrEpochStale]
         else if mfa_Required mfa \<and> \<not> multiFactor fs then Err [CoreErr ErrFactorRequired]
         else Ok (a\<lparr>a_factors := unionFactors (a_factors a) fs,
                    a_credentialIDs := append_new (a_credentialIDs a) (credentialUses p),
                    a_primaryAt := pending_primaryAt p,
                    a_secondAt := (if time_IsZero (pending_secondAt p) then a_secondAt a else pending_secondAt p),
                    a_mustChange := a_mustChange a \<or> st_mustChange st\<rparr>)))"

definition checkBumped :: "session_attrs \<Rightarrow> account_state \<Rightarrow> unit result" where
  "checkBumped a st =
     (if \<not> account_Usable st then Err [CoreErr ErrAccountUnusable]
      else if st_epoch st \<noteq> a_epoch a + 1 then Err [CoreErr ErrEpochStale]
      else Ok ())"

definition FactorEnrolled :: "session_attrs \<Rightarrow> factor \<Rightarrow> account_state \<Rightarrow> session_attrs result" where
  "FactorEnrolled a f st =
     (if a_version a = 0 then Err [CoreErr ErrInvalidArgument]
      else if factor_Role f \<noteq> RoleSecond then Err [CoreErr ErrInvalidFactor]
      else case checkBumped a st of
        Err e \<Rightarrow> Err e
      | Panic \<Rightarrow> Panic
      | Ok _ \<Rightarrow> Ok (a\<lparr>a_factors := unionFactors (a_factors a) [f], a_epoch := st_epoch st,
                       a_mustChange := a_mustChange a \<or> st_mustChange st\<rparr>))"

definition PasswordChanged :: "session_attrs \<Rightarrow> account_state \<Rightarrow> instant \<Rightarrow> session_attrs result" where
  "PasswordChanged a st now =
     (if a_version a = 0 \<or> time_IsZero now then Err [CoreErr ErrInvalidArgument]
      else case checkBumped a st of
        Err e \<Rightarrow> Err e
      | Panic \<Rightarrow> Panic
      | Ok _ \<Rightarrow> Ok (a\<lparr>a_factors := unionFactors (a_factors a) [FactorPassword],
                       a_primaryAt := canonTime now, a_mustChange := False, a_epoch := st_epoch st\<rparr>))"

definition Renew ::
  "session_attrs \<Rightarrow> account_state \<Rightarrow> mfa_decision \<Rightarrow> claims_outcome \<Rightarrow> instant \<Rightarrow> session_attrs result" where
  "Renew a st mfa claims now =
     (if a_version a = 0 \<or> mfa_IsZero mfa \<or> time_IsZero now then Err [CoreErr ErrInvalidArgument]
      else if \<not> account_Usable st then Err [CoreErr ErrAccountUnusable]
      else if a_epoch a \<noteq> st_epoch st then Err [CoreErr ErrEpochStale]
      else if mfa_Required mfa \<and> \<not> multiFactor (a_factors a) then Err [CoreErr ErrReauthRequired]
      else
        (let fetched =
           (if claims = ClaimsRefreshed then Ok (a\<lparr>a_claimsFetchedAt := canonTime now\<rparr>)
            else if claims = ClaimsKeptStale then Ok a
            else if claims = ClaimsUnavailable then Err [CoreErr ErrClaimsUnavailable]
            else if claims = ClaimsSubjectUnknown then Err [CoreErr ErrClaimsSubjectUnknown]
            else if claims = ClaimsTooLarge then Err [CoreErr ErrClaimsTooLarge]
            else Err (errors_Join [CoreErr ErrInvalidArgument] (errors_New ''claims outcome'')))
         in case fetched of
              Err e \<Rightarrow> Err e
            | Panic \<Rightarrow> Panic
            | Ok n \<Rightarrow> Ok (n\<lparr>a_mustChange := a_mustChange a \<or> st_mustChange st\<rparr>)))"

end
