(* ===== verification/Core_Reach.thy ===== *)
theory Core_Reach
  imports Core_Journey
begin

text \<open>
  The values the transitions of \<^verbatim>\<open>internal/core\<close> can produce, and what is true of them. Pendings and
  sessions feed each other (a reauthentication starts from a session, a session from a pending), so
  the two predicates are mutually inductive, with one rule per transition.
\<close>

section \<open>Reachable pendings and sessions\<close>

inductive pending_reach :: "pending \<Rightarrow> bool" and session_reach :: "session_attrs \<Rightarrow> bool" where
  new_pending:
    "NewPending t remember target tr pol now = Ok p \<Longrightarrow> valid_tenant t \<Longrightarrow> pending_reach p"
| reauth_pending:
    "session_reach a \<Longrightarrow> pending_reach (PendingForReauth a now)"
| bind:
    "pending_reach p \<Longrightarrow> Pending_Bind p s st = Ok p' \<Longrightarrow> pending_reach p'"
| bind_hash:
    "pending_reach p \<Longrightarrow> WithBindHash p h = Ok p' \<Longrightarrow> pending_reach p'"
| add:
    "pending_reach p \<Longrightarrow> NewVerified spec = Ok v \<Longrightarrow> Pending_Add p v st = Ok p' \<Longrightarrow> pending_reach p'"
| admit:
    "pending_reach p \<Longrightarrow> Admit p st mfa now fresh = Ok adm \<Longrightarrow> admission_Session adm = (a, True) \<Longrightarrow>
     fresh \<noteq> uuid_Nil \<Longrightarrow> session_reach a"
| reauthenticate:
    "session_reach a \<Longrightarrow> pending_reach p \<Longrightarrow> Reauthenticate a p st mfa now = Ok a' \<Longrightarrow> session_reach a'"
| factor_enrolled:
    "session_reach a \<Longrightarrow> FactorEnrolled a f st = Ok a' \<Longrightarrow> session_reach a'"
| password_changed:
    "session_reach a \<Longrightarrow> PasswordChanged a st now = Ok a' \<Longrightarrow> session_reach a'"
| renew:
    "session_reach a \<Longrightarrow> Renew a st mfa claims now = Ok a' \<Longrightarrow> session_reach a'"

section \<open>The shape of one verification\<close>

definition role_count :: "factor list \<Rightarrow> role \<Rightarrow> nat" where
  "role_count fs r = length (filter (\<lambda>f. factor_Role f = r) fs)"

lemma shape_loop_Ok:
  "shape_loop seen (p, s, u) fs = Ok (p', s', u') \<Longrightarrow>
     list_all factor_Valid fs \<and> distinct fs \<and> set fs \<inter> set seen = {} \<and>
     p' = p + role_count fs RolePrimary \<and> s' = s + role_count fs RoleSecond \<and>
     u' = u + role_count fs RoleQualifier"
proof (induction seen "(p, s, u)" fs arbitrary: p s u rule: shape_loop.induct)
  case (1 seen p s u)
  then show ?case by (simp add: role_count_def)
next
  case (2 seen p s u f fs)
  then show ?case
    by (cases "factor_Role f") (auto simp: role_count_def factor_Valid_iff split: if_splits)
qed

lemma shape_loop_complete:
  "list_all factor_Valid fs \<Longrightarrow> distinct fs \<Longrightarrow> set fs \<inter> set seen = {} \<Longrightarrow>
   shape_loop seen (p, s, u) fs =
     Ok (p + role_count fs RolePrimary, s + role_count fs RoleSecond, u + role_count fs RoleQualifier)"
proof (induction seen "(p, s, u)" fs arbitrary: p s u rule: shape_loop.induct)
  case (1 seen p s u)
  then show ?case by (simp add: role_count_def)
next
  case (2 seen p s u f fs)
  then show ?case
    by (cases "factor_Role f") (auto simp: role_count_def factor_Valid_iff)
qed

lemma role_count_pos: "0 < role_count fs r \<longleftrightarrow> hasRole fs r"
  by (simp add: role_count_def hasRole_iff filter_empty_conv)

lemma role_count_cong: "distinct a \<Longrightarrow> distinct b \<Longrightarrow> set a = set b \<Longrightarrow> role_count a r = role_count b r"
proof -
  assume ab: "distinct a" "distinct b" "set a = set b"
  then have "distinct (filter (\<lambda>f. factor_Role f = r) a)" "distinct (filter (\<lambda>f. factor_Role f = r) b)"
    by simp_all
  then show "role_count a r = role_count b r"
    unfolding role_count_def using ab(3) by (simp add: distinct_card [symmetric])
qed

text \<open>The verdict of \<^const>\<open>checkVerifiedShape\<close> in closed form.\<close>

definition shape_ok :: "factor list \<Rightarrow> bytes \<Rightarrow> bool \<Rightarrow> string \<Rightarrow> bool" where
  "shape_ok fs cred ident prov \<longleftrightarrow>
     fs \<noteq> [] \<and> list_all factor_Valid fs \<and> distinct fs \<and>
     (role_count fs RoleSecond = 1 \<and> role_count fs RolePrimary = 0 \<and> role_count fs RoleQualifier = 0 \<and> \<not> ident \<or>
      role_count fs RolePrimary = 1 \<and> role_count fs RoleSecond = 0 \<and>
        (role_count fs RoleQualifier = 1 \<longleftrightarrow> FactorPasskey \<in> set fs)) \<and>
     ((FactorPasskey \<in> set fs \<or> FactorPasskeyStepUp \<in> set fs) \<longleftrightarrow> cred \<noteq> []) \<and>
     ((FactorFederated \<in> set fs \<or> FactorExternal \<in> set fs) \<longleftrightarrow> prov \<noteq> [])"

lemma shape_loop_not_Panic: "shape_loop seen c fs \<noteq> Panic"
  by (induction seen c fs rule: shape_loop.induct) (auto split: role.splits)

lemma checkVerifiedShape_Ok_iff:
  "checkVerifiedShape fs cred ident prov = Ok () \<longleftrightarrow> shape_ok fs cred ident prov"
proof (cases "list_all factor_Valid fs \<and> distinct fs")
  case True
  then have "shape_loop [] (0, 0, 0) fs =
      Ok (role_count fs RolePrimary, role_count fs RoleSecond, role_count fs RoleQualifier)"
    using shape_loop_complete [of fs "[]" 0 0 0] by simp
  with True show ?thesis
    by (auto simp: checkVerifiedShape_def shape_ok_def Let_def)
next
  case False
  then have "shape_loop [] (0, 0, 0) fs \<noteq> Ok c" for c
    using shape_loop_Ok [of "[]" 0 0 0 fs] by (cases c) blast
  with False show ?thesis
    by (auto simp: checkVerifiedShape_def shape_ok_def split: result.splits)
qed

definition verified_ok :: "verified \<Rightarrow> bool" where
  "verified_ok v \<longleftrightarrow>
     \<not> subject_IsZero (v_subject v) \<and> \<not> time_IsZero (v_at v) \<and> factor_set (v_factors v) \<and>
     checkVerifiedShape (v_factors v) (v_credentialID v) (v_identifies v) (v_provider v) = Ok ()"

lemma NewVerified_ok: "NewVerified s = Ok v \<Longrightarrow> verified_ok v"
proof -
  assume v: "NewVerified s = Ok v"
  then have sh: "shape_ok (vs_Factors s) (vs_CredentialID s) (vs_Identifies s) (vs_Provider s)"
    by (auto simp: NewVerified_def simp flip: checkVerifiedShape_Ok_iff split: if_splits result.splits)
  then have d: "distinct (vs_Factors s)" by (simp add: shape_ok_def)
  have rc: "role_count (sortFactors (vs_Factors s)) r = role_count (vs_Factors s) r" for r
    using d by (intro role_count_cong) (simp_all add: sortFactors_def)
  have "shape_ok (sortFactors (vs_Factors s)) (vs_CredentialID s) (vs_Identifies s) (vs_Provider s)"
    using sh unfolding shape_ok_def rc by (simp add: list_all_iff distinct_sortFactors)
  with v d show ?thesis
    by (auto simp: NewVerified_def verified_ok_def checkVerifiedShape_Ok_iff factor_set_sortFactors
          split: if_splits result.splits)
qed

section \<open>Invariants\<close>

text \<open>
  Every verification collected by a pending is of its subject, was made before the pending expires
  and has a legal shape; nothing is collected before the pending is bound; one passkey credential
  never serves as primary and as step-up (C-28); the provider is the one of every federated
  verification.
\<close>

definition no_clash :: "credential_use list \<Rightarrow> bool" where
  "no_clash us \<longleftrightarrow>
     (\<forall>u \<in> set us. \<forall>w \<in> set us.
        cu_factor u = FactorPasskey \<and> cu_factor w = FactorPasskeyStepUp \<longrightarrow> cu_id u \<noteq> cu_id w)"

definition pending_inv :: "pending \<Rightarrow> bool" where
  "pending_inv p \<longleftrightarrow>
     p_version p = codecVersion \<and> transport_Valid (p_transport p) \<and> valid_tenant (p_tenant p) \<and>
     (if pending_Bound p then s_tenant (p_subject p) = p_tenant p
      else p_subject p = zero_subject \<and> p_verified p = [] \<and> p_reauthOf p = uuid_Nil) \<and>
     (\<forall>v \<in> set (p_verified p).
        verified_ok v \<and> v_subject v = p_subject p \<and> v_at v < p_expiresAt p \<and>
        (v_provider v \<noteq> [] \<longrightarrow> v_provider v = p_provider p)) \<and>
     no_clash (credentialUses p) \<and>
     length (p_bindHash p) \<in> {0, bindHashLen}"

definition attrs_ok :: "session_attrs \<Rightarrow> bool" where
  "attrs_ok a \<longleftrightarrow>
     a_version a = codecVersion \<and> a_lineage a \<noteq> uuid_Nil \<and> \<not> subject_IsZero (a_subject a) \<and>
     valid_tenant (s_tenant (a_subject a)) \<and> transport_Valid (a_transport a) \<and>
     factor_set (a_factors a) \<and> list_all factor_Valid (a_factors a) \<and>
     hasRole (a_factors a) RolePrimary \<and>
     (\<forall>u \<in> set (a_credentialIDs a).
        cu_factor u \<in> {FactorPasskey, FactorPasskeyStepUp} \<and> cu_id u \<noteq> [] \<and>
        cu_factor u \<in> set (a_factors a)) \<and>
     \<not> time_IsZero (a_createdAt a) \<and> \<not> time_IsZero (a_claimsFetchedAt a)"

lemma set_factor_union: "set (factor_union out vs) = set out \<union> (\<Union>v \<in> set vs. set (v_factors v))"
  by (induction out vs rule: factor_union.induct) auto

lemma set_factorSet: "set (factorSet p) = (\<Union>v \<in> set (p_verified p). set (v_factors v))"
  by (simp add: factorSet_def set_factor_union)

lemma factor_set_factor_union: "factor_set out \<Longrightarrow> factor_set (factor_union out vs)"
  by (induction out vs rule: factor_union.induct) auto

lemma factor_set_factorSet [simp]: "factor_set (factorSet p)"
  by (simp add: factorSet_def factor_set_factor_union)

lemma in_credentialUses:
  "u \<in> set (credentialUses p) \<longleftrightarrow>
     (\<exists>v \<in> set (p_verified p). v_credentialID v \<noteq> [] \<and> cu_factor u \<in> set (v_factors v) \<and>
        cu_factor u \<in> {FactorPasskey, FactorPasskeyStepUp} \<and> cu_id u = v_credentialID v)"
  by (cases u) (auto simp: credentialUses_def verified_uses_def)

lemma verified_ok_valid: "verified_ok v \<Longrightarrow> list_all factor_Valid (v_factors v)"
  by (auto simp: verified_ok_def checkVerifiedShape_Ok_iff shape_ok_def)

lemma pending_inv_valid: "pending_inv p \<Longrightarrow> list_all factor_Valid (factorSet p)"
  by (auto simp: pending_inv_def list_all_iff set_factorSet dest!: verified_ok_valid)

text \<open>One verification never uses a credential in both roles: it is a primary or a second factor.\<close>

lemma verified_one_role:
  "verified_ok v \<Longrightarrow> \<not> (FactorPasskey \<in> set (v_factors v) \<and> FactorPasskeyStepUp \<in> set (v_factors v))"
proof
  assume v: "verified_ok v" and both: "FactorPasskey \<in> set (v_factors v) \<and> FactorPasskeyStepUp \<in> set (v_factors v)"
  then have "hasRole (v_factors v) RolePrimary" "hasRole (v_factors v) RoleSecond"
    using factor_Role_cases(2,6) by (auto simp: hasRole_iff)
  then have "0 < role_count (v_factors v) RolePrimary" "0 < role_count (v_factors v) RoleSecond"
    by (simp_all add: role_count_pos)
  with v show False
    by (auto simp: verified_ok_def checkVerifiedShape_Ok_iff shape_ok_def)
qed

lemma NewPending_inv: "NewPending t remember target tr pol now = Ok p \<Longrightarrow> valid_tenant t \<Longrightarrow> pending_inv p"
  by (auto simp: NewPending_def pending_inv_def pending_Bound_def zero_pending_def zero_subject_def
        subject_IsZero_def credentialUses_def no_clash_def Let_def split: if_splits option.splits)

lemma PendingForReauth_inv: "attrs_ok a \<Longrightarrow> pending_inv (PendingForReauth a now)"
  by (auto simp: PendingForReauth_def pending_inv_def attrs_ok_def pending_Bound_def zero_pending_def
        codecVersion_def credentialUses_def no_clash_def)

lemma Pending_Bind_inv: "pending_inv p \<Longrightarrow> Pending_Bind p s st = Ok p' \<Longrightarrow> pending_inv p'"
  by (auto simp: Pending_Bind_def pending_inv_def pending_Bound_def credentialUses_def no_clash_def
        split: if_splits)

lemma WithBindHash_inv: "pending_inv p \<Longrightarrow> WithBindHash p h = Ok p' \<Longrightarrow> pending_inv p'"
  by (auto simp: WithBindHash_def pending_inv_def pending_Bound_def credentialUses_def split: if_splits)

lemma Pending_Add_Ok:
  assumes "Pending_Add p v st = Ok p'"
  shows "s_tenant (v_subject v) = p_tenant p" and "v_at v < p_expiresAt p"
    and "pending_Bound p \<Longrightarrow> v_subject v = p_subject p \<and> st_epoch st = p_epochAtBind p"
    and "\<not> pending_Bound p \<Longrightarrow> v_identifies v \<and> \<not> hasRole (v_factors v) RoleSecond"
    and "\<And>f. f \<in> set (v_factors v) \<Longrightarrow> \<not> credentialClash (credentialUses p) f (v_credentialID v)"
    and "v_provider v \<noteq> [] \<Longrightarrow> p_provider p = [] \<or> p_provider p = v_provider v"
    and "p' = p\<lparr>p_subject := v_subject v, p_epochAtBind := st_epoch st,
               p_provider := (if v_provider v \<noteq> [] then v_provider v else p_provider p),
               p_verified := p_verified p @ [v]\<rparr>"
  using assms
  by (auto simp: Pending_Add_def Let_def list_ex_iff split: if_splits)

lemma credentialUses_snoc:
  "credentialUses (p\<lparr>p_subject := x, p_epochAtBind := e, p_provider := pr, p_verified := vs @ [v]\<rparr>) =
   credentialUses (p\<lparr>p_verified := vs\<rparr>) @ verified_uses v"
  by (simp add: credentialUses_def)

lemma in_verified_uses:
  "u \<in> set (verified_uses v) \<longleftrightarrow>
     v_credentialID v \<noteq> [] \<and> cu_factor u \<in> set (v_factors v) \<and>
     cu_factor u \<in> {FactorPasskey, FactorPasskeyStepUp} \<and> cu_id u = v_credentialID v"
  by (cases u) (auto simp: verified_uses_def)

lemma no_clash_snoc:
  assumes us: "no_clash us" and v: "verified_ok v"
    and new: "\<And>f. f \<in> set (v_factors v) \<Longrightarrow> \<not> credentialClash us f (v_credentialID v)"
  shows "no_clash (us @ verified_uses v)"
proof -
  have step: False
    if "u \<in> set us" "w \<in> set (verified_uses v)" "cu_id u = cu_id w"
      "{cu_factor u, cu_factor w} = {FactorPasskey, FactorPasskeyStepUp}" for u w
  proof -
    from that(2) have w: "cu_factor w \<in> set (v_factors v)" "cu_id w = v_credentialID v"
      by (simp_all add: in_verified_uses)
    have "FactorPasskey \<noteq> FactorPasskeyStepUp" by (simp add: factor_defs)
    with that w have "credentialClash us (cu_factor w) (v_credentialID v)"
      by (auto simp: credentialClash_def list_ex_iff doubleton_eq_iff)
    with new w(1) show False by blast
  qed
  have own: False
    if "u \<in> set (verified_uses v)" "w \<in> set (verified_uses v)"
      "cu_factor u = FactorPasskey" "cu_factor w = FactorPasskeyStepUp" for u w
    using that verified_one_role [OF v] by (simp add: in_verified_uses)
  show ?thesis
    unfolding no_clash_def
  proof (intro ballI impI notI)
    fix u w
    assume u: "u \<in> set (us @ verified_uses v)" and w: "w \<in> set (us @ verified_uses v)"
      and f: "cu_factor u = FactorPasskey \<and> cu_factor w = FactorPasskeyStepUp" and eq: "cu_id u = cu_id w"
    consider "u \<in> set us" "w \<in> set us" | "u \<in> set us" "w \<in> set (verified_uses v)"
      | "u \<in> set (verified_uses v)" "w \<in> set us" | "u \<in> set (verified_uses v)" "w \<in> set (verified_uses v)"
      using u w by auto
    then show False
    proof cases
      case 1
      with us f eq show ?thesis by (auto simp: no_clash_def)
    next
      case 2
      with f eq step [of u w] show ?thesis by simp
    next
      case 3
      with f eq step [of w u] show ?thesis by (simp add: insert_commute)
    next
      case 4
      with f own show ?thesis by blast
    qed
  qed
qed

lemma Pending_Add_inv:
  assumes p: "pending_inv p" and v: "verified_ok v" and add: "Pending_Add p v st = Ok p'"
  shows "pending_inv p'"
proof -
  note a = Pending_Add_Ok [OF add]
  from v have s: "\<not> subject_IsZero (v_subject v)" by (simp add: verified_ok_def)
  have nc: "no_clash (credentialUses p')"
    using no_clash_snoc [OF _ v a(5)] p unfolding a(7) credentialUses_snoc by (simp add: pending_inv_def)
  have vs: "\<forall>w \<in> set (p_verified p). w \<in> set (p_verified p') \<and> v_subject w = v_subject v"
    using p a(3) by (auto simp: a(7) pending_inv_def split: if_splits)
  show ?thesis
    using p v s nc vs a(1,2,6) unfolding pending_inv_def
    by (auto simp: a(7) pending_Bound_def split: if_splits)
qed

lemma latest_mem: "latest m t vs = t \<or> (\<exists>v \<in> set vs. m v \<and> latest m t vs = v_at v)"
proof (induction m t vs rule: latest.induct)
  case (2 m t v vs)
  then show ?case by (cases "m v \<and> v_at v > t") auto
qed simp

lemma latest_ge: "t \<le> latest m t vs"
proof (induction m t vs rule: latest.induct)
  case (2 m t v vs)
  then show ?case by (cases "m v \<and> v_at v > t") auto
qed simp

lemma latest_upper: "v \<in> set vs \<Longrightarrow> m v \<Longrightarrow> v_at v \<le> latest m t vs"
proof (induction m t vs rule: latest.induct)
  case (2 m t w vs)
  have "v_at w \<le> latest m (if m w \<and> v_at w > t then v_at w else t) vs" if "m w"
    using latest_ge [of "if m w \<and> v_at w > t then v_at w else t" m vs] that
    by (auto split: if_splits)
  with 2 show ?case by auto
qed simp

lemma latest_none: "(\<And>v. v \<in> set vs \<Longrightarrow> \<not> m v) \<Longrightarrow> latest m t vs = t"
  using latest_mem by blast

section \<open>Sessions\<close>

lemma Admit_session:
  assumes "Admit p st mfa now fresh = Ok adm" and "admission_Session adm = (a, True)"
  shows "transport_Valid (p_transport p)" and "mfa_loaded mfa" and "\<not> time_IsZero now"
    and "now < p_expiresAt p" and "pending_Bound p" and "p_reauthOf p = uuid_Nil"
    and "hasRole (factorSet p) RolePrimary" and "account_Usable st" and "st_epoch st = p_epochAtBind p"
    and "mfa_Required mfa \<Longrightarrow> multiFactor (factorSet p)"
    and "a = \<lparr>a_version = codecVersion, a_lineage = fresh, a_subject = p_subject p,
              a_factors = factorSet p, a_credentialIDs = credentialUses p,
              a_primaryAt = pending_primaryAt p, a_secondAt = pending_secondAt p,
              a_epoch = st_epoch st, a_mustChange = st_mustChange st, a_remember = p_remember p,
              a_returnTo = p_returnTo p, a_transport = p_transport p, a_provider = p_provider p,
              a_createdAt = now, a_claimsFetchedAt = now\<rparr>"
  using assms
  by (auto simp: Admit_def admission_Session_def mfa_IsZero_def Let_def split: if_splits)

lemma Admit_attrs_ok:
  assumes p: "pending_inv p" and adm: "Admit p st mfa now fresh = Ok adm"
    and a: "admission_Session adm = (a, True)" and fresh: "fresh \<noteq> uuid_Nil"
  shows "attrs_ok a"
proof -
  note A = Admit_session [OF adm a]
  have "valid_tenant (s_tenant (p_subject p))"
    using p A(5) by (simp add: pending_inv_def)
  moreover have "\<not> subject_IsZero (p_subject p)"
    using A(5) by (simp add: pending_Bound_def)
  ultimately show ?thesis
    using p A(1,3,7) fresh pending_inv_valid [OF p] unfolding A(11) attrs_ok_def
    by (auto simp: in_credentialUses set_factorSet)
qed

lemma Reauthenticate_Ok:
  assumes "Reauthenticate a p st mfa now = Ok b"
  shows "p_reauthOf p = a_lineage a" and "p_subject p = a_subject a" and "now < p_expiresAt p"
    and "hasRole (factorSet p) RolePrimary" and "account_Usable st"
    and "st_epoch st = a_epoch a" and "st_epoch st = p_epochAtBind p" and "mfa_loaded mfa"
    and "mfa_Required mfa \<Longrightarrow> multiFactor (factorSet p)"
    and "b = a\<lparr>a_factors := unionFactors (a_factors a) (factorSet p),
              a_credentialIDs := append_new (a_credentialIDs a) (credentialUses p),
              a_primaryAt := pending_primaryAt p,
              a_secondAt := (if time_IsZero (pending_secondAt p) then a_secondAt a else pending_secondAt p),
              a_mustChange := a_mustChange a \<or> st_mustChange st\<rparr>"
  using assms by (auto simp: Reauthenticate_def mfa_IsZero_def Let_def split: if_splits)

lemma checkBumped_Ok:
  "checkBumped a st = Ok u \<longleftrightarrow> account_Usable st \<and> st_epoch st = a_epoch a + 1"
  by (auto simp: checkBumped_def)

lemma checkBumped_not_Panic [simp]: "checkBumped a st \<noteq> Panic"
  by (simp add: checkBumped_def)

lemma FactorEnrolled_Ok:
  assumes "FactorEnrolled a f st = Ok b"
  shows "factor_Role f = RoleSecond" and "account_Usable st" and "st_epoch st = a_epoch a + 1"
    and "b = a\<lparr>a_factors := unionFactors (a_factors a) [f], a_epoch := st_epoch st,
              a_mustChange := a_mustChange a \<or> st_mustChange st\<rparr>"
  using assms
  by (auto simp: FactorEnrolled_def checkBumped_Ok split: if_splits result.splits)

lemma PasswordChanged_Ok:
  assumes "PasswordChanged a st now = Ok b"
  shows "account_Usable st" and "st_epoch st = a_epoch a + 1"
    and "b = a\<lparr>a_factors := unionFactors (a_factors a) [FactorPassword], a_primaryAt := now,
              a_mustChange := False, a_epoch := st_epoch st\<rparr>"
  using assms
  by (auto simp: PasswordChanged_def checkBumped_Ok split: if_splits result.splits)

lemma Renew_Ok:
  assumes "Renew a st mfa claims now = Ok b"
  shows "account_Usable st" and "st_epoch st = a_epoch a" and "mfa_loaded mfa" and "\<not> time_IsZero now"
    and "mfa_Required mfa \<Longrightarrow> multiFactor (a_factors a)"
    and "claims = ClaimsRefreshed \<or> claims = ClaimsKeptStale"
    and "b = a\<lparr>a_claimsFetchedAt := (if claims = ClaimsRefreshed then now else a_claimsFetchedAt a),
              a_mustChange := a_mustChange a \<or> st_mustChange st\<rparr>"
  using assms by (auto simp: Renew_def mfa_IsZero_def Let_def split: if_splits)

lemma Reauthenticate_attrs_ok:
  "attrs_ok a \<Longrightarrow> pending_inv p \<Longrightarrow> Reauthenticate a p st mfa now = Ok b \<Longrightarrow> attrs_ok b"
  using pending_inv_valid [of p]
  by (auto dest!: Reauthenticate_Ok(10) simp: attrs_ok_def list_all_iff in_credentialUses set_factorSet)

lemma FactorEnrolled_attrs_ok: "attrs_ok a \<Longrightarrow> FactorEnrolled a f st = Ok b \<Longrightarrow> attrs_ok b"
  by (frule FactorEnrolled_Ok(1), drule FactorEnrolled_Ok(4))
    (auto simp: attrs_ok_def list_all_iff factor_Valid_iff)

lemma PasswordChanged_attrs_ok: "attrs_ok a \<Longrightarrow> PasswordChanged a st now = Ok b \<Longrightarrow> attrs_ok b"
  by (drule PasswordChanged_Ok(3))
    (auto simp: attrs_ok_def list_all_iff factor_Valid_iff factor_Role_cases)

lemma Renew_attrs_ok: "attrs_ok a \<Longrightarrow> Renew a st mfa claims now = Ok b \<Longrightarrow> attrs_ok b"
  by (frule Renew_Ok(4), drule Renew_Ok(7)) (auto simp: attrs_ok_def)

lemma reach_inv:
  "(pending_reach p \<longrightarrow> pending_inv p) \<and> (session_reach a \<longrightarrow> attrs_ok a)"
proof (induction rule: pending_reach_session_reach.induct)
qed (auto intro: NewPending_inv PendingForReauth_inv Pending_Bind_inv WithBindHash_inv Pending_Add_inv
       NewVerified_ok Admit_attrs_ok Reauthenticate_attrs_ok FactorEnrolled_attrs_ok
       PasswordChanged_attrs_ok Renew_attrs_ok)

lemmas pending_reach_inv = reach_inv [THEN conjunct1, rule_format]
lemmas session_reach_ok = reach_inv [THEN conjunct2, rule_format]

end
