(* ===== verification/Core_Properties.thy ===== *)
theory Core_Properties
  imports Core_Reach
begin

text \<open>
  What the transitions of \<^verbatim>\<open>internal/core\<close> guarantee: admission is sound and complete, a session
  keeps its identity through every later transition, and freshness always comes from a real
  verification. The concrete journey of one password-and-TOTP user serves the witnesses.
\<close>

section \<open>Runs of session transitions\<close>

text \<open>
  What can happen to an established session, one event per successful transition. A
  reauthentication carries the pending it consumed.
\<close>

datatype session_event =
    EvReauth pending
  | EvEnroll factor
  | EvPassword instant
  | EvRenew

inductive session_run :: "session_attrs \<Rightarrow> session_event list \<Rightarrow> session_attrs \<Rightarrow> bool" where
  run_nil: "session_run a [] a"
| run_reauth:
    "session_run a es b \<Longrightarrow> pending_reach p \<Longrightarrow> Reauthenticate b p st mfa now = Ok c \<Longrightarrow>
     session_run a (es @ [EvReauth p]) c"
| run_enroll:
    "session_run a es b \<Longrightarrow> FactorEnrolled b f st = Ok c \<Longrightarrow> session_run a (es @ [EvEnroll f]) c"
| run_password:
    "session_run a es b \<Longrightarrow> PasswordChanged b st now = Ok c \<Longrightarrow> session_run a (es @ [EvPassword now]) c"
| run_renew:
    "session_run a es b \<Longrightarrow> Renew b st mfa claims now = Ok c \<Longrightarrow> session_run a (es @ [EvRenew]) c"

text \<open>The events that bump the subject's security epoch.\<close>

fun bumps :: "session_event \<Rightarrow> bool" where
  "bumps (EvEnroll f) = True"
| "bumps (EvPassword t) = True"
| "bumps _ = False"

definition same_session :: "session_attrs \<Rightarrow> session_attrs \<Rightarrow> bool" where
  "same_session a b \<longleftrightarrow>
     a_version b = a_version a \<and> a_lineage b = a_lineage a \<and> a_subject b = a_subject a \<and>
     a_transport b = a_transport a \<and> a_remember b = a_remember a \<and> a_returnTo b = a_returnTo a \<and>
     a_provider b = a_provider a \<and> a_createdAt b = a_createdAt a"

lemma same_session_refl [simp]: "same_session a a"
  by (simp add: same_session_def)

lemma same_session_trans: "same_session a b \<Longrightarrow> same_session b c \<Longrightarrow> same_session a c"
  by (simp add: same_session_def)

lemma steps_same_session:
  "Reauthenticate b p st mfa now = Ok c \<Longrightarrow> same_session b c"
  "FactorEnrolled b f st = Ok c \<Longrightarrow> same_session b c"
  "PasswordChanged b st now = Ok c \<Longrightarrow> same_session b c"
  "Renew b st mfa claims now = Ok c \<Longrightarrow> same_session b c"
  by (auto dest!: Reauthenticate_Ok(10) FactorEnrolled_Ok(4) PasswordChanged_Ok(3) Renew_Ok(7)
        simp: same_session_def)

lemma steps_factors:
  "Reauthenticate b p st mfa now = Ok c \<Longrightarrow> set (a_factors b) \<subseteq> set (a_factors c)"
  "FactorEnrolled b f st = Ok c \<Longrightarrow> set (a_factors b) \<subseteq> set (a_factors c)"
  "PasswordChanged b st now = Ok c \<Longrightarrow> set (a_factors b) \<subseteq> set (a_factors c)"
  "Renew b st mfa claims now = Ok c \<Longrightarrow> a_factors c = a_factors b"
  by (auto dest!: Reauthenticate_Ok(10) FactorEnrolled_Ok(4) PasswordChanged_Ok(3) Renew_Ok(7))

lemma steps_epoch:
  "Reauthenticate b p st mfa now = Ok c \<Longrightarrow> a_epoch c = a_epoch b"
  "FactorEnrolled b f st = Ok c \<Longrightarrow> a_epoch c = a_epoch b + 1"
  "PasswordChanged b st now = Ok c \<Longrightarrow> a_epoch c = a_epoch b + 1"
  "Renew b st mfa claims now = Ok c \<Longrightarrow> a_epoch c = a_epoch b"
  subgoal by (drule Reauthenticate_Ok(10)) simp
  subgoal by (frule FactorEnrolled_Ok(3), drule FactorEnrolled_Ok(4)) simp
  subgoal by (frule PasswordChanged_Ok(2), drule PasswordChanged_Ok(3)) simp
  subgoal by (drule Renew_Ok(7)) simp
  done

lemma steps_must_change:
  "Reauthenticate b p st mfa now = Ok c \<Longrightarrow> a_mustChange b \<Longrightarrow> a_mustChange c"
  "FactorEnrolled b f st = Ok c \<Longrightarrow> a_mustChange b \<Longrightarrow> a_mustChange c"
  "Renew b st mfa claims now = Ok c \<Longrightarrow> a_mustChange b \<Longrightarrow> a_mustChange c"
  by (auto dest!: Reauthenticate_Ok(10) FactorEnrolled_Ok(4) Renew_Ok(7))

lemma session_run_same: "session_run a es b \<Longrightarrow> same_session a b"
  by (induction rule: session_run.induct) (auto intro: same_session_trans steps_same_session)

lemma session_run_factors: "session_run a es b \<Longrightarrow> set (a_factors a) \<subseteq> set (a_factors b)"
  by (induction rule: session_run.induct) (auto dest: steps_factors(1-3) simp: steps_factors(4))

lemma session_run_epoch:
  "session_run a es b \<Longrightarrow> a_epoch b = a_epoch a + of_nat (length (filter bumps es))"
  by (induction rule: session_run.induct) (simp_all add: steps_epoch)

lemma session_run_must_change:
  "session_run a es b \<Longrightarrow> a_mustChange a \<Longrightarrow> a_mustChange b \<or> (\<exists>t. EvPassword t \<in> set es)"
  by (induction rule: session_run.induct) (auto dest: steps_must_change)

section \<open>Freshness provenance\<close>









section \<open>A concrete journey\<close>

text \<open>A user of the tenant \<open>acme\<close> who logs in with a password, then a TOTP code.\<close>

definition demo_subject :: subject where
  "demo_subject = \<lparr>s_tenant = TenantID ''acme'', s_user = 7\<rparr>"

definition demo_account :: account_state where
  "demo_account = NewAccountState True False False False True 3"

definition demo_verified :: "factor \<Rightarrow> bool \<Rightarrow> instant \<Rightarrow> verified" where
  "demo_verified f ident t =
     \<lparr>v_subject = demo_subject, v_factors = [f], v_credentialID = [], v_identifies = ident,
      v_provider = [], v_at = t\<rparr>"

definition demo_pending :: "verified list \<Rightarrow> pending" where
  "demo_pending vs =
     \<lparr>p_version = 1, p_tenant = TenantID ''acme'',
      p_subject = (if vs = [] then zero_subject else demo_subject),
      p_epochAtBind = (if vs = [] then 0 else 3), p_verified = vs, p_remember = True,
      p_returnTo = ''/home'', p_transport = TransportCookies, p_provider = [], p_reauthOf = uuid_Nil,
      p_bindHash = [], p_expiresAt = 1000 + PendingTTL\<rparr>"

abbreviation demo_pwd :: verified where
  "demo_pwd \<equiv> demo_verified FactorPassword True 2000"

abbreviation demo_totp :: verified where
  "demo_totp \<equiv> demo_verified FactorTOTP False 3000"

definition demo_spec :: "factor \<Rightarrow> bool \<Rightarrow> instant \<Rightarrow> verified_spec" where
  "demo_spec f ident t =
     \<lparr>vs_Subject = demo_subject, vs_Factors = [f], vs_CredentialID = [], vs_Identifies = ident,
      vs_Provider = [], vs_At = t\<rparr>"

abbreviation demo_mfa :: mfa_decision where
  "demo_mfa \<equiv> NewMFADecision [FactorTOTP]"

definition demo_attrs :: "factor list \<Rightarrow> instant \<Rightarrow> session_attrs" where
  "demo_attrs fs second =
     \<lparr>a_version = 1, a_lineage = 99, a_subject = demo_subject, a_factors = fs, a_credentialIDs = [],
      a_primaryAt = 2000, a_secondAt = second, a_epoch = 3, a_mustChange = False, a_remember = True,
      a_returnTo = ''/home'', a_transport = TransportCookies, a_provider = [], a_createdAt = 4000,
      a_claimsFetchedAt = 4000\<rparr>"

lemma demo_verified_new:
  "NewVerified (demo_spec FactorPassword True 2000) = Ok demo_pwd"
  "NewVerified (demo_spec FactorTOTP False 3000) = Ok demo_totp"
  by code_simp+

lemma demo_new:
  "NewPending (TenantID ''acme'') RememberRequested (Target ''/home'') TransportCookies
     RememberUserChoice 1000 = Ok (demo_pending [])"
  by code_simp

lemma demo_tenant: "valid_tenant (TenantID ''acme'')"
  by code_simp

lemma demo_adds:
  "Pending_Add (demo_pending []) demo_pwd demo_account = Ok (demo_pending [demo_pwd])"
  "Pending_Add (demo_pending [demo_pwd]) demo_totp demo_account = Ok (demo_pending [demo_pwd, demo_totp])"
  by code_simp+

lemma demo_reach:
  "pending_reach (demo_pending [demo_pwd])"
  "pending_reach (demo_pending [demo_pwd, demo_totp])"
proof -
  have 0: "pending_reach (demo_pending [])"
    by (rule new_pending [OF demo_new demo_tenant])
  show 1: "pending_reach (demo_pending [demo_pwd])"
    by (rule add [OF 0 demo_verified_new(1) demo_adds(1)])
  show "pending_reach (demo_pending [demo_pwd, demo_totp])"
    by (rule add [OF 1 demo_verified_new(2) demo_adds(2)])
qed

definition demo_admission :: "session_attrs \<Rightarrow> admission" where
  "demo_admission a = \<lparr>adm_attrs = a, adm_pending = zero_pending, adm_needs = [], adm_session = True\<rparr>"

lemma demo_admission_Session [simp]: "admission_Session (demo_admission a) = (a, True)"
  by (simp add: demo_admission_def admission_Session_def)

lemma demo_admit:
  "Admit (demo_pending [demo_pwd, demo_totp]) demo_account demo_mfa 4000 99 =
     Ok (demo_admission (demo_attrs [FactorPassword, FactorTOTP] 3000))"
  by code_simp

lemma demo_session: "session_reach (demo_attrs [FactorPassword, FactorTOTP] 3000)"
  by (rule admit [OF demo_reach(2) demo_admit]) (simp_all add: uuid_Nil_def)

section \<open>Properties\<close>

text \<open>
  C1. Admission is sound. Whenever \<^const>\<open>Admit\<close> turns a pending into a session, the account is usable and
  its epoch is the epoch at bind, the pending has not expired, every collected verification is of
  the session's subject, in the pending's tenant, and made before the expiry; the session's factors
  are exactly the verified ones and hold a primary one, its primary time is the instant of a primary
  verification (or the zero time, for a verification dated before year 1), its must-change flag is
  the account's, and when the subject has enrolled a second factor the session is multi-factor.
\<close>

theorem admit_sound:
  assumes p: "pending_reach p" and adm: "Admit p st mfa now fresh = Ok adm"
    and a: "admission_Session adm = (a, True)"
  shows "account_Usable st \<and> st_epoch st = p_epochAtBind p \<and> now < p_expiresAt p \<and>
    a_subject a = p_subject p \<and> s_tenant (a_subject a) = p_tenant p \<and> a_epoch a = st_epoch st \<and>
    a_mustChange a = st_mustChange st \<and>
    set (a_factors a) = (\<Union>v \<in> set (p_verified p). set (v_factors v)) \<and>
    hasRole (a_factors a) RolePrimary \<and>
    (\<forall>v \<in> set (p_verified p). v_subject v = a_subject a \<and> v_at v < p_expiresAt p) \<and>
    (a_primaryAt a = zero_time \<or>
       (\<exists>v \<in> set (p_verified p). hasRole (v_factors v) RolePrimary \<and> a_primaryAt a = v_at v)) \<and>
    (mfa_enrolled mfa \<noteq> [] \<longrightarrow> attrs_MultiFactor a)"
proof -
  note A = Admit_session [OF adm a]
  note I = pending_reach_inv [OF p]
  have "a_primaryAt a = zero_time \<or>
      (\<exists>v \<in> set (p_verified p). hasRole (v_factors v) RolePrimary \<and> a_primaryAt a = v_at v)"
    using latest_mem [of "\<lambda>v. hasRole (v_factors v) RolePrimary" zero_time "p_verified p"]
    by (simp add: A(11) pending_primaryAt_def)
  moreover have "s_tenant (p_subject p) = p_tenant p"
    using I A(5) by (simp add: pending_inv_def)
  moreover have "mfa_enrolled mfa \<noteq> [] \<longrightarrow> attrs_MultiFactor a"
    using A(10) by (simp add: A(11) attrs_MultiFactor_def mfa_Required_def)
  ultimately show ?thesis
    using A(4,7,8,9) I by (simp add: A(11) set_factorSet pending_inv_def)
qed

theorem admit_sound_witness:
  "account_Usable demo_account \<and>
   attrs_MultiFactor (demo_attrs [FactorPassword, FactorTOTP] 3000) \<and>
   v_subject demo_totp = a_subject (demo_attrs [FactorPassword, FactorTOTP] 3000)"
  using admit_sound [OF demo_reach(2) demo_admit demo_admission_Session]
  by (simp add: NewMFADecision_def demo_pending_def)

text \<open>
  C2. Every session the transitions can produce is well formed: version 1, a lineage, a subject with a
  user in a valid tenant, a valid transport, a sorted duplicate-free set of declared factors with a
  primary one, credential uses only for passkey factors the session holds, and set times. These are
  the conditions the codec checks, so no reachable session is refused by \<^verbatim>\<open>core.Seal\<close>'s field checks.
\<close>

theorem session_reach_wellformed:
  assumes "session_reach a"
  shows "a_version a = codecVersion \<and> a_lineage a \<noteq> uuid_Nil \<and> \<not> subject_IsZero (a_subject a) \<and>
    valid_tenant (s_tenant (a_subject a)) \<and> transport_Valid (a_transport a) \<and>
    sorted (map fcode (a_factors a)) \<and> distinct (a_factors a) \<and>
    list_all factor_Valid (a_factors a) \<and> hasRole (a_factors a) RolePrimary \<and>
    (\<forall>u \<in> set (a_credentialIDs a).
       (cu_factor u = FactorPasskey \<or> cu_factor u = FactorPasskeyStepUp) \<and> cu_id u \<noteq> [] \<and>
       cu_factor u \<in> set (a_factors a)) \<and>
    \<not> time_IsZero (a_createdAt a) \<and> \<not> time_IsZero (a_claimsFetchedAt a)"
  using session_reach_ok [OF assms] by (auto simp: attrs_ok_def factor_set_def)

theorem session_reach_wellformed_witness:
  "session_reach (demo_attrs [FactorPassword, FactorTOTP] 3000) \<and>
   hasRole (a_factors (demo_attrs [FactorPassword, FactorTOTP] 3000)) RolePrimary"
  using session_reach_wellformed [OF demo_session] demo_session by blast

text \<open>
  C3. In no reachable pending does one passkey credential serve both as the primary passkey and as the
  step-up (C-28 of the design): two verifications in those roles carry different credential ids.
\<close>

theorem passkey_roles_disjoint:
  assumes p: "pending_reach p" and v: "v \<in> set (p_verified p)" and w: "w \<in> set (p_verified p)"
    and pk: "FactorPasskey \<in> set (v_factors v)" and su: "FactorPasskeyStepUp \<in> set (v_factors w)"
  shows "v_credentialID v \<noteq> v_credentialID w"
proof
  assume eq: "v_credentialID v = v_credentialID w"
  note I = pending_reach_inv [OF p]
  from I v have "verified_ok v" by (simp add: pending_inv_def)
  with pk have "v_credentialID v \<noteq> []"
    by (auto simp: verified_ok_def checkVerifiedShape_Ok_iff shape_ok_def)
  then have
    "\<lparr>cu_factor = FactorPasskey, cu_id = v_credentialID v\<rparr> \<in> set (credentialUses p)"
    "\<lparr>cu_factor = FactorPasskeyStepUp, cu_id = v_credentialID v\<rparr> \<in> set (credentialUses p)"
    using v w pk su eq by (auto simp: in_credentialUses intro: bexI [of _ v] bexI [of _ w])
  moreover from I have "no_clash (credentialUses p)" by (simp add: pending_inv_def)
  ultimately show False by (fastforce simp: no_clash_def)
qed

definition demo_passkey :: "factor list \<Rightarrow> byte \<Rightarrow> bool \<Rightarrow> verified" where
  "demo_passkey fs i ident =
     \<lparr>v_subject = demo_subject, v_factors = fs, v_credentialID = [i], v_identifies = ident,
      v_provider = [], v_at = 2000\<rparr>"

definition demo_passkey_spec :: "factor list \<Rightarrow> byte \<Rightarrow> bool \<Rightarrow> verified_spec" where
  "demo_passkey_spec fs i ident =
     \<lparr>vs_Subject = demo_subject, vs_Factors = fs, vs_CredentialID = [i], vs_Identifies = ident,
      vs_Provider = [], vs_At = 2000\<rparr>"

abbreviation demo_pk :: verified where
  "demo_pk \<equiv> demo_passkey [FactorPasskey, FactorUserVerification] 1 True"

abbreviation demo_stepup :: verified where
  "demo_stepup \<equiv> demo_passkey [FactorPasskeyStepUp] 2 False"

lemma demo_passkey_reach: "pending_reach (demo_pending [demo_pk, demo_stepup])"
proof -
  have 0: "pending_reach (demo_pending [])"
    by (rule new_pending [OF demo_new demo_tenant])
  have 1: "pending_reach (demo_pending [demo_pk])"
  proof (rule add [OF 0])
    show "NewVerified (demo_passkey_spec [FactorPasskey, FactorUserVerification] 1 True) = Ok demo_pk"
      by code_simp
    show "Pending_Add (demo_pending []) demo_pk demo_account = Ok (demo_pending [demo_pk])"
      by code_simp
  qed
  show ?thesis
  proof (rule add [OF 1])
    show "NewVerified (demo_passkey_spec [FactorPasskeyStepUp] 2 False) = Ok demo_stepup"
      by code_simp
    show "Pending_Add (demo_pending [demo_pk]) demo_stepup demo_account = Ok (demo_pending [demo_pk, demo_stepup])"
      by code_simp
  qed
qed

theorem passkey_roles_disjoint_witness:
  "v_credentialID demo_pk \<noteq> v_credentialID demo_stepup \<and>
   demo_pk \<in> set (p_verified (demo_pending [demo_pk, demo_stepup]))"
proof -
  have mem: "demo_pk \<in> set (p_verified (demo_pending [demo_pk, demo_stepup]))"
    "demo_stepup \<in> set (p_verified (demo_pending [demo_pk, demo_stepup]))"
    by (simp_all add: demo_pending_def)
  have "FactorPasskey \<in> set (v_factors demo_pk)" "FactorPasskeyStepUp \<in> set (v_factors demo_stepup)"
    by (simp_all add: demo_passkey_def)
  from passkey_roles_disjoint [OF demo_passkey_reach mem this] mem show ?thesis by blast
qed

text \<open>
  C4. A session keeps its identity. Through any sequence of reauthentications, factor enrolments,
  password changes and renewals its version, lineage, subject, transport, remember-me decision,
  return target, provider and creation time never change; factors are only added, so a multi-factor
  session stays multi-factor; its epoch advances by exactly one (modulo two to the 64) per enrolment
  and password change; and a must-change flag is cleared by a password change only.
\<close>

theorem session_identity:
  assumes "session_run a es b"
  shows "same_session a b \<and> set (a_factors a) \<subseteq> set (a_factors b) \<and>
    (attrs_MultiFactor a \<longrightarrow> attrs_MultiFactor b) \<and>
    a_epoch b = a_epoch a + of_nat (length (filter bumps es)) \<and>
    (a_mustChange a \<and> \<not> a_mustChange b \<longrightarrow> (\<exists>t. EvPassword t \<in> set es))"
  using session_run_same [OF assms] session_run_factors [OF assms] session_run_epoch [OF assms]
    session_run_must_change [OF assms] multiFactor_mono
  by (auto simp: attrs_MultiFactor_def)

definition demo_bumped :: account_state where
  "demo_bumped = NewAccountState True False False False True 4"

lemma demo_run:
  "session_run (demo_attrs [FactorPassword] zero_time) [EvEnroll FactorTOTP]
     ((demo_attrs [FactorPassword, FactorTOTP] zero_time)\<lparr>a_epoch := 4\<rparr>)"
proof -
  have "FactorEnrolled (demo_attrs [FactorPassword] zero_time) FactorTOTP demo_bumped =
      Ok ((demo_attrs [FactorPassword, FactorTOTP] zero_time)\<lparr>a_epoch := 4\<rparr>)"
    by code_simp
  from run_enroll [OF run_nil this] show ?thesis by simp
qed

theorem session_identity_witness:
  "same_session (demo_attrs [FactorPassword] zero_time)
     ((demo_attrs [FactorPassword, FactorTOTP] zero_time)\<lparr>a_epoch := 4\<rparr>) \<and>
   a_epoch ((demo_attrs [FactorPassword, FactorTOTP] zero_time)\<lparr>a_epoch := 4\<rparr>) =
     a_epoch (demo_attrs [FactorPassword] zero_time) + 1"
  using session_identity [OF demo_run] by simp



section \<open>Completing a login with a second factor\<close>

lemma qualifier_is_uv: "factor_Role f = RoleQualifier \<longleftrightarrow> f = FactorUserVerification"
  by (cases f) (auto simp: factor_Role_def factorTable_def FactorUserVerification_def split: if_splits)

lemma verified_pk_multi: "verified_ok v \<Longrightarrow> FactorPasskey \<in> set (v_factors v) \<Longrightarrow> multiFactor (v_factors v)"
proof -
  assume v: "verified_ok v" "FactorPasskey \<in> set (v_factors v)"
  then have "0 < role_count (v_factors v) RolePrimary"
    using factor_Role_cases(2) by (auto simp: role_count_pos hasRole_iff)
  with v have "role_count (v_factors v) RoleQualifier = 1"
    by (auto simp: verified_ok_def checkVerifiedShape_Ok_iff shape_ok_def)
  then have "hasRole (v_factors v) RoleQualifier"
    by (simp add: role_count_pos [symmetric])
  with v(2) show "multiFactor (v_factors v)"
    by (auto simp: hasRole_iff qualifier_is_uv multiFactor_iff)
qed

lemma verified_second_shape:
  assumes v: "verified_ok v" and s: "hasRole (v_factors v) RoleSecond"
  shows "\<not> hasRole (v_factors v) RolePrimary" and "v_provider v = []"
proof -
  from s have "0 < role_count (v_factors v) RoleSecond" by (simp add: role_count_pos)
  with v have "role_count (v_factors v) RolePrimary = 0"
    and pr: "FactorFederated \<in> set (v_factors v) \<or> FactorExternal \<in> set (v_factors v) \<longleftrightarrow> v_provider v \<noteq> []"
    by (auto simp: verified_ok_def checkVerifiedShape_Ok_iff shape_ok_def)
  then show "\<not> hasRole (v_factors v) RolePrimary" by (simp flip: role_count_pos)
  with pr show "v_provider v = []" using factor_Role_cases(7,8) by (auto simp: hasRole_iff)
qed

lemma Admit_needs:
  assumes "Admit p st mfa now fresh = Ok adm" and "admission_NeedsFactor adm = (q, fs, True)"
  shows "q = p" and "fs = mfa_enrolled mfa" and "p_version p \<noteq> 0" and "transport_Valid (p_transport p)"
    and "mfa_loaded mfa" and "pending_Bound p" and "p_reauthOf p = uuid_Nil"
    and "hasRole (factorSet p) RolePrimary" and "account_Usable st"
    and "st_epoch st = p_epochAtBind p" and "mfa_Required mfa" and "\<not> multiFactor (factorSet p)"
  using assms
  by (auto simp: Admit_def admission_NeedsFactor_def mfa_IsZero_def Let_def split: if_splits)

lemma Pending_Add_second:
  assumes I: "pending_inv p" and nm: "\<not> multiFactor (factorSet p)" and b: "pending_Bound p"
    and v: "verified_ok v" "hasRole (v_factors v) RoleSecond" "v_subject v = p_subject p"
      "v_at v < p_expiresAt p" and ep: "st_epoch st = p_epochAtBind p"
  shows "Pending_Add p v st = Ok (p\<lparr>p_verified := p_verified p @ [v]\<rparr>)"
proof -
  have nopk: "FactorPasskey \<notin> set (v_factors w)" if "w \<in> set (p_verified p)" for w
  proof
    assume "FactorPasskey \<in> set (v_factors w)"
    with I that verified_pk_multi have "multiFactor (v_factors w)" by (simp add: pending_inv_def)
    with that nm show False
      using multiFactor_mono [of "v_factors w" "factorSet p"] by (auto simp: set_factorSet)
  qed
  have "FactorPasskey \<notin> set (v_factors v)"
    using verified_second_shape(1) [OF v(1,2)] factor_Role_cases(2) by (auto simp: hasRole_iff)
  with nopk have "\<not> credentialClash (credentialUses p) f (v_credentialID v)" if "f \<in> set (v_factors v)" for f
    using that by (auto simp: credentialClash_def list_ex_iff in_credentialUses split: if_splits)
  moreover have "p_version p \<noteq> 0" "s_tenant (p_subject p) = p_tenant p"
    using I b by (simp_all add: pending_inv_def codecVersion_def)
  moreover have "v_factors v \<noteq> []" using v(2) by auto
  ultimately show ?thesis
    using v(3,4) ep b verified_second_shape(2) [OF v(1,2)]
    by (auto simp: Pending_Add_def Let_def list_ex_iff)
qed

text \<open>
  C6. A login that needs a second factor can complete. When \<^const>\<open>Admit\<close> answers that a factor is needed,
  any second factor of the same subject verified before the pending expires is accepted by
  \<^const>\<open>Pending_Add\<close> while the account is unchanged, and \<^const>\<open>Admit\<close> then admits a multi-factor session with
  the same subject at any later instant before the expiry.
\<close>

theorem mfa_login_completes:
  assumes p: "pending_reach p" and needs: "Admit p st mfa now fresh = Ok adm"
      "admission_NeedsFactor adm = (q, fs, True)"
    and v: "NewVerified spec = Ok v" "hasRole (v_factors v) RoleSecond" "v_subject v = p_subject p"
      "v_at v < p_expiresAt p"
    and later: "now' < p_expiresAt p" "\<not> time_IsZero now'"
  shows "\<exists>r adm' a. Pending_Add q v st = Ok r \<and> Admit r st mfa now' lin = Ok adm' \<and>
    admission_Session adm' = (a, True) \<and> attrs_MultiFactor a \<and> a_subject a = p_subject p \<and> a_lineage a = lin"
proof -
  note N = Admit_needs [OF needs]
  let ?r = "p\<lparr>p_verified := p_verified p @ [v]\<rparr>"
  have add: "Pending_Add q v st = Ok ?r"
    unfolding N(1) by (rule Pending_Add_second [OF pending_reach_inv [OF p] N(12,6)
        NewVerified_ok [OF v(1)] v(2-4) N(10)])
  have sub: "set (factorSet p) \<subseteq> set (factorSet ?r)" "set (v_factors v) \<subseteq> set (factorSet ?r)"
    by (auto simp: set_factorSet)
  with N(8) v(2) have m: "multiFactor (factorSet ?r)" "hasRole (factorSet ?r) RolePrimary"
    by (auto simp: multiFactor_iff dest: hasRole_mono)
  have "\<exists>adm' a. Admit ?r st mfa now' lin = Ok adm' \<and> admission_Session adm' = (a, True) \<and>
      attrs_MultiFactor a \<and> a_subject a = p_subject p \<and> a_lineage a = lin"
    using N m later
    by (simp add: Admit_def admission_Session_def attrs_MultiFactor_def mfa_IsZero_def pending_Bound_def)
  with add show ?thesis by blast
qed

theorem mfa_login_completes_witness:
  "\<exists>r adm' a. Pending_Add (demo_pending [demo_pwd]) demo_totp demo_account = Ok r \<and>
    Admit r demo_account demo_mfa 4000 99 = Ok adm' \<and> admission_Session adm' = (a, True) \<and>
    attrs_MultiFactor a \<and> a_subject a = demo_subject \<and> a_lineage a = 99"
proof -
  have "Admit (demo_pending [demo_pwd]) demo_account demo_mfa 2500 1 =
      Ok \<lparr>adm_attrs = zero_attrs, adm_pending = demo_pending [demo_pwd], adm_needs = [FactorTOTP],
          adm_session = False\<rparr>"
    by code_simp
  moreover have "admission_NeedsFactor
      \<lparr>adm_attrs = zero_attrs, adm_pending = demo_pending [demo_pwd], adm_needs = [FactorTOTP],
       adm_session = False\<rparr> = (demo_pending [demo_pwd], [FactorTOTP], True)"
    by (simp add: admission_NeedsFactor_def demo_pending_def)
  moreover have "hasRole (v_factors demo_totp) RoleSecond" by code_simp
  moreover have "p_subject (demo_pending [demo_pwd]) = demo_subject"
    "v_subject demo_totp = demo_subject" "v_at demo_totp < p_expiresAt (demo_pending [demo_pwd])"
    "(4000 :: int) < p_expiresAt (demo_pending [demo_pwd])" "\<not> time_IsZero 4000"
    by (simp_all add: demo_pending_def demo_verified_def PendingTTL_def duration_defs time_IsZero_def zero_time_def)
  ultimately show ?thesis
    using mfa_login_completes [OF demo_reach(1) _ _ demo_verified_new(2)] by metis
qed

end
