(* ===== verification/Binary.thy ===== *)
theory Binary
  imports Prelude
begin

text \<open>
  The parts of Go's \<^verbatim>\<open>encoding/binary\<close> the codec uses: \<^verbatim>\<open>AppendUvarint\<close> and \<^verbatim>\<open>Uvarint\<close>, the big-endian
  fixed-width integers, and the bytes of a UUID. The lemmas are the round trips of each.
\<close>

section \<open>Variable-length integers\<close>

fun append_uvarint :: "nat \<Rightarrow> bytes" where
  "append_uvarint x =
     (if x < 128 then [word_of_nat x]
      else word_of_nat (x mod 128 + 128) # append_uvarint (x div 128))"

declare append_uvarint.simps [simp del]

text \<open>
  The loop of \<^verbatim>\<open>Uvarint\<close> at index \<open>i\<close> with the value \<open>x\<close> read so far: the value and the number of bytes
  read, which is 0 for a truncated and negative for an overflowing input. The bits added at \<open>i\<close> are
  above those of \<open>x\<close>, so the source's \<^verbatim>\<open>|\<close> is an addition.
\<close>

definition MaxVarintLen64 :: nat where
  "MaxVarintLen64 = 10"

fun uvarint_loop :: "nat \<Rightarrow> nat \<Rightarrow> bytes \<Rightarrow> nat \<times> int" where
  "uvarint_loop i x [] = (0, 0)"
| "uvarint_loop i x (b # bs) =
     (if i = MaxVarintLen64 then (0, - (int i + 1))
      else if unat b < 128 then
        (if i = MaxVarintLen64 - 1 \<and> unat b > 1 then (0, - (int i + 1))
         else (x + unat b * 2 ^ (7 * i), int i + 1))
      else uvarint_loop (i + 1) (x + (unat b mod 128) * 2 ^ (7 * i)) bs)"

definition Uvarint :: "bytes \<Rightarrow> nat \<times> int" where
  "Uvarint b = uvarint_loop 0 0 b"

lemma length_append_uvarint_pos [simp]: "append_uvarint n \<noteq> []"
  by (subst append_uvarint.simps) simp

lemma uvarint_loop_append:
  "n < 2 ^ (7 * Suc k) \<Longrightarrow> i + k < 9 \<Longrightarrow>
   uvarint_loop i x (append_uvarint n @ r) = (x + n * 2 ^ (7 * i), int (i + length (append_uvarint n)))"
proof (induction k arbitrary: n i x)
  case 0
  then show ?case
    by (subst (1 2) append_uvarint.simps) (simp add: unat_of_nat MaxVarintLen64_def)
next
  case (Suc k)
  show ?case
  proof (cases "n < 128")
    case True
    with Suc.prems show ?thesis
      by (subst (1 2) append_uvarint.simps) (simp add: unat_of_nat MaxVarintLen64_def)
  next
    case False
    have "n mod 128 + 128 < 256" using mod_less_divisor [of 128 n] by linarith
    then have u: "unat (word_of_nat (n mod 128 + 128) :: byte) = n mod 128 + 128"
      unfolding unat_of_nat by (simp del: of_nat_add)
    have "n < 2 ^ (7 * Suc k) * 128" using Suc.prems(1) by (simp add: power_add)
    then have d: "n div 128 < 2 ^ (7 * Suc k)"
      by (simp add: less_mult_imp_div_less)
    have s: "(n mod 128) * 2 ^ (7 * i) + n div 128 * 2 ^ (7 * (i + 1)) = n * 2 ^ (7 * i)"
    proof -
      have "(n mod 128) * 2 ^ (7 * i) + n div 128 * 2 ^ (7 * (i + 1)) =
          (n mod 128 + n div 128 * 128) * 2 ^ (7 * i)"
        by (simp only: power_add distrib_left distrib_right mult_ac) (simp add: mult_ac)
      also have "n mod 128 + n div 128 * 128 = n" by (rule mod_div_mult_eq)
      finally show ?thesis .
    qed
    have au: "append_uvarint n = word_of_nat (n mod 128 + 128) # append_uvarint (n div 128)"
      using False by (subst append_uvarint.simps) simp
    have "uvarint_loop i x (append_uvarint n @ r) =
        uvarint_loop (i + 1) (x + (n mod 128) * 2 ^ (7 * i)) (append_uvarint (n div 128) @ r)"
      unfolding au append_Cons uvarint_loop.simps u using Suc.prems(2) by (simp add: MaxVarintLen64_def)
    also have "\<dots> = (x + (n mod 128) * 2 ^ (7 * i) + n div 128 * 2 ^ (7 * (i + 1)),
        int (i + 1 + length (append_uvarint (n div 128))))"
      using Suc.prems(2) by (intro Suc.IH [OF d]) simp
    also have "\<dots> = (x + n * 2 ^ (7 * i), int (i + length (append_uvarint n)))"
      unfolding au using s by simp
    finally show ?thesis .
  qed
qed

lemma Uvarint_append:
  "n < 2 ^ 63 \<Longrightarrow> Uvarint (append_uvarint n @ r) = (n, int (length (append_uvarint n)))"
  using uvarint_loop_append [of n 8 0 0 r] by (simp add: Uvarint_def)

section \<open>Big-endian integers\<close>

fun be_bytes :: "nat \<Rightarrow> nat \<Rightarrow> bytes" where
  "be_bytes 0 v = []"
| "be_bytes (Suc n) v = be_bytes n (v div 256) @ [word_of_nat v]"

definition be_val :: "bytes \<Rightarrow> nat" where
  "be_val b = foldl (\<lambda>v x. v * 256 + unat x) 0 b"

lemma length_be_bytes [simp]: "length (be_bytes n v) = n"
  by (induction n v rule: be_bytes.induct) simp_all

lemma be_val_snoc: "be_val (b @ [x]) = be_val b * 256 + unat x"
  by (simp add: be_val_def)

lemma be_val_be_bytes: "be_val (be_bytes n v) = v mod 256 ^ n"
proof (induction n v rule: be_bytes.induct)
  case (1 v)
  show ?case by (simp add: be_val_def)
next
  case (2 n v)
  then show ?case
    by (simp add: be_val_snoc unat_of_nat mod_mult2_eq mult.commute)
qed

definition u64_bytes :: "u64 \<Rightarrow> bytes" where
  "u64_bytes v = be_bytes 8 (unat v)"

definition bytes_u64 :: "bytes \<Rightarrow> u64" where
  "bytes_u64 b = word_of_nat (be_val b)"

definition uuid_bytes :: "uuid \<Rightarrow> bytes" where
  "uuid_bytes u = be_bytes 16 (unat u)"

definition bytes_uuid :: "bytes \<Rightarrow> uuid" where
  "bytes_uuid b = word_of_nat (be_val b)"

lemma length_u64_bytes [simp]: "length (u64_bytes v) = 8"
  by (simp add: u64_bytes_def)

lemma length_uuid_bytes [simp]: "length (uuid_bytes u) = 16"
  by (simp add: uuid_bytes_def)

lemma u64_bytes_not_Nil [simp]: "u64_bytes v \<noteq> []"
  by (metis length_u64_bytes list.size(3) zero_neq_numeral)

lemma uuid_bytes_not_Nil [simp]: "uuid_bytes u \<noteq> []"
  by (metis length_uuid_bytes list.size(3) zero_neq_numeral)

lemma bytes_u64_bytes [simp]: "bytes_u64 (u64_bytes v) = v"
proof -
  have "unat v < 256 ^ 8" using unsigned_less [of v, where ?'a = nat] by simp
  then show ?thesis by (simp add: bytes_u64_def u64_bytes_def be_val_be_bytes del: power_numeral)
qed

lemma bytes_uuid_bytes [simp]: "bytes_uuid (uuid_bytes u) = u"
proof -
  have "unat u < 256 ^ 16" using unsigned_less [of u, where ?'a = nat] by simp
  then show ?thesis by (simp add: bytes_uuid_def uuid_bytes_def be_val_be_bytes del: power_numeral)
qed

text \<open>\<^verbatim>\<open>uint64(n)\<close> of a signed 64-bit number and \<^verbatim>\<open>int64(v)\<close> back.\<close>

lemma sint_word_of_int_id: "- (2 ^ 63) \<le> t \<Longrightarrow> t < 2 ^ 63 \<Longrightarrow> sint (word_of_int t :: u64) = t"
  by (simp add: signed_of_int signed_take_bit_int_eq_self)

end
