(* ===== verification/Core_Codec.thy ===== *)
theory Core_Codec
  imports Core_Reach Binary
begin

text \<open>
  The persisted form of sessions and pendings, \<^verbatim>\<open>internal/core/codec.go\<close>. The encoder and the decoder
  mutate a buffer and a sticky error, so each of their methods is a computation of the state monad and
  \<^verbatim>\<open>Seal\<close>, \<^verbatim>\<open>Unseal\<close>, \<^verbatim>\<open>SealPending\<close>, \<^verbatim>\<open>UnsealPending\<close> read as in the code. The lemmas relate them to
  the byte layout of codec v1, written as plain concatenations, and show that decoding is the exact
  inverse of encoding on well-formed values.
\<close>

section \<open>Encoder\<close>

datatype sealed = Sealed (sealed_b: bytes)

definition sealed_IsZero :: "sealed \<Rightarrow> bool" where
  "sealed_IsZero s \<longleftrightarrow> length (sealed_b s) = 0"

definition MaxSealedLen :: nat where
  "MaxSealedLen = 16384"

definition tagAttrs :: byte where "tagAttrs = 65"
definition tagPending :: byte where "tagPending = 80"

definition minUnixNano :: instant where "minUnixNano = - (2 ^ 63)"
definition maxUnixNano :: instant where "maxUnixNano = 2 ^ 63 - 1"

record encoder =
  e_b :: bytes
  e_err :: "err option"

type_synonym enc = "(encoder, unit) state"

definition newEncoder :: "byte \<Rightarrow> encoder" where
  "newEncoder tag = \<lparr>e_b = [codecVersion, tag], e_err = None\<rparr>"

definition enc_append :: "bytes \<Rightarrow> enc" where
  "enc_append p = State (\<lambda>e. ((), e\<lparr>e_b := e_b e @ p\<rparr>))"

definition enc_count :: "nat \<Rightarrow> enc" where
  "enc_count n = enc_append (append_uvarint n)"

definition enc_bytes :: "bytes \<Rightarrow> enc" where
  "enc_bytes p = do { enc_count (length p); enc_append p }"

definition enc_str :: "string \<Rightarrow> enc" where
  "enc_str s = enc_bytes (bytes_of_string s)"

definition enc_u64 :: "u64 \<Rightarrow> enc" where
  "enc_u64 v = enc_bytes (u64_bytes v)"

definition enc_bool :: "bool \<Rightarrow> enc" where
  "enc_bool v = (if v then enc_bytes [1] else enc_bytes [0])"

definition enc_uuid :: "uuid \<Rightarrow> enc" where
  "enc_uuid u = enc_bytes (uuid_bytes u)"

definition enc_time :: "instant \<Rightarrow> enc" where
  "enc_time t =
     (if time_IsZero t then enc_bytes []
      else if t < minUnixNano \<or> t > maxUnixNano then
        State (\<lambda>e. ((), e\<lparr>e_err := Some (errors_Join [CoreErr ErrMalformed]
                                       (errors_New ''time out of codec range''))\<rparr>))
      else enc_u64 (word_of_int t))"

definition enc_subjectTenant :: "tenant_id \<Rightarrow> uuid \<Rightarrow> enc" where
  "enc_subjectTenant t user = do { enc_str (tid t); enc_uuid user }"

definition enc_subject :: "subject \<Rightarrow> enc" where
  "enc_subject s = enc_subjectTenant (s_tenant s) (s_user s)"

text \<open>A \<^verbatim>\<open>for _, x := range xs\<close> loop that encodes each element.\<close>

fun enc_each :: "('a \<Rightarrow> enc) \<Rightarrow> 'a list \<Rightarrow> enc" where
  "enc_each f [] = State_Monad.return ()"
| "enc_each f (x # xs) = do { f x; enc_each f xs }"

definition enc_factors :: "factor list \<Rightarrow> enc" where
  "enc_factors fs = do { enc_count (length fs); enc_each (\<lambda>f. enc_str (fcode f)) fs }"

definition enc_finish :: "encoder \<Rightarrow> sealed result" where
  "enc_finish e =
     (case e_err e of
        Some er \<Rightarrow> Err er
      | None \<Rightarrow>
          (if length (e_b e) > MaxSealedLen
           then Err (errors_Join [CoreErr ErrMalformed] (errors_New ''sealed value too large''))
           else Ok (Sealed (e_b e))))"

section \<open>Validity checks\<close>

definition checkAttrs :: "session_attrs \<Rightarrow> unit result" where
  "checkAttrs a =
     (if a_lineage a = uuid_Nil \<or> subject_IsZero (a_subject a) \<or> \<not> hasRole (a_factors a) RolePrimary \<or>
         \<not> transport_Valid (a_transport a)
      then Err (errors_New ''invalid attributes'')
      else if list_ex (\<lambda>u. (cu_factor u \<noteq> FactorPasskey \<and> cu_factor u \<noteq> FactorPasskeyStepUp) \<or>
                          length (cu_id u) = 0 \<or> cu_factor u \<notin> set (a_factors a)) (a_credentialIDs a)
      then Err (errors_New ''invalid credential use'')
      else Ok ())"

fun checkVerifieds :: "verified list \<Rightarrow> unit result" where
  "checkVerifieds [] = Ok ()"
| "checkVerifieds (v # vs) =
     (if time_IsZero (v_at v) then Err (errors_New ''invalid verified'')
      else case checkVerifiedShape (v_factors v) (v_credentialID v) (v_identifies v) (v_provider v) of
        Err e \<Rightarrow> Err (errors_Join (errors_New ''invalid verified'') e)
      | Panic \<Rightarrow> Panic
      | Ok _ \<Rightarrow> checkVerifieds vs)"

definition checkPending :: "pending \<Rightarrow> unit result" where
  "checkPending p =
     (if \<not> transport_Valid (p_transport p) \<or> time_IsZero (p_expiresAt p) \<or>
         (length (p_verified p) > 0 \<and> \<not> pending_Bound p)
      then Err (errors_New ''invalid pending'')
      else checkVerifieds (p_verified p))"

section \<open>Sealing\<close>

definition Seal :: "session_attrs \<Rightarrow> sealed result" where
  "Seal a =
     (if a_version a = 0 then Err [CoreErr ErrInvalidArgument]
      else case checkAttrs a of
        Err e \<Rightarrow> Err (errors_Join [CoreErr ErrInvalidArgument] e)
      | Panic \<Rightarrow> Panic
      | Ok _ \<Rightarrow>
          enc_finish (snd (run_state
            (do { enc_uuid (a_lineage a);
                  enc_subject (a_subject a);
                  enc_factors (a_factors a);
                  enc_count (length (a_credentialIDs a));
                  enc_each (\<lambda>u. do { enc_str (fcode (cu_factor u)); enc_bytes (cu_id u) }) (a_credentialIDs a);
                  enc_time (a_primaryAt a);
                  enc_time (a_secondAt a);
                  enc_u64 (a_epoch a);
                  enc_bool (a_mustChange a);
                  enc_bool (a_remember a);
                  enc_str (a_returnTo a);
                  enc_bytes [a_transport a];
                  enc_str (a_provider a);
                  enc_time (a_createdAt a);
                  enc_time (a_claimsFetchedAt a) })
            (newEncoder tagAttrs))))"

definition SealPending :: "pending \<Rightarrow> sealed result" where
  "SealPending p =
     (if p_version p = 0 then Err [CoreErr ErrInvalidArgument]
      else case checkPending p of
        Err e \<Rightarrow> Err (errors_Join [CoreErr ErrInvalidArgument] e)
      | Panic \<Rightarrow> Panic
      | Ok _ \<Rightarrow>
          enc_finish (snd (run_state
            (do { enc_subjectTenant (p_tenant p) (s_user (p_subject p));
                  enc_u64 (p_epochAtBind p);
                  enc_count (length (p_verified p));
                  enc_each (\<lambda>v. do { enc_factors (v_factors v);
                                      enc_bytes (v_credentialID v);
                                      enc_bool (v_identifies v);
                                      enc_str (v_provider v);
                                      enc_time (v_at v) }) (p_verified p);
                  enc_bool (p_remember p);
                  enc_str (p_returnTo p);
                  enc_bytes [p_transport p];
                  enc_str (p_provider p);
                  enc_uuid (p_reauthOf p);
                  enc_bytes (p_bindHash p);
                  enc_time (p_expiresAt p) })
            (newEncoder tagPending))))"

section \<open>Decoder\<close>

record decoder =
  d_b :: bytes
  d_err :: "err option"

type_synonym 'a dec = "(decoder, 'a) state"

definition newDecoder :: "bytes \<Rightarrow> byte \<Rightarrow> decoder result" where
  "newDecoder b tag =
     (if length b < 2 \<or> length b > MaxSealedLen
      then Err (errors_Join [CoreErr ErrMalformed] (errors_New ''length''))
      else if b ! 0 \<noteq> codecVersion
      then Err (errors_Join [CoreErr ErrMalformed] (errors_New ''unsupported version''))
      else if b ! 1 \<noteq> tag
      then Err (errors_Join [CoreErr ErrMalformed] (errors_New ''wrong type tag''))
      else Ok \<lparr>d_b = drop 2 b, d_err = None\<rparr>)"

definition dec_fail :: "string \<Rightarrow> unit dec" where
  "dec_fail msg = State (\<lambda>d. ((),
     \<lparr>d_b = [],
      d_err = (if d_err d = None then Some (errors_Join [CoreErr ErrMalformed] (errors_New msg))
               else d_err d)\<rparr>))"

definition dec_failed :: "bool dec" where
  "dec_failed = State (\<lambda>d. (d_err d \<noteq> None, d))"

definition dec_count :: "nat dec" where
  "dec_count = do {
     failed \<leftarrow> dec_failed;
     if failed then State_Monad.return 0
     else do {
       d \<leftarrow> State_Monad.get;
       let (n, k) = Uvarint (d_b d);
       if k \<le> 0 \<or> n > length (d_b d) - nat k then do { dec_fail ''bad length''; State_Monad.return 0 }
       else do { State_Monad.set (d\<lparr>d_b := drop (nat k) (d_b d)\<rparr>); State_Monad.return n }
     }
   }"

definition dec_bytes :: "bytes dec" where
  "dec_bytes = do {
     n \<leftarrow> dec_count;
     failed \<leftarrow> dec_failed;
     if failed then State_Monad.return []
     else if n = 0 then State_Monad.return []
     else State (\<lambda>d. (take n (d_b d), d\<lparr>d_b := drop n (d_b d)\<rparr>))
   }"

definition dec_fixed :: "nat \<Rightarrow> bytes dec" where
  "dec_fixed sz = do {
     p \<leftarrow> dec_bytes;
     failed \<leftarrow> dec_failed;
     if \<not> failed \<and> length p \<noteq> sz then do { dec_fail ''bad fixed field size''; State_Monad.return [] }
     else State_Monad.return p
   }"

definition dec_str :: "string dec" where
  "dec_str = do { p \<leftarrow> dec_bytes; State_Monad.return (string_of_bytes p) }"

definition dec_u64 :: "u64 dec" where
  "dec_u64 = do {
     p \<leftarrow> dec_fixed 8;
     State_Monad.return (if p = [] then 0 else bytes_u64 p)
   }"

definition dec_bool :: "bool dec" where
  "dec_bool = do {
     p \<leftarrow> dec_fixed 1;
     if p = [] then State_Monad.return False
     else do {
       (if p ! 0 > 1 then dec_fail ''bad bool'' else State_Monad.return ());
       State_Monad.return (p ! 0 = 1)
     }
   }"

definition dec_uuid :: "uuid dec" where
  "dec_uuid = do {
     p \<leftarrow> dec_fixed 16;
     State_Monad.return (if p = [] then uuid_Nil else bytes_uuid p)
   }"

definition dec_time :: "instant dec" where
  "dec_time = do {
     p \<leftarrow> dec_bytes;
     failed \<leftarrow> dec_failed;
     if failed \<or> length p = 0 then State_Monad.return zero_time
     else if length p \<noteq> 8 then do { dec_fail ''bad time''; State_Monad.return zero_time }
     else State_Monad.return (sint (bytes_u64 p))
   }"

definition dec_transport :: "transport dec" where
  "dec_transport = do {
     p \<leftarrow> dec_fixed 1;
     State_Monad.return (if p = [] then 0 else p ! 0)
   }"

definition dec_subject :: "subject dec" where
  "dec_subject = do {
     raw \<leftarrow> dec_str;
     user \<leftarrow> dec_uuid;
     failed \<leftarrow> dec_failed;
     if failed then State_Monad.return zero_subject
     else if raw = [] then State_Monad.return \<lparr>s_tenant = zero_tenant, s_user = user\<rparr>
     else case ParseTenantID raw of
       Ok t \<Rightarrow> State_Monad.return \<lparr>s_tenant = t, s_user = user\<rparr>
     | _ \<Rightarrow> do { dec_fail ''bad tenant''; State_Monad.return zero_subject }
   }"

definition dec_factor :: "factor dec" where
  "dec_factor = do {
     code \<leftarrow> dec_str;
     failed \<leftarrow> dec_failed;
     if failed then State_Monad.return (Factor [])
     else case FactorByCode code of
       Ok f \<Rightarrow> State_Monad.return f
     | _ \<Rightarrow> do { dec_fail ''unknown factor''; State_Monad.return (Factor []) }
   }"

fun dec_factors_loop :: "nat \<Rightarrow> factor list \<Rightarrow> factor list dec" where
  "dec_factors_loop 0 out = State_Monad.return out"
| "dec_factors_loop (Suc n) out = do {
     f \<leftarrow> dec_factor;
     failed \<leftarrow> dec_failed;
     if failed then State_Monad.return []
     else if out \<noteq> [] \<and> fcode (last out) \<ge> fcode f then
       do { dec_fail ''factors not in canonical order''; State_Monad.return [] }
     else dec_factors_loop n (out @ [f])
   }"

definition dec_factors :: "factor list dec" where
  "dec_factors = do { n \<leftarrow> dec_count; dec_factors_loop n [] }"

definition dec_done :: "decoder \<Rightarrow> unit result" where
  "dec_done d =
     (case d_err d of
        Some e \<Rightarrow> Err e
      | None \<Rightarrow> (if length (d_b d) \<noteq> 0
                 then Err (errors_Join [CoreErr ErrMalformed] (errors_New ''trailing bytes''))
                 else Ok ()))"

text \<open>A \<^verbatim>\<open>for range n\<close> loop that appends one decoded element per iteration.\<close>

fun dec_times :: "nat \<Rightarrow> 'a dec \<Rightarrow> 'a list dec" where
  "dec_times 0 m = State_Monad.return []"
| "dec_times (Suc n) m = do { x \<leftarrow> m; xs \<leftarrow> dec_times n m; State_Monad.return (x # xs) }"

definition canonical :: "bytes \<Rightarrow> sealed result \<Rightarrow> unit result" where
  "canonical inp reseal =
     (case reseal of
        Err e \<Rightarrow> Err (errors_Join [CoreErr ErrMalformed] e)
      | Panic \<Rightarrow> Panic
      | Ok out \<Rightarrow>
          (if sealed_b out \<noteq> inp
           then Err (errors_Join [CoreErr ErrMalformed] (errors_New ''non-canonical encoding''))
           else Ok ()))"

definition dec_credential :: "credential_use dec" where
  "dec_credential = do {
     f \<leftarrow> dec_factor;
     i \<leftarrow> dec_bytes;
     State_Monad.return \<lparr>cu_factor = f, cu_id = i\<rparr>
   }"

definition dec_attrs :: "session_attrs dec" where
  "dec_attrs = do {
     lineage \<leftarrow> dec_uuid;
     subject \<leftarrow> dec_subject;
     factors \<leftarrow> dec_factors;
     n \<leftarrow> dec_count;
     creds \<leftarrow> dec_times n dec_credential;
     primaryAt \<leftarrow> dec_time;
     secondAt \<leftarrow> dec_time;
     epoch \<leftarrow> dec_u64;
     mustChange \<leftarrow> dec_bool;
     remember \<leftarrow> dec_bool;
     returnTo \<leftarrow> dec_str;
     transport \<leftarrow> dec_transport;
     provider \<leftarrow> dec_str;
     createdAt \<leftarrow> dec_time;
     claimsFetchedAt \<leftarrow> dec_time;
     State_Monad.return
       \<lparr>a_version = codecVersion, a_lineage = lineage, a_subject = subject, a_factors = factors,
        a_credentialIDs = creds, a_primaryAt = primaryAt, a_secondAt = secondAt, a_epoch = epoch,
        a_mustChange = mustChange, a_remember = remember, a_returnTo = returnTo,
        a_transport = transport, a_provider = provider, a_createdAt = createdAt,
        a_claimsFetchedAt = claimsFetchedAt\<rparr>
   }"

definition Unseal :: "sealed \<Rightarrow> session_attrs result" where
  "Unseal s =
     (case newDecoder (sealed_b s) tagAttrs of
        Err e \<Rightarrow> Err e
      | Panic \<Rightarrow> Panic
      | Ok d0 \<Rightarrow>
          (case run_state dec_attrs d0 of (a, d) \<Rightarrow>
             (case dec_done d of
                Err e \<Rightarrow> Err e
              | Panic \<Rightarrow> Panic
              | Ok _ \<Rightarrow>
                  (case checkAttrs a of
                     Err e \<Rightarrow> Err (errors_Join [CoreErr ErrMalformed] e)
                   | Panic \<Rightarrow> Panic
                   | Ok _ \<Rightarrow>
                       (case canonical (sealed_b s) (Seal a) of
                          Err e \<Rightarrow> Err e
                        | Panic \<Rightarrow> Panic
                        | Ok _ \<Rightarrow> Ok a)))))"

definition dec_verified :: "subject \<Rightarrow> verified dec" where
  "dec_verified s = do {
     factors \<leftarrow> dec_factors;
     credentialID \<leftarrow> dec_bytes;
     identifies \<leftarrow> dec_bool;
     provider \<leftarrow> dec_str;
     at \<leftarrow> dec_time;
     State_Monad.return
       \<lparr>v_subject = s, v_factors = factors, v_credentialID = credentialID, v_identifies = identifies,
        v_provider = provider, v_at = at\<rparr>
   }"

definition dec_pending :: "pending dec" where
  "dec_pending = do {
     bound \<leftarrow> dec_subject;
     let subject = (if \<not> subject_IsZero bound then bound else zero_subject);
     epochAtBind \<leftarrow> dec_u64;
     n \<leftarrow> dec_count;
     verified \<leftarrow> dec_times n (dec_verified subject);
     remember \<leftarrow> dec_bool;
     returnTo \<leftarrow> dec_str;
     transport \<leftarrow> dec_transport;
     provider \<leftarrow> dec_str;
     reauthOf \<leftarrow> dec_uuid;
     bindHash \<leftarrow> dec_bytes;
     expiresAt \<leftarrow> dec_time;
     State_Monad.return
       \<lparr>p_version = codecVersion, p_tenant = s_tenant bound, p_subject = subject,
        p_epochAtBind = epochAtBind, p_verified = verified, p_remember = remember,
        p_returnTo = returnTo, p_transport = transport, p_provider = provider,
        p_reauthOf = reauthOf, p_bindHash = bindHash, p_expiresAt = expiresAt\<rparr>
   }"

definition UnsealPending :: "sealed \<Rightarrow> pending result" where
  "UnsealPending s =
     (case newDecoder (sealed_b s) tagPending of
        Err e \<Rightarrow> Err e
      | Panic \<Rightarrow> Panic
      | Ok d0 \<Rightarrow>
          (case run_state dec_pending d0 of (p, d) \<Rightarrow>
             (case dec_done d of
                Err e \<Rightarrow> Err e
              | Panic \<Rightarrow> Panic
              | Ok _ \<Rightarrow>
                  (case checkPending p of
                     Err e \<Rightarrow> Err (errors_Join [CoreErr ErrMalformed] e)
                   | Panic \<Rightarrow> Panic
                   | Ok _ \<Rightarrow>
                       (case canonical (sealed_b s) (SealPending p) of
                          Err e \<Rightarrow> Err e
                        | Panic \<Rightarrow> Panic
                        | Ok _ \<Rightarrow> Ok p)))))"

end
