(* ===== verification/Codec_Laws.thy ===== *)
theory Codec_Laws
  imports Core_Codec
begin

text \<open>
  Correctness of codec v1. \<open>writes\<close> describes an encoder computation by the bytes it appends and the
  condition under which it does so, \<open>reads\<close> a decoder computation by the bytes it consumes and the
  value it returns; both compose along the sequencing of the monad, so the layout of a whole value and
  the inverse property are assembled from one rule per field.
\<close>

named_theorems codec "composition rules for encoder and decoder computations"

section \<open>Layout\<close>

definition lp :: "bytes \<Rightarrow> bytes" where
  "lp p = append_uvarint (length p) @ p"

definition l_str :: "string \<Rightarrow> bytes" where
  "l_str s = lp (bytes_of_string s)"

definition l_bool :: "bool \<Rightarrow> bytes" where
  "l_bool v = lp [if v then 1 else 0]"

definition l_time :: "instant \<Rightarrow> bytes" where
  "l_time t = lp (if time_IsZero t then [] else u64_bytes (word_of_int t))"

definition l_factors :: "factor list \<Rightarrow> bytes" where
  "l_factors fs = append_uvarint (length fs) @ concat (map (\<lambda>f. l_str (fcode f)) fs)"

definition l_credential :: "credential_use \<Rightarrow> bytes" where
  "l_credential u = l_str (fcode (cu_factor u)) @ lp (cu_id u)"

definition l_verified :: "verified \<Rightarrow> bytes" where
  "l_verified v =
     l_factors (v_factors v) @ lp (v_credentialID v) @ l_bool (v_identifies v) @ l_str (v_provider v) @
     l_time (v_at v)"

definition l_attrs :: "session_attrs \<Rightarrow> bytes" where
  "l_attrs a =
     lp (uuid_bytes (a_lineage a)) @
     (l_str (tid (s_tenant (a_subject a))) @ lp (uuid_bytes (s_user (a_subject a)))) @
     l_factors (a_factors a) @
     append_uvarint (length (a_credentialIDs a)) @ concat (map l_credential (a_credentialIDs a)) @
     l_time (a_primaryAt a) @ l_time (a_secondAt a) @ lp (u64_bytes (a_epoch a)) @
     l_bool (a_mustChange a) @ l_bool (a_remember a) @ l_str (a_returnTo a) @ lp [a_transport a] @
     l_str (a_provider a) @ l_time (a_createdAt a) @ l_time (a_claimsFetchedAt a)"

definition l_pending :: "pending \<Rightarrow> bytes" where
  "l_pending p =
     (l_str (tid (p_tenant p)) @ lp (uuid_bytes (s_user (p_subject p)))) @
     lp (u64_bytes (p_epochAtBind p)) @
     append_uvarint (length (p_verified p)) @ concat (map l_verified (p_verified p)) @
     l_bool (p_remember p) @ l_str (p_returnTo p) @ lp [p_transport p] @ l_str (p_provider p) @
     lp (uuid_bytes (p_reauthOf p)) @ lp (p_bindHash p) @ l_time (p_expiresAt p)"

definition time_ok :: "instant \<Rightarrow> bool" where
  "time_ok t \<longleftrightarrow> time_IsZero t \<or> minUnixNano \<le> t \<and> t \<le> maxUnixNano"

definition attrs_times_ok :: "session_attrs \<Rightarrow> bool" where
  "attrs_times_ok a \<longleftrightarrow>
     time_ok (a_primaryAt a) \<and> time_ok (a_secondAt a) \<and> time_ok (a_createdAt a) \<and> time_ok (a_claimsFetchedAt a)"

definition pending_times_ok :: "pending \<Rightarrow> bool" where
  "pending_times_ok p \<longleftrightarrow> list_all (\<lambda>v. time_ok (v_at v)) (p_verified p) \<and> time_ok (p_expiresAt p)"

section \<open>Encoding\<close>

definition range_err :: err where
  "range_err = errors_Join [CoreErr ErrMalformed] (errors_New ''time out of codec range'')"

definition writes :: "enc \<Rightarrow> bool \<Rightarrow> bytes \<Rightarrow> bool" where
  "writes m ok b \<longleftrightarrow>
     (\<forall>e. (ok \<longrightarrow> run_state m e = ((), e\<lparr>e_b := e_b e @ b\<rparr>)) \<and>
          (\<not> ok \<or> e_err e = Some range_err \<longrightarrow> e_err (snd (run_state m e)) = Some range_err))"

lemma writes_bind:
  "writes m ok b \<Longrightarrow> writes m' ok' b' \<Longrightarrow> writes (do { m; m' }) (ok \<and> ok') (b @ b')"
  by (auto simp: writes_def split: prod.splits) (metis snd_conv)+

lemma writes_append: "writes (enc_append b) True b"
  by (simp add: writes_def enc_append_def)

lemma writes_return: "writes (State_Monad.return ()) True []"
  by (simp add: writes_def)

lemma writes_count: "writes (enc_count n) True (append_uvarint n)"
  unfolding enc_count_def by (rule writes_append)

lemma writes_bytes: "writes (enc_bytes p) True (lp p)"
  using writes_bind [OF writes_count writes_append] by (simp add: enc_bytes_def lp_def)

lemma writes_str: "writes (enc_str s) True (l_str s)"
  unfolding enc_str_def l_str_def by (rule writes_bytes)

lemma writes_u64: "writes (enc_u64 v) True (lp (u64_bytes v))"
  unfolding enc_u64_def by (rule writes_bytes)

lemma writes_bool: "writes (enc_bool v) True (l_bool v)"
  using writes_bytes by (simp add: enc_bool_def l_bool_def)

lemma writes_uuid: "writes (enc_uuid u) True (lp (uuid_bytes u))"
  unfolding enc_uuid_def by (rule writes_bytes)

lemma writes_time: "writes (enc_time t) (time_ok t) (l_time t)"
proof (cases "time_ok t")
  case True
  then show ?thesis
    using writes_bytes writes_u64 by (auto simp: enc_time_def l_time_def time_ok_def)
next
  case False
  then show ?thesis
    by (auto simp: writes_def enc_time_def time_ok_def range_err_def)
qed

lemma writes_subjectTenant:
  "writes (enc_subjectTenant t u) True (l_str (tid t) @ lp (uuid_bytes u))"
  using writes_bind [OF writes_str writes_uuid] by (simp add: enc_subjectTenant_def)

lemma writes_subject:
  "writes (enc_subject s) True (l_str (tid (s_tenant s)) @ lp (uuid_bytes (s_user s)))"
  unfolding enc_subject_def by (rule writes_subjectTenant)

lemma writes_each:
  "(\<And>x. writes (f x) (ok x) (l x)) \<Longrightarrow> writes (enc_each f xs) (list_all ok xs) (concat (map l xs))"
proof (induction xs)
  case Nil
  show ?case using writes_return by simp
next
  case (Cons x xs)
  then show ?case using writes_bind [of "f x" "ok x" "l x"] by simp
qed

lemma writes_factors: "writes (enc_factors fs) True (l_factors fs)"
  using writes_bind [OF writes_count writes_each [OF writes_str, of "\<lambda>f. fcode f"]]
  by (simp add: enc_factors_def l_factors_def list_all_iff)

lemma writes_credential: "writes (do { enc_str (fcode (cu_factor u)); enc_bytes (cu_id u) }) True (l_credential u)"
  using writes_bind [OF writes_str writes_bytes] by (simp add: l_credential_def)

lemma writes_verified:
  "writes (do { enc_factors (v_factors v); enc_bytes (v_credentialID v); enc_bool (v_identifies v);
                enc_str (v_provider v); enc_time (v_at v) })
     (time_ok (v_at v)) (l_verified v)"
  using writes_bind [OF writes_factors writes_bind [OF writes_bytes writes_bind [OF writes_bool
          writes_bind [OF writes_str writes_time]]]]
  by (simp add: l_verified_def)

lemmas [codec] =
  writes_count writes_bytes writes_str writes_u64 writes_bool writes_uuid writes_time
  writes_subjectTenant writes_subject writes_factors
  writes_each [OF writes_credential] writes_each [OF writes_verified]

lemma finish_writes:
  assumes "writes m ok b"
  shows "enc_finish (snd (run_state m (newEncoder tag))) =
    (if \<not> ok then Err range_err
     else if length b + 2 > MaxSealedLen
     then Err (errors_Join [CoreErr ErrMalformed] (errors_New ''sealed value too large''))
     else Ok (Sealed (codecVersion # tag # b)))"
  using assms by (auto simp: writes_def enc_finish_def newEncoder_def)

lemma checkAttrs_not_Panic [simp]: "checkAttrs a \<noteq> Panic"
  by (simp add: checkAttrs_def)

lemma Seal_layout:
  "Seal a =
     (if a_version a = 0 then Err [CoreErr ErrInvalidArgument]
      else case checkAttrs a of
        Err e \<Rightarrow> Err (errors_Join [CoreErr ErrInvalidArgument] e)
      | Panic \<Rightarrow> Panic
      | Ok _ \<Rightarrow>
          (if \<not> attrs_times_ok a then Err range_err
           else if length (l_attrs a) + 2 > MaxSealedLen
           then Err (errors_Join [CoreErr ErrMalformed] (errors_New ''sealed value too large''))
           else Ok (Sealed (codecVersion # tagAttrs # l_attrs a))))"
proof -
  have "writes (do { enc_uuid (a_lineage a); enc_subject (a_subject a); enc_factors (a_factors a);
          enc_count (length (a_credentialIDs a));
          enc_each (\<lambda>u. do { enc_str (fcode (cu_factor u)); enc_bytes (cu_id u) }) (a_credentialIDs a);
          enc_time (a_primaryAt a); enc_time (a_secondAt a); enc_u64 (a_epoch a);
          enc_bool (a_mustChange a); enc_bool (a_remember a); enc_str (a_returnTo a);
          enc_bytes [a_transport a]; enc_str (a_provider a); enc_time (a_createdAt a);
          enc_time (a_claimsFetchedAt a) })
        (True \<and> True \<and> True \<and> True \<and> list_all (\<lambda>_. True) (a_credentialIDs a) \<and>
         time_ok (a_primaryAt a) \<and> time_ok (a_secondAt a) \<and> True \<and> True \<and> True \<and> True \<and> True \<and> True \<and>
         time_ok (a_createdAt a) \<and> time_ok (a_claimsFetchedAt a)) (l_attrs a)"
    unfolding l_attrs_def by (intro writes_bind codec)
  from finish_writes [OF this] show ?thesis
    by (simp add: Seal_def attrs_times_ok_def list_all_iff split: result.splits)
qed

lemma SealPending_layout:
  "SealPending p =
     (if p_version p = 0 then Err [CoreErr ErrInvalidArgument]
      else case checkPending p of
        Err e \<Rightarrow> Err (errors_Join [CoreErr ErrInvalidArgument] e)
      | Panic \<Rightarrow> Panic
      | Ok _ \<Rightarrow>
          (if \<not> pending_times_ok p then Err range_err
           else if length (l_pending p) + 2 > MaxSealedLen
           then Err (errors_Join [CoreErr ErrMalformed] (errors_New ''sealed value too large''))
           else Ok (Sealed (codecVersion # tagPending # l_pending p))))"
proof -
  have "writes (do { enc_subjectTenant (p_tenant p) (s_user (p_subject p)); enc_u64 (p_epochAtBind p);
          enc_count (length (p_verified p));
          enc_each (\<lambda>v. do { enc_factors (v_factors v); enc_bytes (v_credentialID v);
             enc_bool (v_identifies v); enc_str (v_provider v); enc_time (v_at v) }) (p_verified p);
          enc_bool (p_remember p); enc_str (p_returnTo p); enc_bytes [p_transport p];
          enc_str (p_provider p); enc_uuid (p_reauthOf p); enc_bytes (p_bindHash p);
          enc_time (p_expiresAt p) })
        (True \<and> True \<and> True \<and> list_all (\<lambda>v. time_ok (v_at v)) (p_verified p) \<and> True \<and> True \<and> True \<and>
         True \<and> True \<and> True \<and> time_ok (p_expiresAt p)) (l_pending p)"
    unfolding l_pending_def by (intro writes_bind codec)
  from finish_writes [OF this] show ?thesis
    by (simp add: SealPending_def pending_times_ok_def split: result.splits)
qed

section \<open>Decoding\<close>

definition decoder_at :: "bytes \<Rightarrow> decoder" where
  "decoder_at b = \<lparr>d_b = b, d_err = None\<rparr>"

definition reads :: "'a dec \<Rightarrow> bytes \<Rightarrow> 'a \<Rightarrow> bool" where
  "reads m b x \<longleftrightarrow> (\<forall>r. run_state m (decoder_at (b @ r)) = (x, decoder_at r))"

lemma reads_bind: "reads m b x \<Longrightarrow> reads (f x) b' y \<Longrightarrow> reads (m \<bind> f) (b @ b') y"
  by (simp add: reads_def)

lemma reads_return: "reads (State_Monad.return x) [] x"
  by (simp add: reads_def)

lemma run_failed [simp]: "run_state dec_failed (decoder_at b) = (False, decoder_at b)"
  by (simp add: dec_failed_def decoder_at_def)

lemma run_count:
  "n \<le> MaxSealedLen \<Longrightarrow> n \<le> length r \<Longrightarrow>
   run_state dec_count (decoder_at (append_uvarint n @ r)) = (n, decoder_at r)"
  using Uvarint_append [of n r]
  by (simp add: dec_count_def MaxSealedLen_def) (simp add: decoder_at_def)

lemma reads_count:
  "n \<le> MaxSealedLen \<Longrightarrow> n \<le> length b \<Longrightarrow> reads (f n) b x \<Longrightarrow>
   reads (dec_count \<bind> f) (append_uvarint n @ b) x"
  by (simp add: reads_def run_count)

lemma reads_bytes: "length p \<le> MaxSealedLen \<Longrightarrow> reads dec_bytes (lp p) p"
  unfolding dec_bytes_def lp_def
  by (intro reads_count) (auto simp: reads_def decoder_at_def dec_failed_def)

lemma reads_fixed:
  "length p = n \<Longrightarrow> n \<le> MaxSealedLen \<Longrightarrow> reads (dec_fixed n) (lp p) p"
  using reads_bytes [of p] by (simp add: dec_fixed_def reads_def)

lemma reads_str: "length s \<le> MaxSealedLen \<Longrightarrow> reads dec_str (l_str s) s"
  using reads_bytes [of "bytes_of_string s"] by (simp add: dec_str_def reads_def l_str_def)

lemma reads_u64: "reads dec_u64 (lp (u64_bytes v)) v"
  using reads_fixed [of "u64_bytes v" 8]
  by (auto simp: dec_u64_def reads_def MaxSealedLen_def)

lemma reads_uuid: "reads dec_uuid (lp (uuid_bytes v)) v"
  using reads_fixed [of "uuid_bytes v" 16]
  by (auto simp: dec_uuid_def reads_def MaxSealedLen_def)

lemma reads_bool: "reads dec_bool (l_bool v) v"
  using reads_fixed [of "[if v then 1 else 0]" 1]
  by (simp add: dec_bool_def reads_def l_bool_def MaxSealedLen_def)

lemma reads_transport: "reads dec_transport (lp [t]) t"
  using reads_fixed [of "[t]" 1] by (simp add: dec_transport_def reads_def MaxSealedLen_def)

lemma reads_time:
  assumes "time_ok t"
  shows "reads dec_time (l_time t) t"
proof (cases "time_IsZero t")
  case True
  then show ?thesis
    using reads_bytes [of "[]"] by (simp add: dec_time_def reads_def l_time_def time_IsZero_def)
next
  case False
  with assms have "sint (word_of_int t :: u64) = t"
    by (intro sint_word_of_int_id) (simp_all add: time_ok_def minUnixNano_def maxUnixNano_def)
  with False show ?thesis
    using reads_bytes [of "u64_bytes (word_of_int t)"]
    by (simp add: dec_time_def reads_def l_time_def MaxSealedLen_def)
qed

lemma valid_tenant_len: "valid_tenant t \<Longrightarrow> length (tid t) \<le> MaxSealedLen"
  by (auto simp: valid_tenant_def zero_tenant_def ParseTenantID_def maxTenantLen_def MaxSealedLen_def
        split: if_splits)

lemma reads_subject:
  assumes "valid_tenant t"
  shows "reads dec_subject (l_str (tid t) @ lp (uuid_bytes u)) \<lparr>s_tenant = t, s_user = u\<rparr>"
  using assms reads_str [OF valid_tenant_len [OF assms]] reads_uuid [of u]
  by (cases t) (auto simp: dec_subject_def reads_def valid_tenant_def zero_tenant_def ParseTenantID_def
        split: if_splits)

lemma factor_code_len: "factor_Valid f \<Longrightarrow> length (fcode f) \<le> MaxSealedLen"
  by (auto simp: factor_Valid_def factorTable_def MaxSealedLen_def split: if_splits)

lemma reads_factor: "factor_Valid f \<Longrightarrow> reads dec_factor (l_str (fcode f)) f"
  using reads_str [OF factor_code_len, of f] by (simp add: dec_factor_def reads_def)

lemma reads_factors_loop:
  "list_all factor_Valid fs \<Longrightarrow> factor_set (out @ fs) \<Longrightarrow>
   reads (dec_factors_loop (length fs) out) (concat (map (\<lambda>f. l_str (fcode f)) fs)) (out @ fs)"
proof (induction fs arbitrary: out)
  case Nil
  show ?case by (simp add: reads_return)
next
  case (Cons f fs)
  then have IH: "reads (dec_factors_loop (length fs) (out @ [f])) (concat (map (\<lambda>f. l_str (fcode f)) fs)) (out @ f # fs)"
    using Cons.IH [of "out @ [f]"] by simp
  have "out = [] \<or> fcode (last out) < fcode f"
    using Cons.prems(2) by (cases out rule: rev_cases) (auto simp: factor_set_strict sorted_wrt_append)
  with IH reads_factor [of f] Cons.prems(1) show ?case
    by (auto simp: reads_def)
qed

lemma length_concat_ge: "(\<And>x. x \<in> set xs \<Longrightarrow> l x \<noteq> []) \<Longrightarrow> length xs \<le> length (concat (map l xs))"
proof (induction xs)
  case (Cons x xs)
  then have "1 \<le> length (l x)" by (simp add: Suc_leI)
  with Cons show ?case by simp
qed simp

lemma lp_not_Nil [simp]: "lp p \<noteq> []"
  by (simp add: lp_def)

lemma l_str_not_Nil [simp]: "l_str s \<noteq> []"
  by (simp add: l_str_def)

lemma reads_factors:
  "list_all factor_Valid fs \<Longrightarrow> factor_set fs \<Longrightarrow> length fs \<le> MaxSealedLen \<Longrightarrow> reads dec_factors (l_factors fs) fs"
  unfolding dec_factors_def l_factors_def
  using reads_factors_loop [of fs "[]"] by (intro reads_count length_concat_ge) simp_all

lemma reads_times:
  "(\<And>x. x \<in> set xs \<Longrightarrow> reads m (l x) x) \<Longrightarrow> reads (dec_times (length xs) m) (concat (map l xs)) xs"
proof (induction xs)
  case Nil
  show ?case by (simp add: reads_return)
next
  case (Cons x xs)
  then have "reads m (l x) x" "reads (dec_times (length xs) m) (concat (map l xs)) xs" by simp_all
  then show ?case by (simp add: reads_def)
qed

lemma reads_credential:
  "factor_Valid (cu_factor u) \<Longrightarrow> length (cu_id u) \<le> MaxSealedLen \<Longrightarrow>
   reads dec_credential (l_credential u) u"
  using reads_factor [of "cu_factor u"] reads_bytes [of "cu_id u"]
  by (simp add: dec_credential_def l_credential_def reads_def)

lemma reads_verified:
  assumes "list_all factor_Valid (v_factors v)" "factor_set (v_factors v)" "time_ok (v_at v)"
    and "length (l_verified v) \<le> MaxSealedLen"
  shows "reads (dec_verified (v_subject v)) (l_verified v) v"
proof -
  have "length (v_factors v) \<le> length (concat (map (\<lambda>f. l_str (fcode f)) (v_factors v)))"
    by (rule length_concat_ge) simp
  with assms(4) have "length (v_factors v) \<le> MaxSealedLen" "length (v_credentialID v) \<le> MaxSealedLen"
    "length (v_provider v) \<le> MaxSealedLen"
    by (simp_all add: l_verified_def l_factors_def lp_def l_str_def)
  with assms(1-3) show ?thesis
    using reads_factors [of "v_factors v"] reads_bytes [of "v_credentialID v"] reads_bool [of "v_identifies v"]
      reads_str [of "v_provider v"] reads_time [of "v_at v"]
    by (simp add: dec_verified_def l_verified_def reads_def)
qed

section \<open>Whole values\<close>

text \<open>The values the decoder can return: what the checks of the codec accept, over canonical fields.\<close>

definition attrs_sealable :: "session_attrs \<Rightarrow> bool" where
  "attrs_sealable a \<longleftrightarrow>
     a_version a = codecVersion \<and> checkAttrs a = Ok () \<and> valid_tenant (s_tenant (a_subject a)) \<and>
     factor_set (a_factors a) \<and> list_all factor_Valid (a_factors a)"

definition pending_sealable :: "pending \<Rightarrow> bool" where
  "pending_sealable p \<longleftrightarrow>
     p_version p = codecVersion \<and> checkPending p = Ok () \<and> valid_tenant (p_tenant p) \<and>
     p_subject p = (if pending_Bound p then \<lparr>s_tenant = p_tenant p, s_user = s_user (p_subject p)\<rparr>
                    else zero_subject) \<and>
     list_all (\<lambda>v. v_subject v = p_subject p \<and> factor_set (v_factors v)) (p_verified p)"

lemma length_elem_le: "x \<in> set xs \<Longrightarrow> length (l x) \<le> length (concat (map l xs))"
  by (induction xs) auto

lemma l_credential_not_Nil [simp]: "l_credential u \<noteq> []"
  by (simp add: l_credential_def)

lemma l_verified_not_Nil [simp]: "l_verified v \<noteq> []"
  by (simp add: l_verified_def l_factors_def)

lemma checkAttrs_Ok:
  "checkAttrs a = Ok u \<longleftrightarrow>
     a_lineage a \<noteq> uuid_Nil \<and> \<not> subject_IsZero (a_subject a) \<and> hasRole (a_factors a) RolePrimary \<and>
     transport_Valid (a_transport a) \<and>
     (\<forall>u \<in> set (a_credentialIDs a).
        cu_factor u \<in> {FactorPasskey, FactorPasskeyStepUp} \<and> cu_id u \<noteq> [] \<and> cu_factor u \<in> set (a_factors a))"
  by (auto simp: checkAttrs_def list_ex_iff)

lemma checkVerifieds_Ok:
  "checkVerifieds vs = Ok u \<longleftrightarrow>
     (\<forall>v \<in> set vs. \<not> time_IsZero (v_at v) \<and>
        checkVerifiedShape (v_factors v) (v_credentialID v) (v_identifies v) (v_provider v) = Ok ())"
  by (induction vs) (auto split: result.splits)

lemma checkPending_Ok:
  "checkPending p = Ok u \<longleftrightarrow>
     transport_Valid (p_transport p) \<and> \<not> time_IsZero (p_expiresAt p) \<and>
     (p_verified p \<noteq> [] \<longrightarrow> pending_Bound p) \<and>
     (\<forall>v \<in> set (p_verified p). \<not> time_IsZero (v_at v) \<and>
        checkVerifiedShape (v_factors v) (v_credentialID v) (v_identifies v) (v_provider v) = Ok ())"
  by (auto simp: checkPending_def checkVerifieds_Ok)

lemma shape_valid:
  "checkVerifiedShape fs c i pr = Ok () \<Longrightarrow> list_all factor_Valid fs"
  by (simp add: checkVerifiedShape_Ok_iff shape_ok_def)

lemma reads_attrs:
  assumes a: "attrs_sealable a" and t: "attrs_times_ok a" and len: "length (l_attrs a) \<le> MaxSealedLen"
  shows "reads dec_attrs (l_attrs a) a"
proof -
  let ?cs = "a_credentialIDs a"
  have n: "length ?cs \<le> length (concat (map l_credential ?cs))"
    and m: "length (a_factors a) \<le> length (concat (map (\<lambda>f. l_str (fcode f)) (a_factors a)))"
    by (intro length_concat_ge; simp)+
  with len have bounds: "length (a_factors a) \<le> MaxSealedLen" "length ?cs \<le> MaxSealedLen"
    "length (concat (map l_credential ?cs)) \<le> MaxSealedLen"
    "length (a_returnTo a) \<le> MaxSealedLen" "length (a_provider a) \<le> MaxSealedLen"
    by (simp_all add: l_attrs_def l_factors_def lp_def l_str_def)
  have creds: "reads (dec_times (length ?cs) dec_credential) (concat (map l_credential ?cs)) ?cs"
  proof (intro reads_times reads_credential)
    fix u assume u: "u \<in> set ?cs"
    with a show "factor_Valid (cu_factor u)"
      by (auto simp: attrs_sealable_def checkAttrs_Ok list_all_iff)
    from bounds(3) length_elem_le [OF u, of l_credential] show "length (cu_id u) \<le> MaxSealedLen"
      by (simp add: l_credential_def lp_def)
  qed
  have "run_state dec_count (decoder_at (append_uvarint (length ?cs) @ concat (map l_credential ?cs) @ r)) =
      (length ?cs, decoder_at (concat (map l_credential ?cs) @ r))" for r
    using n bounds(2) by (intro run_count) simp_all
  with a t bounds creds show ?thesis
    using reads_uuid [of "a_lineage a"] reads_factors [of "a_factors a"]
      reads_subject [of "s_tenant (a_subject a)" "s_user (a_subject a)"]
      reads_time [of "a_primaryAt a"] reads_time [of "a_secondAt a"] reads_u64 [of "a_epoch a"]
      reads_bool [of "a_mustChange a"] reads_bool [of "a_remember a"] reads_str [of "a_returnTo a"]
      reads_transport [of "a_transport a"] reads_str [of "a_provider a"]
      reads_time [of "a_createdAt a"] reads_time [of "a_claimsFetchedAt a"]
    by (simp add: attrs_sealable_def attrs_times_ok_def dec_attrs_def l_attrs_def reads_def)
qed

lemma reads_pending:
  assumes p: "pending_sealable p" and t: "pending_times_ok p" and len: "length (l_pending p) \<le> MaxSealedLen"
  shows "reads dec_pending (l_pending p) p"
proof -
  let ?vs = "p_verified p" and ?s = "\<lparr>s_tenant = p_tenant p, s_user = s_user (p_subject p)\<rparr>"
  have n: "length ?vs \<le> length (concat (map l_verified ?vs))"
    by (intro length_concat_ge) simp
  with len have bounds: "length ?vs \<le> MaxSealedLen" "length (concat (map l_verified ?vs)) \<le> MaxSealedLen"
    "length (p_returnTo p) \<le> MaxSealedLen" "length (p_provider p) \<le> MaxSealedLen"
    "length (p_bindHash p) \<le> MaxSealedLen"
    by (simp_all add: l_pending_def lp_def l_str_def)
  have subj: "(if \<not> subject_IsZero ?s then ?s else zero_subject) = p_subject p"
    using p by (auto simp: pending_sealable_def pending_Bound_def subject_IsZero_def split: if_splits)
  have vs: "reads (dec_times (length ?vs) (dec_verified (p_subject p))) (concat (map l_verified ?vs)) ?vs"
  proof (intro reads_times)
    fix v assume v: "v \<in> set ?vs"
    with p t have "list_all factor_Valid (v_factors v)" "factor_set (v_factors v)" "time_ok (v_at v)"
      and s: "v_subject v = p_subject p"
      by (auto simp: pending_sealable_def pending_times_ok_def checkPending_Ok list_all_iff
            dest!: shape_valid)
    moreover have "length (l_verified v) \<le> MaxSealedLen"
      using bounds(2) length_elem_le [OF v, of l_verified] by simp
    ultimately show "reads (dec_verified (p_subject p)) (l_verified v) v"
      using reads_verified [of v] by simp
  qed
  have "run_state dec_count (decoder_at (append_uvarint (length ?vs) @ concat (map l_verified ?vs) @ r)) =
      (length ?vs, decoder_at (concat (map l_verified ?vs) @ r))" for r
    using n bounds(1) by (intro run_count) simp_all
  with p t bounds vs show ?thesis
    using reads_subject [of "p_tenant p" "s_user (p_subject p)"] reads_u64 [of "p_epochAtBind p"]
      reads_bool [of "p_remember p"] reads_str [of "p_returnTo p"] reads_transport [of "p_transport p"]
      reads_str [of "p_provider p"] reads_uuid [of "p_reauthOf p"] reads_bytes [of "p_bindHash p"]
      reads_time [of "p_expiresAt p"]
    by (simp add: pending_sealable_def pending_times_ok_def dec_pending_def l_pending_def reads_def subj
          Let_def)
qed

section \<open>What the decoder can return\<close>

text \<open>
  Whatever the bytes, also on failure, the decoder hands out sorted sets of declared factors and
  parsed tenants only.
\<close>

lemma dec_factors_loop_set:
  "factor_set out \<Longrightarrow> list_all factor_Valid out \<Longrightarrow> run_state (dec_factors_loop n out) d = (fs, d') \<Longrightarrow>
   factor_set fs \<and> list_all factor_Valid fs"
proof (induction n arbitrary: out d)
  case (Suc n)
  obtain f d1 where f: "run_state dec_factor d = (f, d1)" by fastforce
  show ?case
  proof (cases "d_err d1 = None \<and> (out = [] \<or> fcode (last out) < fcode f)")
    case True
    have "factor_Valid f"
      using f True by (auto simp: dec_factor_def dec_failed_def dec_fail_def
          dest: FactorByCode_Ok split: prod.splits if_splits result.splits)
    moreover have "factor_set (out @ [f])"
    proof (cases out rule: rev_cases)
      case (snoc xs x)
      with True Suc.prems(1) show ?thesis
        by (auto simp: factor_set_strict sorted_wrt_append dest: less_trans)
    qed (simp add: factor_set_def)
    moreover have "run_state (dec_factors_loop n (out @ [f])) d1 = (fs, d')"
      using Suc.prems(3) f True by (simp add: dec_failed_def not_le split: if_splits)
    ultimately show ?thesis using Suc.IH [of "out @ [f]" d1] Suc.prems(2) by simp
  next
    case False
    with Suc.prems(3) f show ?thesis
      by (auto simp: dec_failed_def not_le split: if_splits prod.splits)
  qed
qed simp

lemma dec_factors_set:
  "factor_set (fst (run_state dec_factors d)) \<and> list_all factor_Valid (fst (run_state dec_factors d))"
  using dec_factors_loop_set [of "[]"] by (simp add: dec_factors_def split: prod.splits) (metis prod.collapse)

lemma dec_subject_tenant: "valid_tenant (s_tenant (fst (run_state dec_subject d)))"
  by (auto simp: dec_subject_def valid_tenant_def zero_subject_def ParseTenantID_def
        split: prod.splits result.splits if_splits)

lemma dec_times_mem:
  "x \<in> set (fst (run_state (dec_times n m) d)) \<Longrightarrow> \<exists>d'. x = fst (run_state m d')"
proof (induction n arbitrary: d)
  case (Suc n)
  then show ?case by (auto split: prod.splits) (metis fst_conv)+
qed simp

lemma dec_attrs_fields:
  "\<exists>d1 d2. a_version (fst (run_state dec_attrs d)) = codecVersion \<and>
     a_subject (fst (run_state dec_attrs d)) = fst (run_state dec_subject d1) \<and>
     a_factors (fst (run_state dec_attrs d)) = fst (run_state dec_factors d2)"
  by (simp add: dec_attrs_def split: prod.splits) (metis fst_conv)

lemma dec_attrs_sealable:
  "run_state dec_attrs d = (a, d') \<Longrightarrow> checkAttrs a = Ok () \<Longrightarrow> attrs_sealable a"
  using dec_attrs_fields [of d] dec_factors_set dec_subject_tenant by (auto simp: attrs_sealable_def)

lemma dec_verified_fields:
  "v_subject (fst (run_state (dec_verified s) d)) = s \<and> factor_set (v_factors (fst (run_state (dec_verified s) d)))"
  using dec_factors_set by (simp add: dec_verified_def split: prod.splits) (metis fst_conv)

lemma dec_pending_fields:
  "\<exists>d1 n d2 s. s = fst (run_state dec_subject d1) \<and>
     p_version (fst (run_state dec_pending d)) = codecVersion \<and>
     p_tenant (fst (run_state dec_pending d)) = s_tenant s \<and>
     p_subject (fst (run_state dec_pending d)) = (if subject_IsZero s then zero_subject else s) \<and>
     p_verified (fst (run_state dec_pending d)) =
       fst (run_state (dec_times n (dec_verified (p_subject (fst (run_state dec_pending d))))) d2)"
  by (simp add: dec_pending_def Let_def split: prod.splits) (metis fst_conv)

lemma dec_pending_sealable:
  assumes run: "run_state dec_pending d = (p, d')" and chk: "checkPending p = Ok ()"
  shows "pending_sealable p"
proof -
  obtain d1 n d2 s where f: "s = fst (run_state dec_subject d1)" "p_version p = codecVersion"
    "p_tenant p = s_tenant s" "p_subject p = (if subject_IsZero s then zero_subject else s)"
    "p_verified p = fst (run_state (dec_times n (dec_verified (p_subject p))) d2)"
    using dec_pending_fields [of d] run by auto
  have "list_all (\<lambda>v. v_subject v = p_subject p \<and> factor_set (v_factors v)) (p_verified p)"
    unfolding list_all_iff using dec_times_mem dec_verified_fields f(5) by (metis (no_types, lifting))
  moreover have "valid_tenant (p_tenant p)" using dec_subject_tenant f(1,3) by simp
  moreover have "p_subject p = (if pending_Bound p then \<lparr>s_tenant = p_tenant p, s_user = s_user (p_subject p)\<rparr>
                    else zero_subject)"
    using f(3,4) by (auto simp: pending_Bound_def zero_subject_def subject_IsZero_def)
  ultimately show ?thesis using f(2) chk by (simp add: pending_sealable_def)
qed

section \<open>Unsealing inverts sealing\<close>

lemma newDecoder_Ok:
  "length b \<le> MaxSealedLen - 2 \<Longrightarrow> newDecoder (codecVersion # tag # b) tag = Ok (decoder_at b)"
  by (simp add: newDecoder_def decoder_at_def MaxSealedLen_def)

lemma canonical_Ok: "canonical b r = Ok u \<longleftrightarrow> r = Ok (Sealed b)"
  by (auto simp: canonical_def sealed.expand split: result.splits)

lemma Unseal_iff: "Unseal s = Ok a \<longleftrightarrow> attrs_sealable a \<and> Seal a = Ok s"
proof
  assume "Unseal s = Ok a"
  then obtain d0 d where "run_state dec_attrs d0 = (a, d)" "checkAttrs a = Ok ()"
    "canonical (sealed_b s) (Seal a) = Ok ()"
    by (auto simp: Unseal_def split: result.splits prod.splits)
  then show "attrs_sealable a \<and> Seal a = Ok s"
    using dec_attrs_sealable by (auto simp: canonical_Ok)
next
  assume a: "attrs_sealable a \<and> Seal a = Ok s"
  then have s: "s = Sealed (codecVersion # tagAttrs # l_attrs a)" and t: "attrs_times_ok a"
    and len: "length (l_attrs a) + 2 \<le> MaxSealedLen" and chk: "checkAttrs a = Ok ()"
    by (auto simp: Seal_layout attrs_sealable_def split: if_splits result.splits)
  from len have "newDecoder (sealed_b s) tagAttrs = Ok (decoder_at (l_attrs a))"
    unfolding s sealed.sel by (intro newDecoder_Ok) simp
  moreover have "run_state dec_attrs (decoder_at (l_attrs a)) = (a, decoder_at [])"
    using reads_attrs [OF _ t] a len by (simp add: reads_def) (metis append_Nil2 add_leD1)
  ultimately show "Unseal s = Ok a"
    using a chk by (simp add: Unseal_def dec_done_def decoder_at_def canonical_def s)
qed

lemma UnsealPending_iff: "UnsealPending s = Ok p \<longleftrightarrow> pending_sealable p \<and> SealPending p = Ok s"
proof
  assume "UnsealPending s = Ok p"
  then obtain d0 d where "run_state dec_pending d0 = (p, d)" "checkPending p = Ok ()"
    "canonical (sealed_b s) (SealPending p) = Ok ()"
    by (auto simp: UnsealPending_def split: result.splits prod.splits)
  then show "pending_sealable p \<and> SealPending p = Ok s"
    using dec_pending_sealable by (auto simp: canonical_Ok)
next
  assume p: "pending_sealable p \<and> SealPending p = Ok s"
  then have s: "s = Sealed (codecVersion # tagPending # l_pending p)" and t: "pending_times_ok p"
    and len: "length (l_pending p) + 2 \<le> MaxSealedLen" and chk: "checkPending p = Ok ()"
    by (auto simp: SealPending_layout pending_sealable_def split: if_splits result.splits)
  from len have "newDecoder (sealed_b s) tagPending = Ok (decoder_at (l_pending p))"
    unfolding s sealed.sel by (intro newDecoder_Ok) simp
  moreover have "run_state dec_pending (decoder_at (l_pending p)) = (p, decoder_at [])"
    using reads_pending [OF _ t] p len by (simp add: reads_def) (metis append_Nil2 add_leD1)
  ultimately show "UnsealPending s = Ok p"
    using p chk by (simp add: UnsealPending_def dec_done_def decoder_at_def canonical_def s)
qed

lemma attrs_ok_sealable: "attrs_ok a \<Longrightarrow> attrs_sealable a"
  by (simp add: attrs_ok_def attrs_sealable_def checkAttrs_Ok)

lemma pending_inv_sealable: "pending_inv p \<Longrightarrow> \<not> time_IsZero (p_expiresAt p) \<Longrightarrow> pending_sealable p"
  by (cases "p_subject p")
    (auto simp: pending_inv_def pending_sealable_def checkPending_Ok verified_ok_def list_all_iff split: if_splits)

end
