(* ===== verification/Codec_Properties.thy ===== *)
theory Codec_Properties
  imports Codec_Laws Core_Properties
begin

text \<open>The guarantees of the codec for the values the transitions of the core produce.\<close>

lemma codec_tags: "codecVersion \<noteq> 0" "tagAttrs \<noteq> tagPending"
  by (simp_all add: codecVersion_def tagAttrs_def tagPending_def)

lemma length_lp: "length (lp p) = length (append_uvarint (length p)) + length p"
  by (simp add: lp_def)

lemmas layout_len = l_attrs_def l_pending_def l_verified_def l_str_def l_bool_def l_time_def l_factors_def
  length_lp append_uvarint.simps

lemma demo_seal: "Seal (demo_attrs [FactorPassword, FactorTOTP] 3000) =
   Ok (Sealed (codecVersion # tagAttrs # l_attrs (demo_attrs [FactorPassword, FactorTOTP] 3000)))"
proof -
  let ?a = "demo_attrs [FactorPassword, FactorTOTP] 3000"
  have "checkAttrs ?a = Ok ()" "attrs_times_ok ?a" "a_version ?a \<noteq> 0" by code_simp+
  moreover have "length (l_attrs ?a) + 2 \<le> MaxSealedLen"
    by (simp add: layout_len demo_attrs_def demo_subject_def factor_defs MaxSealedLen_def)
  ultimately show ?thesis by (simp add: Seal_layout)
qed

lemma demo_seal_pending: "SealPending (demo_pending [demo_pwd, demo_totp]) =
   Ok (Sealed (codecVersion # tagPending # l_pending (demo_pending [demo_pwd, demo_totp])))"
proof -
  let ?p = "demo_pending [demo_pwd, demo_totp]"
  have "checkPending ?p = Ok ()" "pending_times_ok ?p" "p_version ?p \<noteq> 0" by code_simp+
  moreover have "length (l_pending ?p) + 2 \<le> MaxSealedLen"
    by (simp add: layout_len demo_pending_def demo_subject_def demo_verified_def factor_defs MaxSealedLen_def)
  ultimately show ?thesis by (simp add: SealPending_layout)
qed

text \<open>
  C7. Every session the transitions can produce is either sealed to bytes that unseal to exactly that
  session, or refused as malformed for one of the two documented reasons: a time outside the range of
  64-bit Unix nanoseconds, or an encoding longer than \<^const>\<open>MaxSealedLen\<close>. Sealing a reachable session never
  fails the validity checks and never panics.
\<close>

theorem session_codec_roundtrip:
  assumes "session_reach a"
  shows "case Seal a of
      Ok s \<Rightarrow> Unseal s = Ok a
    | Err e \<Rightarrow> errors_Is e (CoreErr ErrMalformed) \<and>
               (\<not> attrs_times_ok a \<or> length (l_attrs a) + 2 > MaxSealedLen)
    | Panic \<Rightarrow> False"
  using attrs_ok_sealable [OF session_reach_ok [OF assms]] codec_tags(1)
  by (auto simp: Seal_layout Unseal_iff attrs_sealable_def range_err_def split: result.splits)

theorem session_codec_roundtrip_witness:
  "Unseal (Sealed (codecVersion # tagAttrs # l_attrs (demo_attrs [FactorPassword, FactorTOTP] 3000))) =
     Ok (demo_attrs [FactorPassword, FactorTOTP] 3000)"
  using session_codec_roundtrip [OF demo_session] demo_seal by simp

text \<open>
  C8. Unsealing accepts canonical encodings of valid sessions only. Whatever the bytes, if they unseal
  to a session then they are the encoding \<^const>\<open>Seal\<close> gives it, no other bytes unseal to it, and the same
  bytes do not unseal as a pending; the session carries the codec version, a lineage, a bound subject in
  a valid tenant, a valid transport and a sorted duplicate-free set of declared factors with a primary one.
\<close>

theorem unseal_canonical:
  assumes u: "Unseal s = Ok a"
  shows "Seal a = Ok s \<and> (\<forall>s'. Unseal s' = Ok a \<longleftrightarrow> s' = s) \<and> (\<forall>p. UnsealPending s \<noteq> Ok p) \<and>
    a_version a = codecVersion \<and> a_lineage a \<noteq> uuid_Nil \<and> \<not> subject_IsZero (a_subject a) \<and>
    valid_tenant (s_tenant (a_subject a)) \<and> transport_Valid (a_transport a) \<and>
    factor_set (a_factors a) \<and> list_all factor_Valid (a_factors a) \<and> hasRole (a_factors a) RolePrimary"
proof -
  from u have a: "attrs_sealable a" and s: "Seal a = Ok s" by (simp_all add: Unseal_iff)
  then have "s = Sealed (codecVersion # tagAttrs # l_attrs a)"
    by (auto simp: Seal_layout split: if_splits result.splits)
  then have "UnsealPending s \<noteq> Ok p" for p
    using codec_tags(2) by (simp add: UnsealPending_def newDecoder_def)
  moreover have "Unseal s' = Ok a \<longleftrightarrow> s' = s" for s'
    using a s by (auto simp: Unseal_iff)
  ultimately show ?thesis
    using a s by (auto simp: attrs_sealable_def checkAttrs_Ok)
qed

theorem unseal_canonical_witness:
  "Seal (demo_attrs [FactorPassword, FactorTOTP] 3000) =
     Ok (Sealed (codecVersion # tagAttrs # l_attrs (demo_attrs [FactorPassword, FactorTOTP] 3000)))"
proof -
  let ?a = "demo_attrs [FactorPassword, FactorTOTP] 3000"
  have "Unseal (Sealed (codecVersion # tagAttrs # l_attrs ?a)) = Ok ?a"
    using attrs_ok_sealable [OF session_reach_ok [OF demo_session]] demo_seal by (simp add: Unseal_iff)
  from unseal_canonical [OF this] show ?thesis by blast
qed

text \<open>
  C9. The same for the pre-session journey: a reachable pending with a set expiry is sealed to bytes
  that unseal to exactly that pending, bound subject, collected verifications and bind hash included,
  or refused for a time or size out of range.
\<close>

theorem pending_codec_roundtrip:
  assumes "pending_reach p" and "\<not> time_IsZero (p_expiresAt p)"
  shows "case SealPending p of
      Ok s \<Rightarrow> UnsealPending s = Ok p
    | Err e \<Rightarrow> errors_Is e (CoreErr ErrMalformed) \<and>
               (\<not> pending_times_ok p \<or> length (l_pending p) + 2 > MaxSealedLen)
    | Panic \<Rightarrow> False"
  using pending_inv_sealable [OF pending_reach_inv [OF assms(1)] assms(2)] codec_tags(1)
  by (auto simp: SealPending_layout UnsealPending_iff pending_sealable_def range_err_def split: result.splits)

theorem pending_codec_roundtrip_witness:
  "UnsealPending (Sealed (codecVersion # tagPending # l_pending (demo_pending [demo_pwd, demo_totp]))) =
     Ok (demo_pending [demo_pwd, demo_totp])"
proof -
  let ?p = "demo_pending [demo_pwd, demo_totp]"
  have "\<not> time_IsZero (p_expiresAt ?p)" by code_simp
  then show ?thesis using pending_codec_roundtrip [OF demo_reach(2)] demo_seal_pending by simp
qed

end
