(* ===== verification/Sessions_Record.thy ===== *)
theory Sessions_Record
  imports Core_Codec
begin

text \<open>
  Rows of the stateful session store: \<^verbatim>\<open>store/sessions/record.go\<close> and the request types of
  \<^verbatim>\<open>store/sessions/store.go\<close>. A \<^verbatim>\<open>Record\<close> carries the fields of a \<^verbatim>\<open>Row\<close> under unexported names, so it
  is modelled as a row that went through \<^verbatim>\<open>Restore\<close>.
\<close>

definition maxClockSkew :: duration where "maxClockSkew = Minute"
definition HashLen :: nat where "HashLen = 32"
definition MaxFingerprintLen :: nat where "MaxFingerprintLen = 64"
definition MaxAppClaimsLen :: nat where "MaxAppClaimsLen = 16384"

record srow =
  w_ID :: uuid
  w_TokenHash :: bytes
  w_Subject :: subject
  w_Lineage :: uuid
  w_Sealed :: sealed
  w_AppClaims :: bytes
  w_SecurityEpoch :: u64
  w_ClientFingerprint :: bytes
  w_IdleExpiresAt :: instant
  w_AbsoluteExpiresAt :: instant
  w_CheckedAt :: instant
  w_CreatedAt :: instant

datatype srecord = SRecord (srec: srow)

record sspec =
  sp_ID :: uuid
  sp_TokenHash :: bytes
  sp_Attrs :: session_attrs
  sp_AppClaims :: bytes
  sp_ClientFingerprint :: bytes
  sp_IdleTTL :: duration
  sp_MaxLifetime :: duration
  sp_Now :: instant

definition srecord_IsZero :: "srecord \<Rightarrow> bool" where
  "srecord_IsZero r \<longleftrightarrow> w_ID (srec r) = uuid_Nil"

definition sessions_checkRow :: "srow \<Rightarrow> unit result" where
  "sessions_checkRow r =
     (if w_ID r = uuid_Nil \<or> w_Lineage r = uuid_Nil then Err (errors_New ''id and lineage are required'')
      else if length (w_TokenHash r) \<noteq> HashLen then Err (errors_New ''token hash must be a SHA-256 digest'')
      else if subject_IsZero (w_Subject r) then Err (errors_New ''subject is required'')
      else if sealed_IsZero (w_Sealed r) then Err (errors_New ''sealed session attributes are required'')
      else if length (w_AppClaims r) > MaxAppClaimsLen then Err (errors_New ''application claims are too large'')
      else if length (w_ClientFingerprint r) > MaxFingerprintLen
      then Err (errors_New ''client fingerprint is too long'')
      else if time_IsZero (w_CreatedAt r) \<or> time_IsZero (w_CheckedAt r) \<or> time_IsZero (w_IdleExpiresAt r) \<or>
              time_IsZero (w_AbsoluteExpiresAt r)
      then Err (errors_New ''creation, check and expiry times are required'')
      else if w_CreatedAt r > w_AbsoluteExpiresAt r \<or> w_CheckedAt r < w_CreatedAt r - maxClockSkew
      then Err (errors_New ''creation must not follow the absolute expiry and the last check must not precede creation'')
      else if \<not> w_IdleExpiresAt r > w_CheckedAt r \<or> w_IdleExpiresAt r > w_AbsoluteExpiresAt r
      then Err (errors_New ''idle expiry must fall after the last check and within the absolute lifetime'')
      else Ok ())"

definition sessions_Restore :: "srow \<Rightarrow> srecord result" where
  "sessions_Restore r =
     (case sessions_checkRow r of
        Err e \<Rightarrow> Err (errors_Join [SessionsErr ErrInvalidRecord] e)
      | Panic \<Rightarrow> Panic
      | Ok _ \<Rightarrow> Ok (SRecord r))"

text \<open>The sealer is an argument of the code; \<open>None\<close> is the nil function.\<close>

definition sessions_NewRecord :: "sspec \<Rightarrow> (session_attrs \<Rightarrow> sealed result) option \<Rightarrow> srecord result" where
  "sessions_NewRecord s seal =
     (if attrs_IsZero (sp_Attrs s) \<or> time_IsZero (a_createdAt (sp_Attrs s))
      then Err (errors_Join [SessionsErr ErrInvalidRecord] (errors_New ''session attributes are not set''))
      else case seal of
        None \<Rightarrow> Err (errors_Join [SessionsErr ErrInvalidRecord] (errors_New ''a sealer is required''))
      | Some f \<Rightarrow>
         (if sp_IdleTTL s \<le> 0 \<or> sp_MaxLifetime s \<le> 0 \<or> time_IsZero (sp_Now s)
          then Err (errors_Join [SessionsErr ErrInvalidRecord]
                      (errors_New ''lifetimes and writing time are required''))
          else if sp_Now s < a_createdAt (sp_Attrs s) - maxClockSkew
          then Err (errors_Join [SessionsErr ErrInvalidRecord]
                      (errors_New ''writing time precedes the lineage admission''))
          else
            (let fin = a_createdAt (sp_Attrs s) + sp_MaxLifetime s in
             if \<not> sp_Now s < fin then Err [SessionsErr ErrLifetimeExceeded]
             else
               (let idle0 = sp_Now s + sp_IdleTTL s;
                    idle = (if idle0 > fin then fin else idle0)
                in case f (sp_Attrs s) of
                     Err e \<Rightarrow> Err (errors_Join [SessionsErr ErrInvalidRecord] e)
                   | Panic \<Rightarrow> Panic
                   | Ok sealed \<Rightarrow>
                       sessions_Restore
                         \<lparr>w_ID = sp_ID s, w_TokenHash = sp_TokenHash s,
                          w_Subject = a_subject (sp_Attrs s), w_Lineage = a_lineage (sp_Attrs s),
                          w_Sealed = sealed, w_AppClaims = sp_AppClaims s,
                          w_SecurityEpoch = a_epoch (sp_Attrs s),
                          w_ClientFingerprint = sp_ClientFingerprint s,
                          w_IdleExpiresAt = idle, w_AbsoluteExpiresAt = fin,
                          w_CheckedAt = sp_Now s, w_CreatedAt = sp_Now s\<rparr>))))"

record rotate_request =
  rq_Previous :: bytes
  rq_Next :: srecord

record replace_request =
  rp_Previous :: uuid
  rp_Next :: srecord

record srevocation =
  sr_Tenant :: tenant_id
  sr_Session :: uuid
  sr_At :: instant

section \<open>Laws\<close>

lemma sessions_checkRow_not_Panic [simp]: "sessions_checkRow r \<noteq> Panic"
  by (simp add: sessions_checkRow_def)

lemma sessions_Restore_Ok: "sessions_Restore r = Ok x \<longleftrightarrow> sessions_checkRow r = Ok () \<and> x = SRecord r"
  by (auto simp: sessions_Restore_def split: result.splits)

lemma sessions_Restore_not_Panic [simp]: "sessions_Restore r \<noteq> Panic"
  by (auto simp: sessions_Restore_def split: result.splits)

lemma sessions_checkRow_Ok:
  "sessions_checkRow r = Ok u \<longleftrightarrow>
     w_ID r \<noteq> uuid_Nil \<and> w_Lineage r \<noteq> uuid_Nil \<and> length (w_TokenHash r) = HashLen \<and>
     \<not> subject_IsZero (w_Subject r) \<and> \<not> sealed_IsZero (w_Sealed r) \<and>
     length (w_AppClaims r) \<le> MaxAppClaimsLen \<and> length (w_ClientFingerprint r) \<le> MaxFingerprintLen \<and>
     \<not> time_IsZero (w_CreatedAt r) \<and> \<not> time_IsZero (w_CheckedAt r) \<and> \<not> time_IsZero (w_IdleExpiresAt r) \<and>
     \<not> time_IsZero (w_AbsoluteExpiresAt r) \<and> w_CreatedAt r \<le> w_AbsoluteExpiresAt r \<and>
     w_CreatedAt r - maxClockSkew \<le> w_CheckedAt r \<and> w_CheckedAt r < w_IdleExpiresAt r \<and>
     w_IdleExpiresAt r \<le> w_AbsoluteExpiresAt r"
  by (auto simp: sessions_checkRow_def)

end
