(* ===== verification/Feed.thy ===== *)
theory Feed
  imports Prelude
begin

text \<open>
  The change feed both revocation stores keep and its cursor: \<^verbatim>\<open>store.Cursor\<close> of \<^verbatim>\<open>store/store.go\<close> and the
  body of \<^verbatim>\<open>RevocationsSince\<close>, which is the same in \<^verbatim>\<open>store/sessions/memory\<close> and \<^verbatim>\<open>store/tokens/memory\<close>. The
  locale states what a follower relies on, so each store proves it once by interpretation.

  Positions are natural numbers: the counter starts at 0 and grows by one per entry, so the 64-bit
  counter of the code stays below its bound for every feed a process can build.
\<close>

section \<open>Cursors and the feed\<close>

datatype cursor = Cursor (position: nat)

definition zero_cursor :: cursor where
  "zero_cursor = Cursor 0"

definition cursor_IsZero :: "cursor \<Rightarrow> bool" where
  "cursor_IsZero c \<longleftrightarrow> position c = 0"

definition cursor_After :: "cursor \<Rightarrow> cursor \<Rightarrow> bool" where
  "cursor_After c o' \<longleftrightarrow> position c > position o'"

record 'a feed_entry =
  fe_seq :: nat
  fe_rev :: 'a
  fe_expires :: instant

text \<open>
  \<^verbatim>\<open>slices.BinarySearchFunc\<close>, with \<open>lt x\<close> for a negative comparison of \<open>x\<close> with the target: the least
  index of the sorted slice whose element is not below the target.
\<close>

function bsearch :: "('a \<Rightarrow> bool) \<Rightarrow> 'a list \<Rightarrow> nat \<Rightarrow> nat \<Rightarrow> nat" where
  "bsearch lt xs i j =
     (if i < j then
        (let h = (i + j) div 2 in
         if lt (xs ! h) then bsearch lt xs (h + 1) j else bsearch lt xs i h)
      else i)"
  by pat_completeness auto
termination by (relation "measure (\<lambda>(lt, xs, i, j). j - i)") auto

declare bsearch.simps [simp del]

definition feed_Since :: "'a feed_entry list \<Rightarrow> cursor \<Rightarrow> 'a list \<times> cursor" where
  "feed_Since feed c =
     (let i = bsearch (\<lambda>r. fe_seq r < position c + 1) feed 0 (length feed);
          tail = drop i feed
      in (map fe_rev tail, foldl (\<lambda>_ r. Cursor (fe_seq r)) c tail))"

text \<open>The loop of \<^verbatim>\<open>ReapExpired\<close> over the feed: the kept entries; the rest is counted.\<close>

definition feed_keep :: "instant \<Rightarrow> 'a feed_entry list \<Rightarrow> 'a feed_entry list" where
  "feed_keep now feed = filter (\<lambda>r. now < fe_expires r) feed"

definition feed_ok :: "'a feed_entry list \<Rightarrow> nat \<Rightarrow> bool" where
  "feed_ok feed n \<longleftrightarrow> sorted_wrt (<) (map fe_seq feed) \<and> (\<forall>e \<in> set feed. 0 < fe_seq e \<and> fe_seq e \<le> n)"

section \<open>Binary search finds the boundary\<close>

lemma bsearch_bounds:
  "i \<le> j \<Longrightarrow> i \<le> bsearch lt xs i j \<and> bsearch lt xs i j \<le> j"
proof (induction lt xs i j rule: bsearch.induct)
  case (1 lt xs i j)
  show ?case
  proof (cases "i < j")
    case True
    then have h: "i \<le> (i + j) div 2" "(i + j) div 2 + 1 \<le> j" by auto
    show ?thesis
      using 1(1) [OF True refl] 1(2) [OF True refl] h True
      by (subst (1 2) bsearch.simps) (auto simp: Let_def)
  qed (use 1 in \<open>simp add: bsearch.simps\<close>)
qed

lemma bsearch_boundary:
  assumes mono: "\<And>p q. p < q \<Longrightarrow> q < length xs \<Longrightarrow> lt (xs ! q) \<Longrightarrow> lt (xs ! p)"
  shows "i \<le> j \<Longrightarrow> j \<le> length xs \<Longrightarrow> (\<And>p. p < i \<Longrightarrow> lt (xs ! p)) \<Longrightarrow>
    (\<And>p. j \<le> p \<Longrightarrow> p < length xs \<Longrightarrow> \<not> lt (xs ! p)) \<Longrightarrow>
    (\<forall>p < bsearch lt xs i j. lt (xs ! p)) \<and>
    (\<forall>p. bsearch lt xs i j \<le> p \<and> p < length xs \<longrightarrow> \<not> lt (xs ! p))"
proof (induction "j - i" arbitrary: i j rule: less_induct)
  case less
  show ?case
  proof (cases "i < j")
    case True
    let ?h = "(i + j) div 2"
    have h: "i \<le> ?h" "?h < j" using True by auto
    show ?thesis
    proof (cases "lt (xs ! ?h)")
      case lt: True
      have below: "lt (xs ! p)" if "p < ?h + 1" for p
        using that lt mono [of p ?h] h less.prems(2) by (cases "p = ?h") auto
      have "bsearch lt xs i j = bsearch lt xs (?h + 1) j"
        using True lt by (subst bsearch.simps) (simp add: Let_def)
      then show ?thesis
        using less.hyps [of j "?h + 1"] h below less.prems by auto
    next
      case nlt: False
      have above: "\<not> lt (xs ! p)" if "?h \<le> p" "p < length xs" for p
        using that nlt mono [of ?h p] by (cases "p = ?h") auto
      have "bsearch lt xs i j = bsearch lt xs i ?h"
        using True nlt by (subst bsearch.simps) (simp add: Let_def)
      then show ?thesis
        using less.hyps [of ?h i] h above less.prems by auto
    qed
  next
    case False
    with less.prems show ?thesis by (auto simp: bsearch.simps)
  qed
qed

lemma feed_drop_filter:
  assumes "sorted_wrt (<) (map fe_seq feed)"
  shows "drop (bsearch (\<lambda>r. fe_seq r < n) feed 0 (length feed)) feed = filter (\<lambda>r. n \<le> fe_seq r) feed"
proof -
  let ?i = "bsearch (\<lambda>r. fe_seq r < n) feed 0 (length feed)"
  have mono: "fe_seq (feed ! p) < fe_seq (feed ! q)" if "p < q" "q < length feed" for p q
    using assms that by (auto simp: sorted_wrt_iff_nth_less)
  have b: "(\<forall>p < ?i. fe_seq (feed ! p) < n) \<and> (\<forall>p. ?i \<le> p \<and> p < length feed \<longrightarrow> \<not> fe_seq (feed ! p) < n)"
    by (rule bsearch_boundary) (use mono in \<open>force+\<close>)
  have le: "?i \<le> length feed" using bsearch_bounds [of 0 "length feed"] by blast
  have "filter (\<lambda>r. n \<le> fe_seq r) (take ?i feed) = []"
    using b le by (auto simp: filter_empty_conv in_set_conv_nth not_le)
  moreover have "filter (\<lambda>r. n \<le> fe_seq r) (drop ?i feed) = drop ?i feed"
    using b by (auto simp: filter_id_conv in_set_conv_nth not_less)
  ultimately show ?thesis
    by (metis append_Nil append_take_drop_id filter_append)
qed

lemma foldl_cursor: "foldl (\<lambda>_ r. Cursor (fe_seq r)) c xs = (if xs = [] then c else Cursor (fe_seq (last xs)))"
  by (induction xs rule: rev_induct) simp_all

lemma feed_Since_filter:
  assumes "feed_ok feed n"
  shows "feed_Since feed c =
    (let new = filter (\<lambda>r. position c < fe_seq r) feed
     in (map fe_rev new, if new = [] then c else Cursor (fe_seq (last new))))"
proof -
  have "drop (bsearch (\<lambda>r. fe_seq r < position c + 1) feed 0 (length feed)) feed =
      filter (\<lambda>r. position c < fe_seq r) feed"
    using feed_drop_filter [of feed "position c + 1"] assms by (simp add: feed_ok_def Suc_le_eq)
  then show ?thesis by (simp only: feed_Since_def Let_def foldl_cursor)
qed

section \<open>Feed operations keep the order\<close>

lemma feed_ok_Nil [simp]: "feed_ok [] n"
  by (simp add: feed_ok_def)

lemma feed_ok_snoc:
  "feed_ok feed n \<Longrightarrow> fe_seq e = n + 1 \<Longrightarrow> feed_ok (feed @ [e]) (n + 1)"
  by (auto simp: feed_ok_def sorted_wrt_append le_less_trans)

lemma feed_ok_filter: "feed_ok feed n \<Longrightarrow> feed_ok (filter P feed) n"
  by (auto simp: feed_ok_def sorted_wrt_map sorted_wrt_filter)

lemma feed_ok_keep: "feed_ok feed n \<Longrightarrow> feed_ok (feed_keep now feed) n"
  by (simp add: feed_keep_def feed_ok_filter)

lemma feed_ok_seq_inj:
  "feed_ok feed n \<Longrightarrow> e \<in> set feed \<Longrightarrow> e' \<in> set feed \<Longrightarrow> fe_seq e = fe_seq e' \<Longrightarrow> e = e'"
  unfolding feed_ok_def sorted_wrt_map
  by (metis (mono_tags, lifting) in_set_conv_nth linorder_neqE_nat order_less_irrefl sorted_wrt_iff_nth_less)

text \<open>
  \<open>feed_grows f n f' n'\<close>: from a feed \<open>f\<close> with counter \<open>n\<close>, entries were dropped and entries numbered
  above \<open>n\<close> were appended.
\<close>

definition feed_grows :: "'a feed_entry list \<Rightarrow> nat \<Rightarrow> 'a feed_entry list \<Rightarrow> nat \<Rightarrow> bool" where
  "feed_grows f n f' n' \<longleftrightarrow> n \<le> n' \<and> (\<forall>e \<in> set f'. e \<in> set f \<or> n < fe_seq e)"

lemma feed_grows_refl [simp]: "feed_grows f n f n"
  by (simp add: feed_grows_def)

lemma feed_grows_trans: "feed_grows f n g m \<Longrightarrow> feed_grows g m h k \<Longrightarrow> feed_grows f n h k"
  by (fastforce simp: feed_grows_def)

lemma feed_grows_snoc: "fe_seq e = n + 1 \<Longrightarrow> feed_grows f n (f @ [e]) (n + 1)"
  by (auto simp: feed_grows_def)

lemma feed_grows_keep: "feed_grows f n (feed_keep now f) n"
  by (auto simp: feed_grows_def feed_keep_def)

section \<open>What a follower relies on\<close>

locale revocation_feed =
  fixes feed :: "'s \<Rightarrow> 'a feed_entry list" and seq :: "'s \<Rightarrow> nat" and inv :: "'s \<Rightarrow> bool"
    and step :: "'s \<Rightarrow> 's \<Rightarrow> bool"
  assumes inv_feed: "inv s \<Longrightarrow> feed_ok (feed s) (seq s)"
    and step_inv: "inv s \<Longrightarrow> step s s' \<Longrightarrow> inv s'"
    and step_grows: "inv s \<Longrightarrow> step s s' \<Longrightarrow> feed_grows (feed s) (seq s) (feed s') (seq s')"
begin

lemma run_inv: "step\<^sup>*\<^sup>* s s' \<Longrightarrow> inv s \<Longrightarrow> inv s'"
  by (induction rule: rtranclp_induct) (auto intro: step_inv)

lemma run_grows: "step\<^sup>*\<^sup>* s s' \<Longrightarrow> inv s \<Longrightarrow> feed_grows (feed s) (seq s) (feed s') (seq s')"
proof (induction rule: rtranclp_induct)
  case (step y z)
  then show ?case using run_inv step_grows feed_grows_trans by metis
qed simp

text \<open>A poll returns exactly the entries after the cursor, in order.\<close>

lemma poll_exact:
  "inv s \<Longrightarrow> fst (feed_Since (feed s) c) = map fe_rev (filter (\<lambda>r. position c < fe_seq r) (feed s))"
  using feed_Since_filter [OF inv_feed] by (simp add: Let_def)

lemma poll_cursor:
  assumes "inv s" "position c \<le> seq s" "feed_Since (feed s) c = (rs, c')"
  shows "position c \<le> position c' \<and> position c' \<le> seq s \<and>
    (\<forall>e \<in> set (feed s). fe_seq e \<le> position c')"
proof -
  let ?new = "filter (\<lambda>r. position c < fe_seq r) (feed s)"
  have ok: "feed_ok (feed s) (seq s)" using inv_feed assms(1) .
  have c': "c' = (if ?new = [] then c else Cursor (fe_seq (last ?new)))"
    using feed_Since_filter [OF ok, of c] assms(3) by (simp add: Let_def)
  show ?thesis
  proof (cases "?new = []")
    case True
    then show ?thesis using c' assms(2) by (auto simp: filter_empty_conv not_less)
  next
    case False
    then have l: "last ?new \<in> set ?new" by (rule last_in_set)
    have srt: "sorted_wrt (\<lambda>x y. fe_seq x < fe_seq y) ?new"
      using ok by (simp add: feed_ok_def sorted_wrt_map sorted_wrt_filter)
    have "fe_seq e \<le> fe_seq (last ?new)" if "e \<in> set ?new" for e
    proof -
      obtain ys where ys: "?new = ys @ [last ?new]" using False by (metis append_butlast_last_id)
      with srt that show ?thesis by (metis (mono_tags, lifting) UnE list.set_intros(1) order.order_iff_strict
            set_ConsD set_append sorted_wrt_append empty_iff list.set(1))
    qed
    then show ?thesis using c' False l ok by (fastforce simp: feed_ok_def not_less)
  qed
qed

text \<open>
  No revocation is missed. A follower that polled up to \<open>c'\<close> at \<open>s\<close> and polls again from \<open>c'\<close> after any
  steps receives every entry still in the feed that it had not been handed at \<open>s\<close> or before.
\<close>

lemma follower_complete:
  assumes "inv s" "position c \<le> seq s" "feed_Since (feed s) c = (rs, c')" "step\<^sup>*\<^sup>* s s'"
    and "e \<in> set (feed s')"
  shows "e \<in> set (feed s) \<or> fe_rev e \<in> set (fst (feed_Since (feed s') c'))"
proof (cases "e \<in> set (feed s)")
  case False
  then have "seq s < fe_seq e"
    using run_grows [OF assms(4,1)] assms(5) by (auto simp: feed_grows_def)
  moreover have "position c' \<le> seq s" using poll_cursor [OF assms(1-3)] by blast
  ultimately have "e \<in> set (filter (\<lambda>r. position c' < fe_seq r) (feed s'))"
    using assms(5) by simp
  then show ?thesis using poll_exact [OF run_inv [OF assms(4,1)], of c'] by auto
qed simp

text \<open>And none is delivered twice.\<close>

lemma follower_once:
  assumes "inv s" "position c \<le> seq s" "feed_Since (feed s) c = (rs, c')" "step\<^sup>*\<^sup>* s s'"
  shows "filter (\<lambda>r. position c' < fe_seq r) (feed s') =
         filter (\<lambda>r. position c' < fe_seq r \<and> r \<notin> set (feed s)) (feed s')"
  using poll_cursor [OF assms(1-3)] by (intro filter_cong) auto

end

end
