(* ===== verification/Sessions_Store.thy ===== *)
theory Sessions_Store
  imports Sessions_Record Feed
begin

text \<open>
  The in-process session store, \<^verbatim>\<open>store/sessions/memory/store.go\<close>: a table of rows by id, an index by token
  digest and the revocation feed. Every method runs under the store's mutex, so it is one step on the
  whole state. \<open>now\<close> is what the store's clock returns when the method reads it, truncated by \<open>store_now\<close>.
\<close>

record sess_store =
  ss_rows :: "(uuid, srow) gomap"
  ss_byHash :: "(bytes, uuid) gomap"
  ss_feed :: "srevocation feed_entry list"
  ss_seq :: nat

definition sessions_New :: sess_store where
  "sessions_New = \<lparr>ss_rows = [], ss_byHash = [], ss_feed = [], ss_seq = 0\<rparr>"

definition store_now :: "instant \<Rightarrow> instant" where
  "store_now now = time_Truncate now Microsecond"

definition sessions_Ping :: "context_err \<Rightarrow> sess_store \<Rightarrow> unit result \<times> sess_store" where
  "sessions_Ping ctx s = with_ctx ctx s (Ok (), s)"

definition live :: "srow \<Rightarrow> instant \<Rightarrow> bool" where
  "live r now \<longleftrightarrow> now < w_IdleExpiresAt r \<and> now < w_AbsoluteExpiresAt r"

definition sessions_end :: "uuid \<Rightarrow> instant \<Rightarrow> sess_store \<Rightarrow> sess_store" where
  "sessions_end i now s =
     (case map_of (ss_rows s) i of
        None \<Rightarrow> s
      | Some r \<Rightarrow>
          s\<lparr>ss_rows := AList.delete i (ss_rows s),
            ss_byHash := AList.delete (w_TokenHash r) (ss_byHash s),
            ss_seq := ss_seq s + 1,
            ss_feed := ss_feed s @
              [\<lparr>fe_seq = ss_seq s + 1,
                fe_rev = \<lparr>sr_Tenant = s_tenant (w_Subject r), sr_Session = i, sr_At = now\<rparr>,
                fe_expires = w_AbsoluteExpiresAt r\<rparr>]\<rparr>)"

definition sessions_endWhere :: "instant \<Rightarrow> (srow \<Rightarrow> bool) \<Rightarrow> sess_store \<Rightarrow> sess_store" where
  "sessions_endWhere now match s =
     (let victims = sort (map fst (filter (\<lambda>(i, r). match r) (ss_rows s)))
      in foldl (\<lambda>s i. sessions_end i now s) s victims)"

definition sessions_EraseTenant ::
  "context_err \<Rightarrow> instant \<Rightarrow> tenant_id \<Rightarrow> sess_store \<Rightarrow> unit result \<times> sess_store" where
  "sessions_EraseTenant ctx clk t s =
     with_ctx ctx s (Ok (), sessions_endWhere (store_now clk) (\<lambda>r. s_tenant (w_Subject r) = t) s)"

definition sessions_ReapExpired ::
  "context_err \<Rightarrow> instant \<Rightarrow> sess_store \<Rightarrow> nat result \<times> sess_store" where
  "sessions_ReapExpired ctx clk s =
     with_ctx ctx s
       (let now = store_now clk;
            dead = filter (\<lambda>(i, r). \<not> live r now) (ss_rows s);
            kept = feed_keep now (ss_feed s)
        in (Ok (length dead + (length (ss_feed s) - length kept)),
            s\<lparr>ss_rows := del_where (\<lambda>i r. \<not> live r now) (ss_rows s),
              ss_byHash := foldl (\<lambda>m (i, r). AList.delete (w_TokenHash r) m) (ss_byHash s) dead,
              ss_feed := kept\<rparr>))"

definition sessions_rowOf :: "srecord \<Rightarrow> srow" where
  "sessions_rowOf r =
     (srec r)\<lparr>w_IdleExpiresAt := time_Truncate (w_IdleExpiresAt (srec r)) Microsecond,
             w_AbsoluteExpiresAt := time_Truncate (w_AbsoluteExpiresAt (srec r)) Microsecond,
             w_CheckedAt := time_Truncate (w_CheckedAt (srec r)) Microsecond,
             w_CreatedAt := time_Truncate (w_CreatedAt (srec r)) Microsecond\<rparr>"

definition sessions_put :: "srow \<Rightarrow> sess_store \<Rightarrow> sess_store" where
  "sessions_put row s =
     s\<lparr>ss_rows := AList.update (w_ID row) row (ss_rows s),
       ss_byHash := AList.update (w_TokenHash row) (w_ID row) (ss_byHash s)\<rparr>"

definition sessions_Create :: "context_err \<Rightarrow> srecord \<Rightarrow> sess_store \<Rightarrow> unit result \<times> sess_store" where
  "sessions_Create ctx r s =
     with_ctx ctx s
       (if srecord_IsZero r then (Err [SessionsErr ErrInvalidRecord], s)
        else
          (let row = sessions_rowOf r in
           case sessions_Restore row of
             Err e \<Rightarrow> (Err e, s)
           | Panic \<Rightarrow> (Panic, s)
           | Ok _ \<Rightarrow>
              (if map_of (ss_rows s) (w_ID row) \<noteq> None then (Err [StoreErr ErrConflict], s)
               else if map_of (ss_byHash s) (w_TokenHash row) \<noteq> None then (Err [StoreErr ErrConflict], s)
               else (Ok (), sessions_put row s))))"

text \<open>\<open>Ok None\<close> is "not found"; the row pointer is dereferenced, so an index without a row panics.\<close>

definition sessions_lookup :: "tenant_id \<Rightarrow> bytes \<Rightarrow> instant \<Rightarrow> sess_store \<Rightarrow> srow option result" where
  "sessions_lookup t h now s =
     (case map_of (ss_byHash s) h of
        None \<Rightarrow> Ok None
      | Some i \<Rightarrow>
          (case map_of (ss_rows s) i of
             None \<Rightarrow> Panic
           | Some r \<Rightarrow> (if s_tenant (w_Subject r) \<noteq> t \<or> \<not> live r now then Ok None else Ok (Some r))))"

definition sessions_Get ::
  "context_err \<Rightarrow> instant \<Rightarrow> tenant_id \<Rightarrow> bytes \<Rightarrow> sess_store \<Rightarrow> srecord result \<times> sess_store" where
  "sessions_Get ctx clk t h s =
     with_ctx ctx s
       (case sessions_lookup t h (store_now clk) s of
          Err e \<Rightarrow> (Err e, s)
        | Panic \<Rightarrow> (Panic, s)
        | Ok None \<Rightarrow> (Err [StoreErr ErrNotFound], s)
        | Ok (Some r) \<Rightarrow> (sessions_Restore r, s))"

definition sessions_Touch ::
  "context_err \<Rightarrow> instant \<Rightarrow> tenant_id \<Rightarrow> bytes \<Rightarrow> instant \<Rightarrow> sess_store \<Rightarrow> instant result \<times> sess_store" where
  "sessions_Touch ctx clk t h idleUntil s =
     with_ctx ctx s
       (case sessions_lookup t h (store_now clk) s of
          Err e \<Rightarrow> (Err e, s)
        | Panic \<Rightarrow> (Panic, s)
        | Ok None \<Rightarrow> (Err [StoreErr ErrNotFound], s)
        | Ok (Some r) \<Rightarrow>
            (let until0 = time_Truncate idleUntil Microsecond;
                 until = (if until0 > w_AbsoluteExpiresAt r then w_AbsoluteExpiresAt r else until0);
                 r' = (if until > w_IdleExpiresAt r then r\<lparr>w_IdleExpiresAt := until\<rparr> else r)
             in (Ok (w_IdleExpiresAt r'), s\<lparr>ss_rows := AList.update (w_ID r) r' (ss_rows s)\<rparr>)))"

definition sameSession :: "srow \<Rightarrow> srecord \<Rightarrow> bool" where
  "sameSession r next' \<longleftrightarrow> w_Subject r = w_Subject (srec next') \<and> w_Lineage r = w_Lineage (srec next')"

definition sessions_Rotate ::
  "context_err \<Rightarrow> instant \<Rightarrow> rotate_request \<Rightarrow> sess_store \<Rightarrow> unit result \<times> sess_store" where
  "sessions_Rotate ctx clk req s =
     with_ctx ctx s
       (if srecord_IsZero (rq_Next req) then (Err [SessionsErr ErrInvalidRecord], s)
        else
          (let row = sessions_rowOf (rq_Next req); now = store_now clk in
           case sessions_lookup (s_tenant (w_Subject (srec (rq_Next req)))) (rq_Previous req) now s of
             Err e \<Rightarrow> (Err e, s)
           | Panic \<Rightarrow> (Panic, s)
           | Ok None \<Rightarrow> (Err [StoreErr ErrConflict], s)
           | Ok (Some r) \<Rightarrow>
              (if w_ID r \<noteq> w_ID row \<or> \<not> sameSession r (rq_Next req) \<or>
                  w_AbsoluteExpiresAt row > w_AbsoluteExpiresAt r
               then (Err [StoreErr ErrConflict], s)
               else if (case map_of (ss_byHash s) (w_TokenHash row) of
                          None \<Rightarrow> False | Some owner \<Rightarrow> owner \<noteq> w_ID r)
               then (Err [StoreErr ErrConflict], s)
               else
                 (let row' = row\<lparr>w_CreatedAt := w_CreatedAt r\<rparr> in
                  case sessions_Restore row' of
                    Err e \<Rightarrow> (Err e, s)
                  | Panic \<Rightarrow> (Panic, s)
                  | Ok _ \<Rightarrow>
                      (Ok (), sessions_put row'
                         (s\<lparr>ss_byHash := AList.delete (w_TokenHash r) (ss_byHash s)\<rparr>))))))"

definition sessions_Replace ::
  "context_err \<Rightarrow> instant \<Rightarrow> replace_request \<Rightarrow> sess_store \<Rightarrow> unit result \<times> sess_store" where
  "sessions_Replace ctx clk req s =
     with_ctx ctx s
       (if srecord_IsZero (rp_Next req)
        then (Err (errors_Join [SessionsErr ErrInvalidRecord] (errors_New ''a next record is required'')), s)
        else
          (let row = sessions_rowOf (rp_Next req) in
           case sessions_Restore row of
             Err e \<Rightarrow> (Err e, s)
           | Panic \<Rightarrow> (Panic, s)
           | Ok _ \<Rightarrow>
              (let now = store_now clk in
               case map_of (ss_rows s) (rp_Previous req) of
                 None \<Rightarrow> (Err [StoreErr ErrConflict], s)
               | Some r \<Rightarrow>
                  (if \<not> live r now \<or> w_ID row = rp_Previous req \<or> \<not> sameSession r (rp_Next req)
                   then (Err [StoreErr ErrConflict], s)
                   else if map_of (ss_rows s) (w_ID row) \<noteq> None then (Err [StoreErr ErrConflict], s)
                   else if map_of (ss_byHash s) (w_TokenHash row) \<noteq> None then (Err [StoreErr ErrConflict], s)
                   else (Ok (), sessions_put row (sessions_end (rp_Previous req) now s))))))"

definition sessions_Revoke ::
  "context_err \<Rightarrow> instant \<Rightarrow> tenant_id \<Rightarrow> bytes \<Rightarrow> sess_store \<Rightarrow> unit result \<times> sess_store" where
  "sessions_Revoke ctx clk t h s =
     with_ctx ctx s
       (case map_of (ss_byHash s) h of
          None \<Rightarrow> (Ok (), s)
        | Some i \<Rightarrow>
            (case map_of (ss_rows s) i of
               None \<Rightarrow> (Panic, s)
             | Some r \<Rightarrow>
                (if s_tenant (w_Subject r) = t then (Ok (), sessions_end i (store_now clk) s)
                 else (Ok (), s))))"

definition sessions_RevokeSession ::
  "context_err \<Rightarrow> instant \<Rightarrow> subject \<Rightarrow> uuid \<Rightarrow> sess_store \<Rightarrow> unit result \<times> sess_store" where
  "sessions_RevokeSession ctx clk sub i s =
     with_ctx ctx s
       (case map_of (ss_rows s) i of
          None \<Rightarrow> (Ok (), s)
        | Some r \<Rightarrow> (if w_Subject r = sub then (Ok (), sessions_end i (store_now clk) s) else (Ok (), s)))"

definition sessions_RevokeForSubject ::
  "context_err \<Rightarrow> instant \<Rightarrow> subject \<Rightarrow> uuid \<Rightarrow> sess_store \<Rightarrow> unit result \<times> sess_store" where
  "sessions_RevokeForSubject ctx clk sub exceptLineage s =
     with_ctx ctx s
       (Ok (), sessions_endWhere (store_now clk)
          (\<lambda>r. w_Subject r = sub \<and> (exceptLineage = uuid_Nil \<or> w_Lineage r \<noteq> exceptLineage)) s)"

definition sessions_RevocationsSince ::
  "context_err \<Rightarrow> cursor \<Rightarrow> sess_store \<Rightarrow> (srevocation list \<times> cursor) result \<times> sess_store" where
  "sessions_RevocationsSince ctx c s = with_ctx ctx s (Ok (feed_Since (ss_feed s) c), s)"

definition sessions_DeleteForSubject ::
  "context_err \<Rightarrow> instant \<Rightarrow> subject \<Rightarrow> sess_store \<Rightarrow> unit result \<times> sess_store" where
  "sessions_DeleteForSubject ctx clk sub s =
     with_ctx ctx s (Ok (), sessions_endWhere (store_now clk) (\<lambda>r. w_Subject r = sub) s)"

section \<open>The store invariant\<close>

text \<open>
  The rows and the digest index describe each other, every row passes \<^verbatim>\<open>checkRow\<close>, and the feed is
  numbered in order.
\<close>

definition table_ok :: "(uuid \<rightharpoonup> srow) \<Rightarrow> (bytes \<rightharpoonup> uuid) \<Rightarrow> bool" where
  "table_ok R H \<longleftrightarrow>
     (\<forall>i r. R i = Some r \<longrightarrow> w_ID r = i \<and> sessions_checkRow r = Ok () \<and> H (w_TokenHash r) = Some i) \<and>
     (\<forall>h i. H h = Some i \<longrightarrow> (\<exists>r. R i = Some r \<and> w_TokenHash r = h))"

definition sess_inv :: "sess_store \<Rightarrow> bool" where
  "sess_inv s \<longleftrightarrow>
     wf_map (ss_rows s) \<and> wf_map (ss_byHash s) \<and>
     table_ok (map_of (ss_rows s)) (map_of (ss_byHash s)) \<and> feed_ok (ss_feed s) (ss_seq s)"

lemma table_row:
  assumes "table_ok R H" "R i = Some r"
  shows "w_ID r = i" "sessions_checkRow r = Ok ()" "H (w_TokenHash r) = Some i"
  using assms by (auto simp: table_ok_def)

lemma table_hash: "table_ok R H \<Longrightarrow> H h = Some i \<Longrightarrow> \<exists>r. R i = Some r \<and> w_TokenHash r = h \<and> w_ID r = i"
  unfolding table_ok_def by blast

lemma table_delete:
  assumes t: "table_ok R H" and r: "R i = Some r"
  shows "table_ok (R(i := None)) (H(w_TokenHash r := None))"
  unfolding table_ok_def
proof (intro conjI allI impI)
  fix j q assume q: "(R(i := None)) j = Some q"
  then have "R j = Some q" "j \<noteq> i" by (auto split: if_splits)
  with table_row [OF t this(1)] table_row(3) [OF t r]
  show "w_ID q = j" "sessions_checkRow q = Ok ()" "(H(w_TokenHash r := None)) (w_TokenHash q) = Some j"
    by auto
next
  fix h j assume "(H(w_TokenHash r := None)) h = Some j"
  then have h: "H h = Some j" "h \<noteq> w_TokenHash r" by (auto split: if_splits)
  from table_hash [OF t h(1)] h(2) r show "\<exists>q. (R(i := None)) j = Some q \<and> w_TokenHash q = h" by auto
qed

lemma table_insert:
  assumes t: "table_ok R H" and new: "R (w_ID r) = None" "H (w_TokenHash r) = None"
    and chk: "sessions_checkRow r = Ok ()"
  shows "table_ok (R(w_ID r \<mapsto> r)) (H(w_TokenHash r \<mapsto> w_ID r))"
  unfolding table_ok_def
proof (intro conjI allI impI)
  fix j q assume q: "(R(w_ID r \<mapsto> r)) j = Some q"
  show "w_ID q = j" "sessions_checkRow q = Ok ()" "(H(w_TokenHash r \<mapsto> w_ID r)) (w_TokenHash q) = Some j"
    using q chk table_row [OF t, of j q] new by (auto split: if_splits)
next
  fix h j assume h: "(H(w_TokenHash r \<mapsto> w_ID r)) h = Some j"
  show "\<exists>q. (R(w_ID r \<mapsto> r)) j = Some q \<and> w_TokenHash q = h"
    using h table_hash [OF t, of h j] new by (auto split: if_splits)
qed

lemma table_update:
  assumes t: "table_ok R H" and r: "R i = Some r" and r': "w_ID r' = i" "w_TokenHash r' = w_TokenHash r"
    "sessions_checkRow r' = Ok ()"
  shows "table_ok (R(i \<mapsto> r')) H"
proof -
  have h: "H (w_TokenHash r') = Some i" using table_row(3) [OF t r] r'(2) by simp
  have "table_ok ((R(i := None))(w_ID r' \<mapsto> r')) ((H(w_TokenHash r := None))(w_TokenHash r' \<mapsto> w_ID r'))"
    using r' by (intro table_insert table_delete [OF t r]) simp_all
  moreover have "(H(w_TokenHash r := None))(w_TokenHash r' \<mapsto> w_ID r') = H"
    using r' h by auto
  ultimately show ?thesis using r'(1) by simp
qed

text \<open>The row a digest names; under the invariant this is the whole observable content of the table.\<close>

definition row_of :: "sess_store \<Rightarrow> bytes \<Rightarrow> srow option" where
  "row_of s h = (case map_of (ss_byHash s) h of None \<Rightarrow> None | Some i \<Rightarrow> map_of (ss_rows s) i)"

lemma sess_inv_New [simp]: "sess_inv sessions_New"
  by (simp add: sess_inv_def sessions_New_def table_ok_def)

lemma sess_inv_table: "sess_inv s \<Longrightarrow> table_ok (map_of (ss_rows s)) (map_of (ss_byHash s))"
  by (simp add: sess_inv_def)

lemmas sess_inv_row = table_row [OF sess_inv_table]
lemmas sess_inv_hash = table_hash [OF sess_inv_table]

lemma row_of_iff:
  assumes "sess_inv s"
  shows "row_of s h = Some r \<longleftrightarrow> map_of (ss_rows s) (w_ID r) = Some r \<and> w_TokenHash r = h"
proof
  assume "row_of s h = Some r"
  then obtain i where i: "map_of (ss_byHash s) h = Some i" "map_of (ss_rows s) i = Some r"
    by (auto simp: row_of_def split: option.splits)
  with sess_inv_hash [OF assms i(1)] show "map_of (ss_rows s) (w_ID r) = Some r \<and> w_TokenHash r = h" by auto
next
  assume r: "map_of (ss_rows s) (w_ID r) = Some r \<and> w_TokenHash r = h"
  with sess_inv_row(3) [OF assms, of "w_ID r" r] show "row_of s h = Some r" by (auto simp: row_of_def)
qed

lemma sess_inv_end: "sess_inv s \<Longrightarrow> sess_inv (sessions_end i now s)"
  using table_delete [OF sess_inv_table, of s i]
  by (auto simp: sess_inv_def sessions_end_def intro: feed_ok_snoc [simplified] split: option.splits)

lemma rows_end [simp]: "map_of (ss_rows (sessions_end i now s)) = (map_of (ss_rows s))(i := None)"
  by (auto simp: sessions_end_def fun_eq_iff split: option.splits)

lemma byHash_end:
  "map_of (ss_rows s) i = Some r \<Longrightarrow>
   map_of (ss_byHash (sessions_end i now s)) = (map_of (ss_byHash s))(w_TokenHash r := None)"
  by (simp add: sessions_end_def)

end
