(* ===== verification/Sessions_Laws.thy ===== *)
theory Sessions_Laws
  imports Sessions_Store
begin

text \<open>
  Laws of the session store: one lemma per operation that it keeps the invariant and what it does to
  the table and the feed, the operations as the events of a transition system, and the interpretation
  of the feed contract on it.
\<close>

section \<open>Ending rows\<close>

definition end_entry :: "sess_store \<Rightarrow> instant \<Rightarrow> nat \<Rightarrow> uuid \<Rightarrow> srevocation feed_entry" where
  "end_entry s now n i =
     (let r = the (map_of (ss_rows s) i) in
      \<lparr>fe_seq = n, fe_rev = \<lparr>sr_Tenant = s_tenant (w_Subject r), sr_Session = i, sr_At = now\<rparr>,
       fe_expires = w_AbsoluteExpiresAt r\<rparr>)"

abbreviation end_all :: "instant \<Rightarrow> sess_store \<Rightarrow> uuid list \<Rightarrow> sess_store" where
  "end_all now s is \<equiv> foldl (\<lambda>s i. sessions_end i now s) s is"

definition victims :: "(srow \<Rightarrow> bool) \<Rightarrow> sess_store \<Rightarrow> uuid list" where
  "victims match s = sort (map fst (filter (\<lambda>(i, r). match r) (ss_rows s)))"

lemma endWhere_alt: "sessions_endWhere now match s = end_all now s (victims match s)"
  by (simp add: sessions_endWhere_def victims_def Let_def)

lemma sess_inv_end_all: "sess_inv s \<Longrightarrow> sess_inv (end_all now s is)"
  by (induction "is" arbitrary: s) (simp_all add: sess_inv_end)

lemma rows_end_all: "map_of (ss_rows (end_all now s is)) i = (if i \<in> set is then None else map_of (ss_rows s) i)"
  by (induction "is" arbitrary: s) auto

lemma feed_end_all:
  assumes "distinct is" "set is \<subseteq> dom (map_of (ss_rows s))"
  shows "ss_seq (end_all now s is) = ss_seq s + length is"
    and "ss_feed (end_all now s is) =
      ss_feed s @ map (\<lambda>(n, i). end_entry s now n i) (zip [Suc (ss_seq s)..<Suc (ss_seq s + length is)] is)"
proof -
  have "ss_seq (end_all now s is) = ss_seq s + length is \<and>
    ss_feed (end_all now s is) =
      ss_feed s @ map (\<lambda>(n, i). end_entry s now n i) (zip [Suc (ss_seq s)..<Suc (ss_seq s + length is)] is)"
    using assms
  proof (induction "is" rule: rev_induct)
    case (snoc i js)
    let ?s = "end_all now s js"
    have i: "map_of (ss_rows ?s) i = map_of (ss_rows s) i" using snoc.prems by (simp add: rows_end_all)
    obtain r where r: "map_of (ss_rows s) i = Some r" using snoc.prems by auto
    have z: "zip [Suc (ss_seq s)..<Suc (ss_seq s + length (js @ [i]))] (js @ [i]) =
        zip [Suc (ss_seq s)..<Suc (ss_seq s + length js)] js @ [(Suc (ss_seq s + length js), i)]"
      using upt_Suc_append [of "Suc (ss_seq s)" "Suc (ss_seq s + length js)"] by (simp del: upt_Suc)
    show ?case
      using snoc i r unfolding z by (simp add: sessions_end_def end_entry_def Let_def)
  qed simp
  then show "ss_seq (end_all now s is) = ss_seq s + length is"
    and "ss_feed (end_all now s is) =
      ss_feed s @ map (\<lambda>(n, i). end_entry s now n i) (zip [Suc (ss_seq s)..<Suc (ss_seq s + length is)] is)"
    by blast+
qed

lemma victims_iff: "sess_inv s \<Longrightarrow> i \<in> set (victims match s) \<longleftrightarrow> (\<exists>r. map_of (ss_rows s) i = Some r \<and> match r)"
  by (auto simp: victims_def sess_inv_def map_of_eq_Some_iff image_iff)

lemma distinct_victims: "sess_inv s \<Longrightarrow> distinct (victims match s)"
  by (simp add: victims_def sess_inv_def distinct_map_filter)

lemma sorted_victims: "sorted (victims match s)"
  by (simp add: victims_def)

lemma victims_dom: "sess_inv s \<Longrightarrow> set (victims match s) \<subseteq> dom (map_of (ss_rows s))"
  using victims_iff by blast

lemma rows_endWhere:
  "sess_inv s \<Longrightarrow>
   map_of (ss_rows (sessions_endWhere now match s)) i =
     (case map_of (ss_rows s) i of None \<Rightarrow> None | Some r \<Rightarrow> if match r then None else Some r)"
  by (auto simp: endWhere_alt rows_end_all victims_iff split: option.splits)

section \<open>Every operation keeps the invariant and never panics\<close>

lemma lookup_Ok:
  assumes "sess_inv s"
  shows "sessions_lookup t h now s =
    Ok (case row_of s h of None \<Rightarrow> None
        | Some r \<Rightarrow> if s_tenant (w_Subject r) = t \<and> live r now then Some r else None)"
  using sess_inv_hash [OF assms, of h]
  by (auto simp: sessions_lookup_def row_of_def split: option.splits)

lemma lookup_Some:
  assumes "sess_inv s" "sessions_lookup t h now s = Ok (Some r)"
  shows "map_of (ss_rows s) (w_ID r) = Some r" "w_TokenHash r = h" "s_tenant (w_Subject r) = t" "live r now"
    "sessions_checkRow r = Ok ()"
proof -
  from assms have r: "row_of s h = Some r" and "s_tenant (w_Subject r) = t" "live r now"
    by (auto simp: lookup_Ok split: option.splits if_splits)
  then show "map_of (ss_rows s) (w_ID r) = Some r" "w_TokenHash r = h" "s_tenant (w_Subject r) = t" "live r now"
    using row_of_iff [OF assms(1)] by auto
  then show "sessions_checkRow r = Ok ()" using sess_inv_row(2) [OF assms(1)] by blast
qed

lemma lookup_not_Panic: "sess_inv s \<Longrightarrow> sessions_lookup t h now s \<noteq> Panic"
  by (simp add: lookup_Ok)

lemma sess_inv_put:
  "sess_inv s \<Longrightarrow> map_of (ss_rows s) (w_ID r) = None \<Longrightarrow> map_of (ss_byHash s) (w_TokenHash r) = None \<Longrightarrow>
   sessions_checkRow r = Ok () \<Longrightarrow> sess_inv (sessions_put r s)"
  using table_insert [OF sess_inv_table, of s r] by (simp add: sess_inv_def sessions_put_def)

definition touched :: "instant \<Rightarrow> srow \<Rightarrow> srow" where
  "touched u r =
     (let until = min (time_Truncate u Microsecond) (w_AbsoluteExpiresAt r)
      in if until > w_IdleExpiresAt r then r\<lparr>w_IdleExpiresAt := until\<rparr> else r)"

lemma touched_fields [simp]:
  "w_ID (touched u r) = w_ID r" "w_TokenHash (touched u r) = w_TokenHash r"
  "w_Subject (touched u r) = w_Subject r" "w_Lineage (touched u r) = w_Lineage r"
  "w_AbsoluteExpiresAt (touched u r) = w_AbsoluteExpiresAt r" "w_CreatedAt (touched u r) = w_CreatedAt r"
  "w_Sealed (touched u r) = w_Sealed r" "w_CheckedAt (touched u r) = w_CheckedAt r"
  "w_AppClaims (touched u r) = w_AppClaims r" "w_ClientFingerprint (touched u r) = w_ClientFingerprint r"
  by (simp_all add: touched_def Let_def)

lemma touched_idle:
  "w_IdleExpiresAt (touched u r) =
     max (w_IdleExpiresAt r) (min (time_Truncate u Microsecond) (w_AbsoluteExpiresAt r))"
  by (auto simp: touched_def Let_def max_def min_def)

lemma Touch_eq:
  "sessions_lookup t h (store_now clk) s = Ok (Some r) \<Longrightarrow>
   sessions_Touch None clk t h u s =
     (Ok (w_IdleExpiresAt (touched u r)), s\<lparr>ss_rows := AList.update (w_ID r) (touched u r) (ss_rows s)\<rparr>)"
  by (simp add: sessions_Touch_def touched_def Let_def min_def)

text \<open>
  The clock reads an instant of year 1 or later, as every clock does; then no stored expiry of a live
  row is the zero time.
\<close>

lemma store_now_ge: "zero_time \<le> clk \<Longrightarrow> zero_time \<le> store_now clk"
  by (simp add: store_now_def time_Truncate_alt Microsecond_def pos_imp_zdiv_nonneg_iff)

lemma touched_checkRow:
  assumes r: "sessions_checkRow r = Ok ()" and l: "live r now" "zero_time \<le> now"
  shows "sessions_checkRow (touched u r) = Ok ()"
proof -
  have le: "w_IdleExpiresAt r \<le> w_IdleExpiresAt (touched u r)"
    "w_IdleExpiresAt (touched u r) \<le> w_AbsoluteExpiresAt r"
    using r by (auto simp: touched_idle sessions_checkRow_Ok)
  moreover have "\<not> time_IsZero (w_IdleExpiresAt (touched u r))"
    using le(1) l by (simp add: time_IsZero_def live_def)
  ultimately show ?thesis using r by (auto simp: sessions_checkRow_Ok)
qed

lemma sess_inv_touch:
  assumes inv: "sess_inv s" and r: "sessions_lookup t h (store_now clk) s = Ok (Some r)" and c: "zero_time \<le> clk"
  shows "sess_inv (s\<lparr>ss_rows := AList.update (w_ID r) (touched u r) (ss_rows s)\<rparr>)"
proof -
  note l = lookup_Some [OF inv r]
  have "table_ok ((map_of (ss_rows s))(w_ID r \<mapsto> touched u r)) (map_of (ss_byHash s))"
    using l(4,5) store_now_ge [OF c] by (intro table_update [OF sess_inv_table [OF inv] l(1)] touched_checkRow) simp_all
  with inv show ?thesis by (simp add: sess_inv_def)
qed

definition rotated :: "srow \<Rightarrow> srecord \<Rightarrow> srow" where
  "rotated r next' = (sessions_rowOf next')\<lparr>w_CreatedAt := w_CreatedAt r\<rparr>"

lemma rowOf_fields [simp]:
  "w_ID (sessions_rowOf x) = w_ID (srec x)" "w_TokenHash (sessions_rowOf x) = w_TokenHash (srec x)"
  "w_Subject (sessions_rowOf x) = w_Subject (srec x)" "w_Lineage (sessions_rowOf x) = w_Lineage (srec x)"
  "w_Sealed (sessions_rowOf x) = w_Sealed (srec x)" "w_SecurityEpoch (sessions_rowOf x) = w_SecurityEpoch (srec x)"
  by (simp_all add: sessions_rowOf_def)

lemma rotated_fields [simp]:
  "w_ID (rotated r x) = w_ID (srec x)" "w_TokenHash (rotated r x) = w_TokenHash (srec x)"
  "w_Subject (rotated r x) = w_Subject (srec x)" "w_Lineage (rotated r x) = w_Lineage (srec x)"
  "w_CreatedAt (rotated r x) = w_CreatedAt r"
  "w_AbsoluteExpiresAt (rotated r x) = w_AbsoluteExpiresAt (sessions_rowOf x)"
  by (simp_all add: rotated_def)

definition rotates :: "sess_store \<Rightarrow> instant \<Rightarrow> rotate_request \<Rightarrow> srow \<Rightarrow> bool" where
  "rotates s clk req r \<longleftrightarrow>
     sessions_lookup (s_tenant (w_Subject (srec (rq_Next req)))) (rq_Previous req) (store_now clk) s = Ok (Some r) \<and>
     w_ID r = w_ID (srec (rq_Next req)) \<and> sameSession r (rq_Next req) \<and>
     w_AbsoluteExpiresAt (sessions_rowOf (rq_Next req)) \<le> w_AbsoluteExpiresAt r \<and>
     map_of (ss_byHash s) (w_TokenHash (srec (rq_Next req))) \<in> {None, Some (w_ID r)} \<and>
     sessions_checkRow (rotated r (rq_Next req)) = Ok ()"

definition rotate_to :: "srow \<Rightarrow> srow \<Rightarrow> sess_store \<Rightarrow> sess_store" where
  "rotate_to r row s = sessions_put row (s\<lparr>ss_byHash := AList.delete (w_TokenHash r) (ss_byHash s)\<rparr>)"

lemma Rotate_eq:
  "\<not> srecord_IsZero (rq_Next req) \<Longrightarrow>
   sessions_lookup (s_tenant (w_Subject (srec (rq_Next req)))) (rq_Previous req) (store_now clk) s = Ok (Some r) \<Longrightarrow>
   sessions_Rotate None clk req s =
     (if rotates s clk req r then (Ok (), rotate_to r (rotated r (rq_Next req)) s)
      else if w_ID r \<noteq> w_ID (srec (rq_Next req)) \<or> \<not> sameSession r (rq_Next req) \<or>
              w_AbsoluteExpiresAt (sessions_rowOf (rq_Next req)) > w_AbsoluteExpiresAt r \<or>
              map_of (ss_byHash s) (w_TokenHash (srec (rq_Next req))) \<notin> {None, Some (w_ID r)}
      then (Err [StoreErr ErrConflict], s)
      else (case sessions_checkRow (rotated r (rq_Next req)) of
              Err e \<Rightarrow> (Err (errors_Join [SessionsErr ErrInvalidRecord] e), s) | _ \<Rightarrow> (Panic, s)))"
  by (cases "sessions_checkRow (rotated r (rq_Next req))";
      cases "map_of (ss_byHash s) (w_TokenHash (srec (rq_Next req)))")
    (simp_all add: sessions_Rotate_def rotates_def rotate_to_def sessions_Restore_def Let_def not_le
      rotated_def [symmetric])

lemma Rotate_result:
  assumes inv: "sess_inv s"
  shows "(\<exists>r. rotates s clk req r \<and>
      sessions_Rotate None clk req s = (Ok (), rotate_to r (rotated r (rq_Next req)) s)) \<or>
    (\<exists>e. sessions_Rotate None clk req s = (Err e, s))"
proof (cases "srecord_IsZero (rq_Next req)")
  case False
  let ?l = "sessions_lookup (s_tenant (w_Subject (srec (rq_Next req)))) (rq_Previous req) (store_now clk) s"
  obtain o' where o': "?l = Ok o'" using lookup_Ok [OF inv] by blast
  show ?thesis
  proof (cases o')
    case None
    with False o' show ?thesis by (simp add: sessions_Rotate_def Let_def)
  next
    case (Some r)
    have "sessions_checkRow (rotated r (rq_Next req)) = Ok () \<or>
        (\<exists>e. sessions_checkRow (rotated r (rq_Next req)) = Err e)"
      by (cases "sessions_checkRow (rotated r (rq_Next req))") auto
    then show ?thesis
      using Rotate_eq [OF False o' [unfolded Some]] o' [unfolded Some]
      by (cases "rotates s clk req r") (auto simp: rotates_def)
  qed
qed (simp add: sessions_Rotate_def)

lemma sess_inv_rotate_to:
  assumes inv: "sess_inv s" and r: "map_of (ss_rows s) (w_ID r) = Some r"
    and row: "w_ID row = w_ID r" "sessions_checkRow row = Ok ()"
    and h: "map_of (ss_byHash s) (w_TokenHash row) \<in> {None, Some (w_ID r)}"
  shows "sess_inv (rotate_to r row s)"
proof -
  let ?R = "map_of (ss_rows s)" and ?H = "map_of (ss_byHash s)"
  have del: "table_ok (?R(w_ID r := None)) (?H(w_TokenHash r := None))"
    by (rule table_delete [OF sess_inv_table [OF inv] r])
  have "(?H(w_TokenHash r := None)) (w_TokenHash row) = None"
    using h sess_inv_hash [OF inv, of "w_TokenHash row" "w_ID r"] r by auto
  with del have "table_ok ((?R(w_ID r := None))(w_ID row \<mapsto> row)) ((?H(w_TokenHash r := None))(w_TokenHash row \<mapsto> w_ID row))"
    using row by (intro table_insert) simp_all
  with inv row show ?thesis by (simp add: sess_inv_def rotate_to_def sessions_put_def)
qed

section \<open>The other operations\<close>

lemma Create_result:
  "(let row = sessions_rowOf r in
     sessions_checkRow row = Ok () \<and> map_of (ss_rows s) (w_ID row) = None \<and>
     map_of (ss_byHash s) (w_TokenHash row) = None \<and> sessions_Create None r s = (Ok (), sessions_put row s)) \<or>
   (\<exists>e. sessions_Create None r s = (Err e, s))"
  by (cases "sessions_checkRow (sessions_rowOf r)")
    (auto simp: sessions_Create_def sessions_Restore_def Let_def)

lemma Replace_result:
  "(\<exists>r. map_of (ss_rows s) (rp_Previous req) = Some r \<and> live r (store_now clk) \<and>
      sameSession r (rp_Next req) \<and> w_ID (srec (rp_Next req)) \<noteq> rp_Previous req \<and>
      sessions_checkRow (sessions_rowOf (rp_Next req)) = Ok () \<and>
      map_of (ss_rows s) (w_ID (srec (rp_Next req))) = None \<and>
      map_of (ss_byHash s) (w_TokenHash (srec (rp_Next req))) = None \<and>
      sessions_Replace None clk req s =
        (Ok (), sessions_put (sessions_rowOf (rp_Next req)) (sessions_end (rp_Previous req) (store_now clk) s))) \<or>
   (\<exists>e. sessions_Replace None clk req s = (Err e, s))"
  by (cases "sessions_checkRow (sessions_rowOf (rp_Next req))"; cases "map_of (ss_rows s) (rp_Previous req)")
    (auto simp: sessions_Replace_def sessions_Restore_def Let_def)

lemma sess_inv_replace:
  assumes inv: "sess_inv s" and r: "map_of (ss_rows s) i = Some r" and row: "sessions_checkRow row = Ok ()"
    and new: "map_of (ss_rows s) (w_ID row) = None" "map_of (ss_byHash s) (w_TokenHash row) = None"
  shows "sess_inv (sessions_put row (sessions_end i now s))"
  using new row by (intro sess_inv_put sess_inv_end [OF inv]) (simp_all add: byHash_end [OF r])

lemma Revoke_result:
  assumes "sess_inv s"
  shows "sessions_Revoke None clk t h s =
    (Ok (), case row_of s h of None \<Rightarrow> s
            | Some r \<Rightarrow> if s_tenant (w_Subject r) = t then sessions_end (w_ID r) (store_now clk) s else s)"
proof (cases "map_of (ss_byHash s) h")
  case (Some i)
  from sess_inv_hash [OF assms this] obtain r where
    "map_of (ss_rows s) i = Some r" "w_TokenHash r = h" "w_ID r = i" by blast
  with Some show ?thesis by (simp add: sessions_Revoke_def row_of_def)
qed (simp add: sessions_Revoke_def row_of_def)

lemma byHash_reap:
  "map_of (foldl (\<lambda>m (i, r). AList.delete (w_TokenHash r) m) m dead) h =
     (if h \<in> (\<lambda>(i, r). w_TokenHash r) ` set dead then None else map_of m h)"
  by (induction dead arbitrary: m) (auto simp: split_beta)

lemma wf_byHash_reap:
  "wf_map m \<Longrightarrow> wf_map (foldl (\<lambda>m (i, r). AList.delete (w_TokenHash r) m) m dead)"
  by (induction dead arbitrary: m) (auto simp: split_beta)

lemma rows_reap:
  "sess_inv s \<Longrightarrow>
   map_of (ss_rows (snd (sessions_ReapExpired None clk s))) i =
     (case map_of (ss_rows s) i of None \<Rightarrow> None | Some r \<Rightarrow> if live r (store_now clk) then Some r else None)"
  by (auto simp: sessions_ReapExpired_def sess_inv_def Let_def map_of_del_where split: option.splits)

lemma sess_inv_reap:
  assumes inv: "sess_inv s"
  shows "sess_inv (snd (sessions_ReapExpired None clk s))"
proof -
  let ?s = "snd (sessions_ReapExpired None clk s)" and ?now = "store_now clk"
  have dead: "h \<in> (\<lambda>(i, r). w_TokenHash r) ` set (filter (\<lambda>(i, r). \<not> live r ?now) (ss_rows s)) \<longleftrightarrow>
      (\<exists>i r. map_of (ss_rows s) i = Some r \<and> \<not> live r ?now \<and> w_TokenHash r = h)" for h
    using inv by (auto simp: sess_inv_def map_of_eq_Some_iff image_iff)
  have H: "map_of (ss_byHash ?s) h =
      (if \<exists>i r. map_of (ss_rows s) i = Some r \<and> \<not> live r ?now \<and> w_TokenHash r = h then None
       else map_of (ss_byHash s) h)" for h
    unfolding dead [symmetric] by (simp add: sessions_ReapExpired_def Let_def byHash_reap)
  have "table_ok (map_of (ss_rows ?s)) (map_of (ss_byHash ?s))"
    unfolding table_ok_def
  proof (intro conjI allI impI)
    fix i r assume "map_of (ss_rows ?s) i = Some r"
    then have r: "map_of (ss_rows s) i = Some r" "live r ?now"
      by (auto simp: rows_reap [OF inv] split: option.splits if_splits)
    note row = sess_inv_row [OF inv r(1)]
    show "w_ID r = i" "sessions_checkRow r = Ok ()" using row by simp_all
    have "\<not> (\<exists>j q. map_of (ss_rows s) j = Some q \<and> \<not> live q ?now \<and> w_TokenHash q = w_TokenHash r)"
      using sess_inv_row(3) [OF inv] r row(3) by (metis option.inject)
    then show "map_of (ss_byHash ?s) (w_TokenHash r) = Some i" using row(3) by (simp add: H)
  next
    fix h i assume "map_of (ss_byHash ?s) h = Some i"
    then have h: "map_of (ss_byHash s) h = Some i"
      "\<not> (\<exists>j q. map_of (ss_rows s) j = Some q \<and> \<not> live q ?now \<and> w_TokenHash q = h)"
      by (auto simp: H split: if_splits)
    from sess_inv_hash [OF inv h(1)] obtain r where
      r: "map_of (ss_rows s) i = Some r" "w_TokenHash r = h" by blast
    moreover have "live r ?now" using h(2) r by blast
    ultimately show "\<exists>r. map_of (ss_rows ?s) i = Some r \<and> w_TokenHash r = h"
      by (simp add: rows_reap [OF inv])
  qed
  with inv show ?thesis
    by (simp add: sess_inv_def sessions_ReapExpired_def Let_def feed_ok_keep wf_byHash_reap)
qed

section \<open>The store as a transition system\<close>

datatype sess_op =
    OpErase tenant_id | OpReap | OpCreate srecord | OpGet tenant_id bytes | OpTouch tenant_id bytes instant
  | OpRotate rotate_request | OpReplace replace_request | OpRevoke tenant_id bytes
  | OpRevokeSession subject uuid | OpRevokeForSubject subject uuid | OpSince cursor | OpDelete subject

fun sess_exec :: "context_err \<Rightarrow> instant \<Rightarrow> sess_op \<Rightarrow> sess_store \<Rightarrow> unit result \<times> sess_store" where
  "sess_exec ctx clk (OpErase t) s = sessions_EraseTenant ctx clk t s"
| "sess_exec ctx clk OpReap s = map_prod result_void id (sessions_ReapExpired ctx clk s)"
| "sess_exec ctx clk (OpCreate r) s = sessions_Create ctx r s"
| "sess_exec ctx clk (OpGet t h) s = map_prod result_void id (sessions_Get ctx clk t h s)"
| "sess_exec ctx clk (OpTouch t h u) s = map_prod result_void id (sessions_Touch ctx clk t h u s)"
| "sess_exec ctx clk (OpRotate q) s = sessions_Rotate ctx clk q s"
| "sess_exec ctx clk (OpReplace q) s = sessions_Replace ctx clk q s"
| "sess_exec ctx clk (OpRevoke t h) s = sessions_Revoke ctx clk t h s"
| "sess_exec ctx clk (OpRevokeSession sub i) s = sessions_RevokeSession ctx clk sub i s"
| "sess_exec ctx clk (OpRevokeForSubject sub l) s = sessions_RevokeForSubject ctx clk sub l s"
| "sess_exec ctx clk (OpSince c) s = map_prod result_void id (sessions_RevocationsSince ctx c s)"
| "sess_exec ctx clk (OpDelete sub) s = sessions_DeleteForSubject ctx clk sub s"

text \<open>One step: any operation, with any context, at any clock reading of year 1 or later.\<close>

inductive sess_step :: "sess_store \<Rightarrow> sess_store \<Rightarrow> bool" where
  step: "zero_time \<le> clk \<Longrightarrow> sess_step s (snd (sess_exec ctx clk op s))"

inductive_cases sess_stepE: "sess_step s s'"

text \<open>A cancelled context changes nothing.\<close>

lemma exec_ctx: "sess_exec (Some e) clk op s = (Err e, s)"
  by (cases op)
    (simp_all add: result_void_def sessions_EraseTenant_def sessions_ReapExpired_def sessions_Create_def
      sessions_Get_def sessions_Touch_def sessions_Rotate_def sessions_Replace_def sessions_Revoke_def
      sessions_RevokeSession_def sessions_RevokeForSubject_def sessions_RevocationsSince_def
      sessions_DeleteForSubject_def)

lemma Get_result:
  assumes "sess_inv s"
  shows "sessions_Get None clk t h s =
    (case row_of s h of
       None \<Rightarrow> (Err [StoreErr ErrNotFound], s)
     | Some r \<Rightarrow> if s_tenant (w_Subject r) = t \<and> live r (store_now clk) then (Ok (SRecord r), s)
                 else (Err [StoreErr ErrNotFound], s))"
proof (cases "row_of s h")
  case (Some r)
  then have "sessions_Restore r = Ok (SRecord r)"
    using sess_inv_row(2) [OF assms, of "w_ID r" r] row_of_iff [OF assms] by (simp add: sessions_Restore_Ok)
  with Some show ?thesis by (simp add: sessions_Get_def lookup_Ok [OF assms])
qed (simp add: sessions_Get_def lookup_Ok [OF assms])

lemma Touch_result:
  assumes "sess_inv s"
  shows "(\<exists>r. sessions_lookup t h (store_now clk) s = Ok (Some r) \<and>
      sessions_Touch None clk t h u s =
       (Ok (w_IdleExpiresAt (touched u r)), s\<lparr>ss_rows := AList.update (w_ID r) (touched u r) (ss_rows s)\<rparr>)) \<or>
    sessions_Touch None clk t h u s = (Err [StoreErr ErrNotFound], s)"
proof -
  obtain o' where "sessions_lookup t h (store_now clk) s = Ok o'" using lookup_Ok [OF assms] by blast
  then show ?thesis by (cases o') (auto simp: Touch_eq, simp add: sessions_Touch_def)
qed

lemma exec_inv:
  assumes inv: "sess_inv s" and clk: "zero_time \<le> clk"
  shows "sess_inv (snd (sess_exec ctx clk op s)) \<and> fst (sess_exec ctx clk op s) \<noteq> Panic"
proof (cases ctx)
  case (Some e)
  then show ?thesis using inv by (simp add: exec_ctx)
next
  case None
  show ?thesis
  proof (cases op)
    case (OpTouch t h u)
    then show ?thesis
      using None Touch_result [OF inv, of t h clk u] inv sess_inv_touch [OF inv _ clk] by (auto simp: result_void_def)
  next
    case (OpRotate q)
    have "sess_inv (rotate_to r (rotated r (rq_Next q)) s)" if q: "rotates s clk q r" for r
    proof -
      have "map_of (ss_rows s) (w_ID r) = Some r" using q lookup_Some(1) [OF inv] unfolding rotates_def by blast
      then show ?thesis by (rule sess_inv_rotate_to [OF inv]) (use q in \<open>auto simp: rotates_def\<close>)
    qed
    then show ?thesis using None OpRotate Rotate_result [OF inv, of clk q] inv by auto
  next
    case (OpReplace q)
    then show ?thesis using None Replace_result [of s q clk] inv by (auto intro!: sess_inv_replace [OF inv])
  next
    case (OpCreate r)
    then show ?thesis using None Create_result [of r s] inv by (auto simp: Let_def intro!: sess_inv_put)
  next
    case OpReap
    then show ?thesis
      using None sess_inv_reap [OF inv, of clk] by (simp add: result_void_def sessions_ReapExpired_def Let_def)
  next
    case (OpGet t h)
    then show ?thesis using None inv Get_result [OF inv, of clk t h]
      by (auto simp: result_void_def split: option.splits)
  next
    case (OpRevoke t h)
    then show ?thesis using None inv Revoke_result [OF inv, of clk t h]
      by (auto simp: sess_inv_end split: option.splits)
  qed (use None inv in \<open>auto simp: result_void_def sessions_EraseTenant_def sessions_RevokeSession_def
      sessions_RevokeForSubject_def sessions_RevocationsSince_def sessions_DeleteForSubject_def
      endWhere_alt sess_inv_end_all sess_inv_end split: option.splits\<close>)
qed

lemma feed_grows_end: "feed_grows (ss_feed s) (ss_seq s) (ss_feed (sessions_end i now s)) (ss_seq (sessions_end i now s))"
  by (auto simp: sessions_end_def feed_grows_def split: option.splits)

lemma feed_grows_end_all:
  "feed_grows (ss_feed s) (ss_seq s) (ss_feed (end_all now s is)) (ss_seq (end_all now s is))"
  by (induction "is" arbitrary: s) (auto intro: feed_grows_trans feed_grows_end)

lemma feed_put [simp]: "ss_feed (sessions_put r s) = ss_feed s" "ss_seq (sessions_put r s) = ss_seq s"
  by (simp_all add: sessions_put_def)

lemma feed_rotate_to [simp]: "ss_feed (rotate_to r row s) = ss_feed s" "ss_seq (rotate_to r row s) = ss_seq s"
  by (simp_all add: rotate_to_def)

lemma exec_grows:
  assumes inv: "sess_inv s"
  shows "feed_grows (ss_feed s) (ss_seq s) (ss_feed (snd (sess_exec ctx clk op s))) (ss_seq (snd (sess_exec ctx clk op s)))"
proof (cases ctx)
  case (Some e)
  then show ?thesis by (simp add: exec_ctx)
next
  case None
  show ?thesis
  proof (cases op)
    case (OpTouch t h u)
    then show ?thesis using None Touch_result [OF inv, of t h clk u] by auto
  next
    case (OpRotate q)
    then show ?thesis using None Rotate_result [OF inv, of clk q] by auto
  next
    case (OpReplace q)
    then show ?thesis using None Replace_result [of s q clk] by (auto simp: feed_grows_end)
  next
    case (OpCreate r)
    then show ?thesis using None Create_result [of r s] by (auto simp: Let_def)
  next
    case (OpGet t h)
    then show ?thesis using None Get_result [OF inv, of clk t h] by (auto split: option.splits)
  next
    case (OpRevoke t h)
    then show ?thesis using None Revoke_result [OF inv, of clk t h] by (auto simp: feed_grows_end split: option.splits)
  qed (use None in \<open>auto simp: sessions_EraseTenant_def sessions_RevokeSession_def sessions_ReapExpired_def
      sessions_RevokeForSubject_def sessions_RevocationsSince_def sessions_DeleteForSubject_def Let_def
      endWhere_alt feed_grows_end_all feed_grows_end feed_grows_keep split: option.splits\<close>)
qed

interpretation sessions_feed: revocation_feed ss_feed ss_seq sess_inv sess_step
proof
  show "feed_ok (ss_feed s) (ss_seq s)" if "sess_inv s" for s using that by (simp add: sess_inv_def)
  show "sess_inv s'" if "sess_inv s" "sess_step s s'" for s s'
    using that(2,1) by (auto elim!: sess_stepE dest: exec_inv)
  show "feed_grows (ss_feed s) (ss_seq s) (ss_feed s') (ss_seq s')" if "sess_inv s" "sess_step s s'" for s s'
    using that(2,1) by (auto elim!: sess_stepE intro: exec_grows)
qed

end
