(* ===== verification/Sessions_Properties.thy ===== *)
theory Sessions_Properties
  imports Sessions_Laws
begin

text \<open>
  What the session store guarantees its callers, for every state a sequence of operations can reach
  from the empty store.
\<close>

abbreviation sess_reach :: "sess_store \<Rightarrow> bool" where
  "sess_reach s \<equiv> sess_step\<^sup>*\<^sup>* sessions_New s"

lemma sess_reach_inv: "sess_reach s \<Longrightarrow> sess_inv s"
  using sessions_feed.run_inv by simp

section \<open>What one operation does to the rows\<close>

lemma rows_put: "map_of (ss_rows (sessions_put r s)) = (map_of (ss_rows s))(w_ID r \<mapsto> r)"
  by (simp add: sessions_put_def)

lemma rows_rotate_to: "map_of (ss_rows (rotate_to r row s)) = (map_of (ss_rows s))(w_ID row \<mapsto> row)"
  by (simp add: rotate_to_def rows_put)

text \<open>Every surviving row is the old row, the old row touched or rotated, or a row that is new.\<close>

definition row_evolves :: "srow \<Rightarrow> srow \<Rightarrow> bool" where
  "row_evolves r r' \<longleftrightarrow>
     w_ID r' = w_ID r \<and> w_Subject r' = w_Subject r \<and> w_Lineage r' = w_Lineage r \<and> w_CreatedAt r' = w_CreatedAt r \<and>
     w_AbsoluteExpiresAt r' \<le> w_AbsoluteExpiresAt r"

lemma row_evolves_refl [simp]: "row_evolves r r"
  by (simp add: row_evolves_def)

lemma row_evolves_trans: "row_evolves a b \<Longrightarrow> row_evolves b c \<Longrightarrow> row_evolves a c"
  by (simp add: row_evolves_def)

fun op_tenant :: "sess_op \<Rightarrow> tenant_id option" where
  "op_tenant (OpErase t) = Some t"
| "op_tenant OpReap = None"
| "op_tenant (OpCreate r) = Some (s_tenant (w_Subject (srec r)))"
| "op_tenant (OpGet t h) = Some t"
| "op_tenant (OpTouch t h u) = Some t"
| "op_tenant (OpRotate q) = Some (s_tenant (w_Subject (srec (rq_Next q))))"
| "op_tenant (OpReplace q) = Some (s_tenant (w_Subject (srec (rp_Next q))))"
| "op_tenant (OpRevoke t h) = Some t"
| "op_tenant (OpRevokeSession sub i) = Some (s_tenant sub)"
| "op_tenant (OpRevokeForSubject sub l) = Some (s_tenant sub)"
| "op_tenant (OpSince c) = None"
| "op_tenant (OpDelete sub) = Some (s_tenant sub)"

text \<open>
  The effect of one operation on row \<open>i\<close>, in the four ways it can go: unchanged, ended with a feed
  entry, evolved, inserted, or reaped once it is no longer live.
\<close>

definition ended :: "sess_store \<Rightarrow> instant \<Rightarrow> uuid \<Rightarrow> srow \<Rightarrow> sess_store \<Rightarrow> bool" where
  "ended s now i r s' \<longleftrightarrow>
     (\<exists>e \<in> set (ss_feed s').
        ss_seq s < fe_seq e \<and> fe_expires e = w_AbsoluteExpiresAt r \<and>
        fe_rev e = \<lparr>sr_Tenant = s_tenant (w_Subject r), sr_Session = i, sr_At = now\<rparr>)"

definition row_effect ::
  "sess_op \<Rightarrow> instant \<Rightarrow> sess_store \<Rightarrow> sess_store \<Rightarrow> uuid \<Rightarrow> srow option \<Rightarrow> srow option \<Rightarrow> bool" where
  "row_effect op now s s' i x y \<longleftrightarrow>
     x = y \<or>
     (\<exists>r. x = Some r \<and> y = None \<and> op = OpReap \<and> \<not> live r now) \<or>
     (\<exists>r. x = Some r \<and> y = None \<and> op_tenant op = Some (s_tenant (w_Subject r)) \<and> ended s now i r s') \<or>
     (\<exists>r r'. x = Some r \<and> y = Some r' \<and> op_tenant op = Some (s_tenant (w_Subject r)) \<and> row_evolves r r') \<or>
     (\<exists>r. x = None \<and> y = Some r \<and> op_tenant op = Some (s_tenant (w_Subject r)))"

lemma ended_end: "map_of (ss_rows s) i = Some r \<Longrightarrow> ended s now i r (sessions_end i now s)"
  by (simp add: ended_def sessions_end_def)

lemma ended_put: "ended s now i r s' \<Longrightarrow> ended s now i r (sessions_put row s')"
  by (simp add: ended_def)

lemma ended_endWhere:
  assumes inv: "sess_inv s" and r: "map_of (ss_rows s) i = Some r" "match r"
  shows "ended s now i r (sessions_endWhere now match s)"
proof -
  let ?v = "victims match s"
  have "i \<in> set ?v" using r victims_iff [OF inv] by blast
  then obtain k where k: "k < length ?v" "?v ! k = i" by (auto simp: in_set_conv_nth)
  let ?n = "Suc (ss_seq s + k)"
  have "(?n, i) \<in> set (zip [Suc (ss_seq s)..<Suc (ss_seq s + length ?v)] ?v)"
    using k by (auto simp: set_zip simp del: upt_Suc intro!: exI [of _ k])
  then have "end_entry s now ?n i \<in> set (ss_feed (end_all now s ?v))"
    unfolding feed_end_all(2) [OF distinct_victims [OF inv] victims_dom [OF inv]] by force
  then show ?thesis
    using r(1) unfolding ended_def endWhere_alt by (intro bexI) (auto simp: end_entry_def)
qed

lemma row_effect_endWhere:
  "sess_inv s \<Longrightarrow> (\<And>r. match r \<Longrightarrow> op_tenant op = Some (s_tenant (w_Subject r))) \<Longrightarrow>
   row_effect op now s (sessions_endWhere now match s) i (map_of (ss_rows s) i)
     (map_of (ss_rows (sessions_endWhere now match s)) i)"
  by (auto simp: row_effect_def rows_endWhere ended_endWhere split: option.splits)

lemma row_effect_intros:
  "row_effect op now s s' i x x"
  "\<not> live r now \<Longrightarrow> row_effect OpReap now s s' i (Some r) None"
  "op_tenant op = Some (s_tenant (w_Subject r)) \<Longrightarrow> ended s now i r s' \<Longrightarrow> row_effect op now s s' i (Some r) None"
  "op_tenant op = Some (s_tenant (w_Subject r)) \<Longrightarrow> row_evolves r r' \<Longrightarrow> row_effect op now s s' i (Some r) (Some r')"
  "op_tenant op = Some (s_tenant (w_Subject r)) \<Longrightarrow> row_effect op now s s' i None (Some r)"
  by (simp_all add: row_effect_def)

lemma row_effect_end:
  "map_of (ss_rows s) j = Some r \<Longrightarrow> op_tenant op = Some (s_tenant (w_Subject r)) \<Longrightarrow>
   row_effect op now s (sessions_end j now s) i (map_of (ss_rows s) i) (map_of (ss_rows (sessions_end j now s)) i)"
  by (cases "i = j") (simp_all add: row_effect_intros ended_end)

lemma row_effect_update:
  "map_of (ss_rows s) j = Some r \<Longrightarrow> op_tenant op = Some (s_tenant (w_Subject r)) \<Longrightarrow> row_evolves r r' \<Longrightarrow>
   row_effect op now s s' i (map_of (ss_rows s) i) (((map_of (ss_rows s))(j \<mapsto> r')) i)"
  by (cases "i = j") (simp_all add: row_effect_intros)

lemma row_effect_put:
  "map_of (ss_rows s) (w_ID r) = None \<Longrightarrow> op_tenant op = Some (s_tenant (w_Subject r)) \<Longrightarrow>
   row_effect op now s s' i (map_of (ss_rows s) i) (map_of (ss_rows (sessions_put r s)) i)"
  by (cases "i = w_ID r") (simp_all add: row_effect_intros rows_put)

lemma rotates_row: "sess_inv s \<Longrightarrow> rotates s clk q r \<Longrightarrow> map_of (ss_rows s) (w_ID r) = Some r"
  unfolding rotates_def by (blast dest: lookup_Some(1))

lemma row_effect_Rotate:
  assumes inv: "sess_inv s"
  shows "row_effect (OpRotate q) (store_now clk) s s' i (map_of (ss_rows s) i)
    (map_of (ss_rows (snd (sessions_Rotate None clk q s))) i)"
proof -
  consider r where "rotates s clk q r" "snd (sessions_Rotate None clk q s) = rotate_to r (rotated r (rq_Next q)) s"
    | "snd (sessions_Rotate None clk q s) = s"
    using Rotate_result [OF inv, of clk q] by auto
  then show ?thesis
  proof cases
    case 1
    have r: "map_of (ss_rows s) (w_ID r) = Some r" by (rule rotates_row [OF inv 1(1)])
    have q: "w_ID r = w_ID (srec (rq_Next q))" "row_evolves r (rotated r (rq_Next q))"
      "w_Subject r = w_Subject (srec (rq_Next q))"
      using 1(1) by (auto simp: rotates_def row_evolves_def sameSession_def)
    show ?thesis
      unfolding 1(2) rows_rotate_to rotated_fields(1) q(1) [symmetric]
      by (rule row_effect_update [OF r _ q(2)]) (simp add: q(3))
  qed (simp add: row_effect_intros)
qed

lemma row_effect_Replace:
  "row_effect (OpReplace q) (store_now clk) s (snd (sessions_Replace None clk q s)) i (map_of (ss_rows s) i)
    (map_of (ss_rows (snd (sessions_Replace None clk q s))) i)"
proof -
  let ?row = "sessions_rowOf (rp_Next q)" and ?now = "store_now clk"
  consider r where "map_of (ss_rows s) (rp_Previous q) = Some r" "sameSession r (rp_Next q)"
      "w_ID (srec (rp_Next q)) \<noteq> rp_Previous q" "map_of (ss_rows s) (w_ID (srec (rp_Next q))) = None"
      "snd (sessions_Replace None clk q s) = sessions_put ?row (sessions_end (rp_Previous q) ?now s)"
    | "snd (sessions_Replace None clk q s) = s"
    using Replace_result [of s q clk] by auto
  then show ?thesis
  proof cases
    case 1
    have t: "op_tenant (OpReplace q) = Some (s_tenant (w_Subject r))" using 1(2) by (simp add: sameSession_def)
    have e: "ended s ?now (rp_Previous q) r (sessions_put ?row (sessions_end (rp_Previous q) ?now s))"
      by (intro ended_put ended_end 1(1))
    consider "i = rp_Previous q" | "i = w_ID ?row" | "i \<noteq> rp_Previous q" "i \<noteq> w_ID ?row" by blast
    then show ?thesis
    proof cases
      case i: 1
      then show ?thesis
        unfolding 1(5) using 1(1,3) row_effect_intros(3) [OF t e] by (simp add: rows_put)
    next
      case i: 2
      then show ?thesis unfolding 1(5) using 1(4) by (simp add: rows_put row_effect_intros)
    next
      case i: 3
      then show ?thesis unfolding 1(5) by (simp add: rows_put row_effect_intros)
    qed
  qed (simp add: row_effect_intros)
qed

lemma row_effect_Touch:
  assumes inv: "sess_inv s"
  shows "row_effect (OpTouch t h u) (store_now clk) s s' i (map_of (ss_rows s) i)
    (map_of (ss_rows (snd (sessions_Touch None clk t h u s))) i)"
proof -
  consider r where "sessions_lookup t h (store_now clk) s = Ok (Some r)"
      "map_of (ss_rows (snd (sessions_Touch None clk t h u s))) = (map_of (ss_rows s))(w_ID r \<mapsto> touched u r)"
    | "snd (sessions_Touch None clk t h u s) = s"
    using Touch_result [OF inv, of t h clk u] by auto
  then show ?thesis
  proof cases
    case 1
    note l = lookup_Some [OF inv 1(1)]
    show ?thesis
      unfolding 1(2) by (rule row_effect_update [OF l(1)]) (simp_all add: l(3) row_evolves_def)
  qed (simp add: row_effect_intros)
qed

lemma row_effect_Revoke:
  assumes inv: "sess_inv s"
  shows "row_effect (OpRevoke t h) (store_now clk) s (snd (sessions_Revoke None clk t h s)) i
    (map_of (ss_rows s) i) (map_of (ss_rows (snd (sessions_Revoke None clk t h s))) i)"
proof (cases "row_of s h")
  case (Some r)
  then have "map_of (ss_rows s) (w_ID r) = Some r" using row_of_iff [OF inv] by blast
  with Some show ?thesis
    using row_effect_end [of s "w_ID r" r "OpRevoke t h" "store_now clk" i]
    by (auto simp: Revoke_result [OF inv] row_effect_intros simp del: rows_end)
qed (simp add: Revoke_result [OF inv] row_effect_intros)

lemma row_effect_RevokeSession:
  "row_effect (OpRevokeSession sub j) (store_now clk) s (snd (sessions_RevokeSession None clk sub j s)) i
    (map_of (ss_rows s) i) (map_of (ss_rows (snd (sessions_RevokeSession None clk sub j s))) i)"
  using row_effect_end [of s j _ "OpRevokeSession sub j" "store_now clk" i]
  by (cases "map_of (ss_rows s) j") (auto simp: sessions_RevokeSession_def row_effect_intros simp del: rows_end)

lemma row_effect_Reap:
  assumes "sess_inv s"
  shows "row_effect OpReap (store_now clk) s s' i (map_of (ss_rows s) i)
    (map_of (ss_rows (snd (sessions_ReapExpired None clk s))) i)"
  by (cases "map_of (ss_rows s) i") (simp_all add: rows_reap [OF assms] row_effect_intros)

lemma row_effect_Create:
  "row_effect (OpCreate r) now s s' i (map_of (ss_rows s) i) (map_of (ss_rows (snd (sessions_Create None r s))) i)"
  using Create_result [of r s] row_effect_put [of s "sessions_rowOf r" "OpCreate r" now s' i]
  by (auto simp: Let_def row_effect_intros)

lemma exec_row_effect:
  assumes inv: "sess_inv s"
  shows "row_effect op (store_now clk) s (snd (sess_exec ctx clk op s)) i (map_of (ss_rows s) i)
    (map_of (ss_rows (snd (sess_exec ctx clk op s))) i)"
proof (cases ctx)
  case (Some e)
  then show ?thesis by (simp add: exec_ctx row_effect_intros)
next
  case None
  show ?thesis
  proof (cases op)
    case (OpGet t h)
    then show ?thesis
      using None by (cases "row_of s h") (simp_all add: Get_result [OF inv] row_effect_intros)
  qed (simp_all add: None row_effect_Rotate [OF inv] row_effect_Replace row_effect_Touch [OF inv]
      row_effect_Revoke [OF inv] row_effect_RevokeSession row_effect_Reap [OF inv] row_effect_Create
      sessions_EraseTenant_def sessions_RevokeForSubject_def sessions_DeleteForSubject_def
      sessions_RevocationsSince_def row_effect_intros(1), auto intro!: row_effect_endWhere [OF inv])
qed

section \<open>A concrete run\<close>

definition demo_row :: "uuid \<Rightarrow> byte \<Rightarrow> srow" where
  "demo_row i b =
     \<lparr>w_ID = i, w_TokenHash = replicate 32 b, w_Subject = \<lparr>s_tenant = TenantID ''acme'', s_user = 7\<rparr>,
      w_Lineage = 99, w_Sealed = Sealed [1], w_AppClaims = [], w_SecurityEpoch = 3, w_ClientFingerprint = [],
      w_IdleExpiresAt = 60000, w_AbsoluteExpiresAt = 90000, w_CheckedAt = 4000, w_CreatedAt = 4000\<rparr>"

definition demo_store :: sess_store where
  "demo_store = snd (sess_exec None 5000 (OpCreate (SRecord (demo_row 1 10))) sessions_New)"

lemma demo_store_eq:
  "demo_store = \<lparr>ss_rows = [(1, demo_row 1 10)], ss_byHash = [(replicate 32 10, 1)], ss_feed = [], ss_seq = 0\<rparr>"
  unfolding demo_store_def by code_simp

lemma demo_store_reach: "sess_reach demo_store"
  unfolding demo_store_def by (rule r_into_rtranclp, rule step) (simp add: zero_time_def)

section \<open>Properties\<close>

text \<open>
  C10. The store is always consistent. After any sequence of operations from the empty store, at any
  clock readings and with contexts cancelled at any point, the rows and the digest index describe each
  other, every stored row is one \<^verbatim>\<open>Restore\<close> accepts, the feed is numbered in order; and no further
  operation dereferences a missing row. An operation on a cancelled context changes nothing.
\<close>

theorem sessions_store_safe:
  assumes "sess_reach s" and "zero_time \<le> clk"
  shows "sess_inv s \<and> sess_inv (snd (sess_exec ctx clk op s)) \<and> fst (sess_exec ctx clk op s) \<noteq> Panic \<and>
    sess_exec (Some e) clk op s = (Err e, s)"
  using exec_inv [OF sess_reach_inv [OF assms(1)] assms(2)] sess_reach_inv [OF assms(1)] by (simp add: exec_ctx)

theorem sessions_store_safe_witness:
  "sess_inv demo_store \<and> fst (sess_exec None 6000 (OpRevoke (TenantID ''acme'') (replicate 32 10)) demo_store) \<noteq> Panic"
proof -
  have "zero_time \<le> 6000" by (simp add: zero_time_def)
  from sessions_store_safe [OF demo_store_reach this] show ?thesis by blast
qed

text \<open>
  C11. Get is exact. In every reachable state a lookup returns the stored row of that digest when it is
  of the given tenant and neither idle nor absolutely expired at the store's clock, and
  \<^verbatim>\<open>store.ErrNotFound\<close> in every other case: unknown digest, other tenant, expired. It never changes the
  store and never fails to restore a row.
\<close>

theorem sessions_get_exact:
  assumes "sess_reach s"
  shows "sessions_Get None clk t h s =
      (case row_of s h of
         None \<Rightarrow> (Err [StoreErr ErrNotFound], s)
       | Some r \<Rightarrow> if s_tenant (w_Subject r) = t \<and> live r (store_now clk) then (Ok (SRecord r), s)
                   else (Err [StoreErr ErrNotFound], s))"
  by (rule Get_result [OF sess_reach_inv [OF assms]])

theorem sessions_get_exact_witness:
  "sessions_Get None 6000 (TenantID ''acme'') (replicate 32 10) demo_store =
     (Ok (SRecord (demo_row 1 10)), demo_store)"
proof -
  have "row_of demo_store (replicate 32 10) = Some (demo_row 1 10)"
    "s_tenant (w_Subject (demo_row 1 10)) = TenantID ''acme'' \<and> live (demo_row 1 10) (store_now 6000)"
    unfolding demo_store_eq by code_simp+
  then show ?thesis
    using sessions_get_exact [OF demo_store_reach, of 6000 "TenantID ''acme''" "replicate 32 10"] by simp
qed

text \<open>
  C12. Create then Get. Creating a record either changes nothing and reports an error, or makes its
  digest name exactly that record (instants cut to the microsecond) and leaves every other digest
  naming what it named; and a record is refused only when it is invalid or its id or digest is taken.
\<close>

theorem sessions_create_get:
  assumes "sess_reach s"
  shows "case sessions_Create None x s of
      (Ok u, s') \<Rightarrow> row_of s' = (row_of s)(w_TokenHash (srec x) \<mapsto> sessions_rowOf x) \<and>
                    row_of s (w_TokenHash (srec x)) = None
    | (Err e, s') \<Rightarrow> s' = s \<and>
         (if errors_Is e (StoreErr ErrConflict)
          then map_of (ss_rows s) (w_ID (srec x)) \<noteq> None \<or> row_of s (w_TokenHash (srec x)) \<noteq> None
          else errors_Is e (SessionsErr ErrInvalidRecord))
    | (Panic, s') \<Rightarrow> False"
proof -
  note inv = sess_reach_inv [OF assms]
  let ?h = "w_TokenHash (srec x)" and ?i = "w_ID (srec x)"
  have taken: "map_of (ss_byHash s) ?h \<noteq> None \<longleftrightarrow> row_of s ?h \<noteq> None"
    using sess_inv_hash [OF inv, of ?h] by (auto simp: row_of_def split: option.splits)
  have put: "row_of (sessions_put (sessions_rowOf x) s) = (row_of s)(?h \<mapsto> sessions_rowOf x)"
    if "map_of (ss_rows s) ?i = None"
    using that sess_inv_hash [OF inv]
    by (fastforce simp: fun_eq_iff row_of_def sessions_put_def split: option.splits)
  show ?thesis
    using taken put
    by (cases "sessions_checkRow (sessions_rowOf x)")
      (auto simp: sessions_Create_def sessions_Restore_def sessions_checkRow_def errors_New_def errors_Is_def
        errors_Join_def Let_def split: if_splits)
qed

theorem sessions_create_get_witness:
  "row_of demo_store (replicate 32 10) = Some (demo_row 1 10)"
proof -
  have "sessions_Create None (SRecord (demo_row 1 10)) sessions_New = (Ok (), demo_store)"
    unfolding demo_store_def by code_simp
  moreover have "w_TokenHash (srec (SRecord (demo_row 1 10))) = replicate 32 10"
    "sessions_rowOf (SRecord (demo_row 1 10)) = demo_row 1 10"
    by code_simp+
  ultimately show ?thesis
    using sessions_create_get [OF rtranclp.rtrancl_refl, of "SRecord (demo_row 1 10)"] by simp
qed

text \<open>
  C13. No session ends unrecorded. When an operation other than the reaper removes a row, the feed
  gains an entry numbered above every earlier one, naming that session, its tenant and the instant and
  kept until the session's absolute expiry; and the reaper removes only rows that are no longer live.
\<close>

theorem sessions_end_recorded:
  assumes "sess_reach s" and "map_of (ss_rows s) i = Some r"
    and "map_of (ss_rows (snd (sess_exec ctx clk op s))) i = None"
  shows "if op = OpReap then \<not> live r (store_now clk)
    else \<exists>e \<in> set (ss_feed (snd (sess_exec ctx clk op s))).
      ss_seq s < fe_seq e \<and> fe_expires e = w_AbsoluteExpiresAt r \<and>
      fe_rev e = \<lparr>sr_Tenant = s_tenant (w_Subject r), sr_Session = i, sr_At = store_now clk\<rparr>"
  using exec_row_effect [OF sess_reach_inv [OF assms(1)], of op clk ctx i] assms(2,3)
  by (auto simp: row_effect_def ended_def)

theorem sessions_end_recorded_witness:
  "\<exists>e \<in> set (ss_feed (snd (sess_exec None 6000 (OpRevoke (TenantID ''acme'') (replicate 32 10)) demo_store))).
     ss_seq demo_store < fe_seq e \<and> fe_expires e = 90000 \<and>
     fe_rev e = \<lparr>sr_Tenant = TenantID ''acme'', sr_Session = 1, sr_At = store_now 6000\<rparr>"
proof -
  let ?op = "OpRevoke (TenantID ''acme'') (replicate 32 10)"
  have "map_of (ss_rows demo_store) 1 = Some (demo_row 1 10)"
    "map_of (ss_rows (snd (sess_exec None 6000 ?op demo_store))) 1 = None"
    unfolding demo_store_eq by code_simp+
  from sessions_end_recorded [OF demo_store_reach this] show ?thesis
    by (simp add: demo_row_def)
qed



text \<open>
  C15. A session row keeps its identity and never outlives its end. Through any sequence of operations
  during which row \<open>i\<close> stays in the store, however often it is touched or rotated, its id, subject,
  lineage and creation time do not change and its absolute expiry never moves later; its idle expiry
  stays within the absolute expiry it had at the start.
\<close>

theorem sessions_row_identity:
  assumes "sess_reach s" and "map_of (ss_rows s) i = Some r"
    and "(\<lambda>a b. sess_step a b \<and> map_of (ss_rows b) i \<noteq> None)\<^sup>*\<^sup>* s s'"
    and "map_of (ss_rows s') i = Some r'"
  shows "row_evolves r r' \<and> w_IdleExpiresAt r' \<le> w_AbsoluteExpiresAt r"
proof -
  have "sess_reach s' \<and> (\<exists>q. map_of (ss_rows s') i = Some q \<and> row_evolves r q)"
    using assms(3)
  proof (induction rule: rtranclp_induct)
    case (step a b)
    then obtain q where q: "sess_reach a" "map_of (ss_rows a) i = Some q" "row_evolves r q" by blast
    obtain p where p: "map_of (ss_rows b) i = Some p" using step.hyps(2) by auto
    from step.hyps(2) obtain ctx clk op where b: "b = snd (sess_exec ctx clk op a)"
      by (auto elim: sess_stepE)
    have "row_evolves q p"
      using exec_row_effect [OF sess_reach_inv [OF q(1)], of op clk ctx i] q(2) p unfolding b row_effect_def by auto
    then have "row_evolves r p" by (rule row_evolves_trans [OF q(3)])
    moreover have "sess_reach b" using q(1) step.hyps(2) by (auto intro: rtranclp.rtrancl_into_rtrancl)
    ultimately show ?case using p by blast
  qed (use assms(1,2) in simp)
  then have s': "sess_reach s'" "row_evolves r r'" using assms(4) by auto
  then show ?thesis
    using sess_inv_row(2) [OF sess_reach_inv [OF s'(1)] assms(4)] by (auto simp: row_evolves_def sessions_checkRow_Ok)
qed

theorem sessions_row_identity_witness:
  "row_evolves (demo_row 1 10) ((demo_row 1 10)\<lparr>w_IdleExpiresAt := 90000\<rparr>)"
proof -
  let ?s = "snd (sess_exec None 6000 (OpTouch (TenantID ''acme'') (replicate 32 10) 999000) demo_store)"
  have r: "map_of (ss_rows demo_store) 1 = Some (demo_row 1 10)"
    "map_of (ss_rows ?s) 1 = Some ((demo_row 1 10)\<lparr>w_IdleExpiresAt := 90000\<rparr>)"
    unfolding demo_store_eq by code_simp+
  have "sess_step demo_store ?s" by (rule step) (simp add: zero_time_def)
  with r(2) have "(\<lambda>a b. sess_step a b \<and> map_of (ss_rows b) 1 \<noteq> None)\<^sup>*\<^sup>* demo_store ?s" by auto
  from sessions_row_identity [OF demo_store_reach r(1) this r(2)] show ?thesis by blast
qed

text \<open>
  C16. Tenants are isolated. An operation scoped to one tenant, through a tenant, a subject or a record,
  leaves every row of every other tenant as it was, so the result of any lookup for another tenant is
  the same before and after it.
\<close>

theorem sessions_tenant_isolation:
  assumes "sess_reach s" and "op_tenant op = Some t" and "t' \<noteq> t" and "zero_time \<le> clk"
  shows "fst (sessions_Get None clk' t' h (snd (sess_exec ctx clk op s))) = fst (sessions_Get None clk' t' h s)"
proof -
  let ?s' = "snd (sess_exec ctx clk op s)"
  note inv = sess_reach_inv [OF assms(1)]
  have inv': "sess_inv ?s'" using exec_inv [OF inv assms(4)] by blast
  have rows: "map_of (ss_rows ?s') i = Some r \<longleftrightarrow> map_of (ss_rows s) i = Some r"
    if "s_tenant (w_Subject r) = t'" for i r
    using exec_row_effect [OF inv, of op clk ctx i] that assms(2,3)
    by (auto simp: row_effect_def row_evolves_def)
  have "row_of ?s' h = Some r \<longleftrightarrow> row_of s h = Some r" if "s_tenant (w_Subject r) = t'" for r
    unfolding row_of_iff [OF inv] row_of_iff [OF inv'] using rows [OF that] by simp
  then show ?thesis
    by (cases "row_of s h"; cases "row_of ?s' h") (force simp: Get_result [OF inv] Get_result [OF inv'])+
qed

theorem sessions_tenant_isolation_witness:
  "fst (sessions_Get None 6000 (TenantID ''acme'') (replicate 32 10)
     (snd (sess_exec None 5500 (OpErase (TenantID ''other'')) demo_store))) =
   fst (sessions_Get None 6000 (TenantID ''acme'') (replicate 32 10) demo_store)"
  by (rule sessions_tenant_isolation [OF demo_store_reach, of _ "TenantID ''other''"]) (simp_all add: zero_time_def)

text \<open>
  C17. Signing a user out everywhere is exact. RevokeForSubject removes every row of the subject except
  those of the kept lineage (none is kept for the nil lineage) and no other row, and appends one feed
  entry per removed row, in the order of their ids, with consecutive numbers.
\<close>

theorem sessions_revoke_for_subject_exact:
  assumes "sess_reach s" and "sessions_RevokeForSubject None clk sub l s = (res, s')"
  shows "res = Ok () \<and>
    (\<forall>i. map_of (ss_rows s') i =
      (case map_of (ss_rows s) i of None \<Rightarrow> None
       | Some r \<Rightarrow> if w_Subject r = sub \<and> (l = uuid_Nil \<or> w_Lineage r \<noteq> l) then None else Some r)) \<and>
    (\<exists>is. sorted is \<and> distinct is \<and>
      (\<forall>i. i \<in> set is \<longleftrightarrow>
        (\<exists>r. map_of (ss_rows s) i = Some r \<and> w_Subject r = sub \<and> (l = uuid_Nil \<or> w_Lineage r \<noteq> l))) \<and>
      map (\<lambda>e. sr_Session (fe_rev e)) (ss_feed s') = map (\<lambda>e. sr_Session (fe_rev e)) (ss_feed s) @ is \<and>
      ss_seq s' = ss_seq s + length is)"
proof -
  note inv = sess_reach_inv [OF assms(1)]
  let ?m = "\<lambda>r. w_Subject r = sub \<and> (l = uuid_Nil \<or> w_Lineage r \<noteq> l)" and ?now = "store_now clk"
  let ?is = "victims ?m s"
  have s': "res = Ok ()" "s' = sessions_endWhere ?now ?m s"
    using assms(2) by (auto simp: sessions_RevokeForSubject_def)
  note feed = feed_end_all [OF distinct_victims [OF inv] victims_dom [OF inv], of ?now ?m]
  have "map (\<lambda>e. sr_Session (fe_rev e)) (map (\<lambda>(n, i). end_entry s ?now n i)
      (zip [Suc (ss_seq s)..<Suc (ss_seq s + length ?is)] ?is)) = ?is"
    by (rule nth_equalityI) (simp_all add: end_entry_def Let_def del: upt_Suc)
  then have "map (\<lambda>e. sr_Session (fe_rev e)) (ss_feed s') = map (\<lambda>e. sr_Session (fe_rev e)) (ss_feed s) @ ?is"
    unfolding s'(2) endWhere_alt feed(2) by (simp del: upt_Suc)
  moreover have "ss_seq s' = ss_seq s + length ?is" unfolding s'(2) endWhere_alt feed(1) by simp
  moreover have "\<forall>i. i \<in> set ?is \<longleftrightarrow> (\<exists>r. map_of (ss_rows s) i = Some r \<and> ?m r)"
    using victims_iff [OF inv, of _ ?m] by blast
  ultimately show ?thesis
    using s' rows_endWhere [OF inv, of ?now ?m] sorted_victims distinct_victims [OF inv, of ?m]
    by (intro conjI exI [of _ ?is]) simp_all
qed

theorem sessions_revoke_for_subject_exact_witness:
  "map_of (ss_rows (snd (sessions_RevokeForSubject None 6000 \<lparr>s_tenant = TenantID ''acme'', s_user = 7\<rparr> uuid_Nil demo_store))) 1 = None"
proof -
  let ?sub = "\<lparr>s_tenant = TenantID ''acme'', s_user = 7\<rparr>"
  have "map_of (ss_rows demo_store) 1 = Some (demo_row 1 10)" unfolding demo_store_eq by code_simp
  then show ?thesis
    using sessions_revoke_for_subject_exact [OF demo_store_reach, of 6000 ?sub uuid_Nil
        "fst (sessions_RevokeForSubject None 6000 ?sub uuid_Nil demo_store)"
        "snd (sessions_RevokeForSubject None 6000 ?sub uuid_Nil demo_store)"]
    by (simp add: demo_row_def)
qed

end
