(* ===== verification/Revoke_LRU.thy ===== *)
theory Revoke_LRU
  imports Prelude
begin

text \<open>
  The bounded cache of the revocation followers, \<^verbatim>\<open>internal/revoke/lru.go\<close>: a map from keys to the nodes
  of a doubly linked list in use order. Nodes live in an explicit heap, so the pointer updates of
  \<^verbatim>\<open>unlink\<close> and \<^verbatim>\<open>pushFront\<close> are written as in the code; a pointer is an address and nil is \<open>None\<close>. The
  refinement lemmas show that the structure behaves as a plain list of key-value pairs, most recently
  used first, of bounded length.
\<close>

section \<open>Nodes and the cache\<close>

record ('k, 'v) node =
  n_key :: 'k
  n_val :: 'v
  n_prev :: "nat option"
  n_next :: "nat option"

text \<open>\<open>l_fresh\<close> is the next unallocated address.\<close>

record ('k, 'v) lru =
  l_capacity :: int
  l_items :: "('k, nat) gomap"
  l_head :: "nat option"
  l_tail :: "nat option"
  l_heap :: "nat \<Rightarrow> ('k, 'v) node"
  l_fresh :: nat

definition newLRU :: "int \<Rightarrow> ('k, 'v) lru" where
  "newLRU capacity =
     \<lparr>l_capacity = capacity, l_items = [], l_head = None, l_tail = None, l_heap = (\<lambda>_. undefined), l_fresh = 0\<rparr>"

definition lru_len :: "('k, 'v) lru \<Rightarrow> nat" where
  "lru_len l = length (l_items l)"

definition set_prev :: "nat \<Rightarrow> nat option \<Rightarrow> ('k, 'v) lru \<Rightarrow> ('k, 'v) lru" where
  "set_prev a p l = l\<lparr>l_heap := (l_heap l)(a := (l_heap l a)\<lparr>n_prev := p\<rparr>)\<rparr>"

definition set_next :: "nat \<Rightarrow> nat option \<Rightarrow> ('k, 'v) lru \<Rightarrow> ('k, 'v) lru" where
  "set_next a p l = l\<lparr>l_heap := (l_heap l)(a := (l_heap l a)\<lparr>n_next := p\<rparr>)\<rparr>"

definition lru_pushFront :: "nat \<Rightarrow> ('k, 'v) lru \<Rightarrow> ('k, 'v) lru" where
  "lru_pushFront n l0 =
     (let l = set_next n (l_head l0) (set_prev n None l0);
          l = (case l_head l of Some h \<Rightarrow> set_prev h (Some n) l | None \<Rightarrow> l);
          l = l\<lparr>l_head := Some n\<rparr>
      in if l_tail l = None then l\<lparr>l_tail := Some n\<rparr> else l)"

definition lru_unlink :: "nat \<Rightarrow> ('k, 'v) lru \<Rightarrow> ('k, 'v) lru" where
  "lru_unlink n l =
     (let l = (case n_prev (l_heap l n) of
                 Some p \<Rightarrow> set_next p (n_next (l_heap l n)) l
               | None \<Rightarrow> l\<lparr>l_head := n_next (l_heap l n)\<rparr>);
          l = (case n_next (l_heap l n) of
                 Some q \<Rightarrow> set_prev q (n_prev (l_heap l n)) l
               | None \<Rightarrow> l\<lparr>l_tail := n_prev (l_heap l n)\<rparr>)
      in set_next n None (set_prev n None l))"

definition lru_get :: "'k \<Rightarrow> ('k, 'v) lru \<Rightarrow> 'v option \<times> ('k, 'v) lru" where
  "lru_get k l =
     (case map_of (l_items l) k of
        None \<Rightarrow> (None, l)
      | Some n \<Rightarrow>
          (let l = lru_pushFront n (lru_unlink n l) in (Some (n_val (l_heap l n)), l)))"

text \<open>
  The eviction loop of \<^verbatim>\<open>put\<close>, bounded by the number of entries, which is enough because every iteration
  removes one.
\<close>

fun lru_evict :: "nat \<Rightarrow> ('k, 'v) lru \<Rightarrow> ('k, 'v) lru" where
  "lru_evict 0 l = l"
| "lru_evict (Suc fuel) l =
     (if int (length (l_items l)) > l_capacity l then
        (case l_tail l of
           None \<Rightarrow> l
         | Some old \<Rightarrow>
             (let l' = lru_unlink old l
              in lru_evict fuel (l'\<lparr>l_items := AList.delete (n_key (l_heap l' old)) (l_items l')\<rparr>)))
      else l)"

definition lru_put :: "'k \<Rightarrow> 'v \<Rightarrow> ('k, 'v) lru \<Rightarrow> ('k, 'v) lru" where
  "lru_put k v l =
     (case map_of (l_items l) k of
        Some n \<Rightarrow>
          lru_pushFront n (lru_unlink n (l\<lparr>l_heap := (l_heap l)(n := (l_heap l n)\<lparr>n_val := v\<rparr>)\<rparr>))
      | None \<Rightarrow>
          (let n = l_fresh l;
               l = l\<lparr>l_heap := (l_heap l)(n := \<lparr>n_key = k, n_val = v, n_prev = None, n_next = None\<rparr>),
                     l_fresh := n + 1,
                     l_items := AList.update k n (l_items l)\<rparr>;
               l = lru_pushFront n l
           in lru_evict (length (l_items l)) l))"

definition lru_remove :: "'k \<Rightarrow> ('k, 'v) lru \<Rightarrow> ('k, 'v) lru" where
  "lru_remove k l =
     (case map_of (l_items l) k of
        None \<Rightarrow> l
      | Some n \<Rightarrow> (let l = lru_unlink n l in l\<lparr>l_items := AList.delete k (l_items l)\<rparr>))"

text \<open>The body of the loop of \<^verbatim>\<open>removeWhere\<close> for one item; the loop ranges over the items it started with.\<close>

definition lru_dropIf :: "('k \<Rightarrow> 'v \<Rightarrow> bool) \<Rightarrow> ('k, 'v) lru \<Rightarrow> 'k \<times> nat \<Rightarrow> ('k, 'v) lru" where
  "lru_dropIf drop' l kn =
     (case kn of (k, n) \<Rightarrow>
        if drop' k (n_val (l_heap l n))
        then (let l = lru_unlink n l in l\<lparr>l_items := AList.delete k (l_items l)\<rparr>) else l)"

definition lru_removeWhere :: "('k \<Rightarrow> 'v \<Rightarrow> bool) \<Rightarrow> ('k, 'v) lru \<Rightarrow> ('k, 'v) lru" where
  "lru_removeWhere drop' l = foldl (lru_dropIf drop') l (l_items l)"

definition lru_clear :: "('k, 'v) lru \<Rightarrow> ('k, 'v) lru" where
  "lru_clear l = l\<lparr>l_items := [], l_head := None, l_tail := None\<rparr>"

section \<open>List segments in the heap\<close>

definition hd_or :: "nat list \<Rightarrow> nat option \<Rightarrow> nat option" where
  "hd_or as q = (if as = [] then q else Some (hd as))"

definition last_or :: "nat list \<Rightarrow> nat option \<Rightarrow> nat option" where
  "last_or as p = (if as = [] then p else Some (last as))"

lemma hd_or_simps [simp]: "hd_or [] q = q" "hd_or (a # as) q = Some a" "hd_or (xs @ ys) q = hd_or xs (hd_or ys q)"
  by (simp_all add: hd_or_def)

lemma last_or_simps [simp]: "last_or [] p = p" "last_or (a # as) p = last_or as (Some a)"
  "last_or (xs @ ys) p = last_or ys (last_or xs p)"
  by (simp_all add: last_or_def)

fun seg :: "(nat \<Rightarrow> ('k, 'v) node) \<Rightarrow> nat option \<Rightarrow> nat list \<Rightarrow> nat option \<Rightarrow> bool" where
  "seg h p [] q \<longleftrightarrow> True"
| "seg h p (a # as) q \<longleftrightarrow> n_prev (h a) = p \<and> n_next (h a) = hd_or as q \<and> seg h (Some a) as q"

lemma seg_append: "seg h p (xs @ ys) q \<longleftrightarrow> seg h p xs (hd_or ys q) \<and> seg h (last_or xs p) ys q"
  by (induction xs arbitrary: p) auto

lemma seg_cong:
  "(\<And>a. a \<in> set as \<Longrightarrow> n_prev (h a) = n_prev (h' a) \<and> n_next (h a) = n_next (h' a)) \<Longrightarrow> seg h p as q = seg h' p as q"
  by (induction as arbitrary: p) auto

lemma seg_upd [simp]: "b \<notin> set as \<Longrightarrow> seg (h(b := n)) p as q = seg h p as q"
  by (rule seg_cong) auto

lemma seg_set_first:
  "distinct (a # as) \<Longrightarrow> seg h p (a # as) q \<Longrightarrow> seg (h(a := (h a)\<lparr>n_prev := p'\<rparr>)) p' (a # as) q"
  by simp

lemma seg_set_last:
  "distinct (as @ [a]) \<Longrightarrow> seg h p (as @ [a]) q \<Longrightarrow> seg (h(a := (h a)\<lparr>n_next := q'\<rparr>)) p (as @ [a]) q'"
  by (simp add: seg_append)

section \<open>Representation\<close>

definition lru_at :: "('k, 'v) lru \<Rightarrow> nat list \<Rightarrow> bool" where
  "lru_at l as \<longleftrightarrow>
     distinct as \<and> seg (l_heap l) None as None \<and> l_head l = hd_or as None \<and> l_tail l = last_or as None \<and>
     (\<forall>a \<in> set as. a < l_fresh l)"

definition items_at :: "('k, 'v) lru \<Rightarrow> nat list \<Rightarrow> bool" where
  "items_at l as \<longleftrightarrow>
     wf_map (l_items l) \<and> (\<forall>k a. map_of (l_items l) k = Some a \<longleftrightarrow> a \<in> set as \<and> n_key (l_heap l a) = k)"

definition pairs_at :: "('k, 'v) lru \<Rightarrow> nat list \<Rightarrow> ('k \<times> 'v) list" where
  "pairs_at l as = map (\<lambda>a. (n_key (l_heap l a), n_val (l_heap l a))) as"

definition lru_rep :: "('k, 'v) lru \<Rightarrow> ('k \<times> 'v) list \<Rightarrow> bool" where
  "lru_rep l xs \<longleftrightarrow> (\<exists>as. lru_at l as \<and> items_at l as \<and> xs = pairs_at l as)"

text \<open>Payload and links are independent: the pointer operations change no key, value or item.\<close>

definition same_data :: "('k, 'v) lru \<Rightarrow> ('k, 'v) lru \<Rightarrow> bool" where
  "same_data l l' \<longleftrightarrow>
     l_items l' = l_items l \<and> l_capacity l' = l_capacity l \<and> l_fresh l' = l_fresh l \<and>
     (\<forall>a. n_key (l_heap l' a) = n_key (l_heap l a) \<and> n_val (l_heap l' a) = n_val (l_heap l a))"

lemma same_data_refl [simp]: "same_data l l"
  by (simp add: same_data_def)

lemma same_data_trans: "same_data a b \<Longrightarrow> same_data b c \<Longrightarrow> same_data a c"
  by (simp add: same_data_def)

lemma same_data_unlink: "same_data l (lru_unlink n l)"
  by (simp add: lru_unlink_def set_prev_def set_next_def same_data_def Let_def split: option.splits)

lemma same_data_pushFront: "same_data l (lru_pushFront n l)"
  by (simp add: lru_pushFront_def set_prev_def set_next_def same_data_def Let_def split: option.splits)

lemma same_data_pairs: "same_data l l' \<Longrightarrow> pairs_at l' as = pairs_at l as"
  by (simp add: same_data_def pairs_at_def)

lemma same_data_items: "same_data l l' \<Longrightarrow> items_at l' as = items_at l as"
  by (simp add: same_data_def items_at_def)

lemma lru_at_pushFront:
  assumes "lru_at l as" "n \<notin> set as" "n < l_fresh l"
  shows "lru_at (lru_pushFront n l) (n # as)"
proof (cases as)
  case Nil
  with assms show ?thesis
    by (simp add: lru_at_def lru_pushFront_def set_prev_def set_next_def Let_def)
next
  case (Cons b bs)
  with assms show ?thesis
    by (auto simp: lru_at_def lru_pushFront_def set_prev_def set_next_def Let_def last_or_def)
qed

lemma lru_at_unlink:
  assumes l: "lru_at l (xs @ n # ys)"
  shows "lru_at (lru_unlink n l) (xs @ ys)"
proof -
  have p: "n_prev (l_heap l n) = last_or xs None" and q: "n_next (l_heap l n) = hd_or ys None"
    using l by (auto simp: lru_at_def seg_append)
  show ?thesis
  proof (cases xs rule: rev_cases)
    case Nil
    then show ?thesis
      using l p q
      by (cases ys) (auto simp: lru_at_def lru_unlink_def set_prev_def set_next_def Let_def last_or_def)
  next
    case (snoc us u)
    then show ?thesis
      using l p q
      by (cases ys) (auto simp: lru_at_def seg_append lru_unlink_def set_prev_def set_next_def Let_def last_or_def)
  qed
qed

section \<open>Refinement to a list of pairs\<close>

lemma items_at_set: "set as = set bs \<Longrightarrow> items_at l as = items_at l bs"
  by (simp add: items_at_def)

lemma items_inj: "items_at l as \<Longrightarrow> inj_on (\<lambda>a. n_key (l_heap l a)) (set as)"
  by (rule inj_onI) (metis items_at_def option.inject)

lemma items_len:
  assumes "items_at l as" "distinct as"
  shows "length (l_items l) = length as"
proof -
  have "dom (map_of (l_items l)) = (\<lambda>a. n_key (l_heap l a)) ` set as"
    using assms(1) by (auto simp: items_at_def dom_def)
  then have "fst ` set (l_items l) = (\<lambda>a. n_key (l_heap l a)) ` set as"
    by (simp add: dom_map_of_conv_image_fst)
  then have "card (set (keys_of (l_items l))) = card (set as)"
    using card_image [OF items_inj [OF assms(1)]] by simp
  moreover have "wf_map (l_items l)" using assms(1) by (simp add: items_at_def)
  ultimately show ?thesis using assms(2) by (metis distinct_card length_map)
qed

lemma pairs_keys:
  assumes "items_at l as" "distinct as"
  shows "wf_map (pairs_at l as)"
  using assms items_inj [OF assms(1)] by (simp add: pairs_at_def distinct_map comp_def)

lemma pairs_map_of:
  assumes "items_at l as" "distinct as"
  shows "map_of (pairs_at l as) k = map_option (\<lambda>a. n_val (l_heap l a)) (map_of (l_items l) k)"
proof (cases "map_of (l_items l) k")
  case None
  then have "k \<notin> fst ` set (pairs_at l as)" using assms(1) by (force simp: pairs_at_def items_at_def)
  then have "map_of (pairs_at l as) k = None" by (simp add: map_of_eq_None_iff)
  with None show ?thesis by simp
next
  case (Some a)
  then have "(k, n_val (l_heap l a)) \<in> set (pairs_at l as)" using assms(1) by (auto simp: pairs_at_def items_at_def)
  with Some pairs_keys [OF assms] show ?thesis by (simp add: map_of_eq_Some_iff)
qed

lemma lru_repI: "lru_at l as \<Longrightarrow> items_at l as \<Longrightarrow> lru_rep l (pairs_at l as)"
  by (auto simp: lru_rep_def)

lemma lru_rep_keys: "lru_rep l xs \<Longrightarrow> wf_map xs"
  by (auto simp: lru_rep_def lru_at_def intro: pairs_keys)

lemma lru_rep_len: "lru_rep l xs \<Longrightarrow> lru_len l = length xs"
  by (auto simp: lru_rep_def lru_at_def lru_len_def items_len pairs_at_def)

lemma rep_new: "lru_rep (newLRU c) []"
  by (auto simp: lru_rep_def newLRU_def lru_at_def items_at_def pairs_at_def intro!: exI [of _ "[]"])

lemma pairs_delete:
  assumes "items_at l (xs @ n # ys)" "distinct (xs @ n # ys)"
  shows "AList.delete (n_key (l_heap l n)) (pairs_at l (xs @ n # ys)) = pairs_at l (xs @ ys)"
proof -
  have "n_key (l_heap l a) \<noteq> n_key (l_heap l n)" if "a \<in> set (xs @ ys)" for a
    using that assms inj_onD [OF items_inj [OF assms(1)], of a n] by auto
  then have "filter (\<lambda>a. n_key (l_heap l n) \<noteq> n_key (l_heap l a)) xs = xs"
    "filter (\<lambda>a. n_key (l_heap l n) \<noteq> n_key (l_heap l a)) ys = ys"
    by (metis (mono_tags, lifting) Un_iff filter_True set_append)+
  then show ?thesis
    by (simp add: pairs_at_def AList.delete_eq filter_map comp_def)
qed

text \<open>Moving a node to the front.\<close>

lemma at_to_front:
  assumes "lru_at l (xs @ n # ys)"
  shows "lru_at (lru_pushFront n (lru_unlink n l)) (n # xs @ ys)"
proof (rule lru_at_pushFront)
  show "lru_at (lru_unlink n l) (xs @ ys)" by (rule lru_at_unlink [OF assms])
  show "n \<notin> set (xs @ ys)" using assms by (auto simp: lru_at_def)
  show "n < l_fresh (lru_unlink n l)"
    using assms same_data_unlink [of l n] by (simp add: same_data_def lru_at_def)
qed

lemma rep_to_front:
  assumes at: "lru_at l (xs @ n # ys)" and items: "items_at l (xs @ n # ys)"
  shows "lru_rep (lru_pushFront n (lru_unlink n l))
    ((n_key (l_heap l n), n_val (l_heap l n)) # AList.delete (n_key (l_heap l n)) (pairs_at l (xs @ n # ys)))"
proof -
  let ?l = "lru_pushFront n (lru_unlink n l)"
  have d: "same_data l ?l" by (rule same_data_trans [OF same_data_unlink same_data_pushFront])
  have "items_at ?l (n # xs @ ys)"
    using items same_data_items [OF d] items_at_set [of "n # xs @ ys" "xs @ n # ys" l] by simp
  from lru_repI [OF at_to_front [OF at] this] same_data_pairs [OF d, of "n # xs @ ys"]
  have "lru_rep ?l (pairs_at l (n # xs @ ys))" by simp
  moreover have "distinct (xs @ n # ys)" using at by (simp add: lru_at_def)
  ultimately show ?thesis unfolding pairs_delete [OF items \<open>distinct (xs @ n # ys)\<close>] by (simp add: pairs_at_def)
qed

lemma rep_split:
  assumes "lru_rep l xs" "map_of (l_items l) k = Some n"
  obtains us vs where "lru_at l (us @ n # vs)" "items_at l (us @ n # vs)" "xs = pairs_at l (us @ n # vs)"
    "n_key (l_heap l n) = k"
proof -
  obtain as where as: "lru_at l as" "items_at l as" "xs = pairs_at l as" using assms(1) by (auto simp: lru_rep_def)
  then have "n \<in> set as" "n_key (l_heap l n) = k" using assms(2) by (auto simp: items_at_def)
  then show thesis using as that by (auto dest!: split_list)
qed

lemma rep_map_of: "lru_rep l xs \<Longrightarrow> map_of xs k = map_option (\<lambda>a. n_val (l_heap l a)) (map_of (l_items l) k)"
  by (auto simp: lru_rep_def lru_at_def pairs_map_of)

lemma rep_get:
  assumes "lru_rep l xs"
  shows "fst (lru_get k l) = map_of xs k \<and>
    lru_rep (snd (lru_get k l)) (case map_of xs k of None \<Rightarrow> xs | Some v \<Rightarrow> (k, v) # AList.delete k xs)"
proof (cases "map_of (l_items l) k")
  case None
  with assms rep_map_of [OF assms, of k] show ?thesis by (simp add: lru_get_def)
next
  case (Some n)
  from rep_split [OF assms Some] obtain us vs where
    r: "lru_at l (us @ n # vs)" "items_at l (us @ n # vs)" "xs = pairs_at l (us @ n # vs)" "n_key (l_heap l n) = k" .
  have d: "same_data l (lru_pushFront n (lru_unlink n l))"
    by (rule same_data_trans [OF same_data_unlink same_data_pushFront])
  show ?thesis
    using rep_to_front [OF r(1,2)] r(3,4) Some rep_map_of [OF assms, of k] d
    by (simp add: lru_get_def Let_def same_data_def)
qed

lemma rep_remove:
  assumes "lru_rep l xs"
  shows "lru_rep (lru_remove k l) (AList.delete k xs)"
proof (cases "map_of (l_items l) k")
  case None
  then have "map_of xs k = None" using rep_map_of [OF assms, of k] by simp
  then have "k \<notin> fst ` set xs" by (simp add: map_of_eq_None_iff)
  then have "AList.delete k xs = xs" by simp
  with None assms show ?thesis by (simp add: lru_remove_def)
next
  case (Some n)
  from rep_split [OF assms Some] obtain us vs where
    r: "lru_at l (us @ n # vs)" "items_at l (us @ n # vs)" "xs = pairs_at l (us @ n # vs)" "n_key (l_heap l n) = k" .
  let ?l = "(lru_unlink n l)\<lparr>l_items := AList.delete k (l_items (lru_unlink n l))\<rparr>"
  have d: "same_data l (lru_unlink n l)" by (rule same_data_unlink)
  have dist: "distinct (us @ n # vs)" using r(1) by (simp add: lru_at_def)
  have at: "lru_at ?l (us @ vs)" using lru_at_unlink [OF r(1)] by (simp add: lru_at_def)
  have "items_at ?l (us @ vs)"
    using r(2,4) d dist inj_onD [OF items_inj [OF r(2)], of _ n] by (auto simp: items_at_def same_data_def)
  from lru_repI [OF at this] have "lru_rep ?l (pairs_at ?l (us @ vs))" .
  moreover have "pairs_at ?l (us @ vs) = AList.delete k xs"
    using pairs_delete [OF r(2) dist] d r(3,4) by (simp add: pairs_at_def same_data_def)
  ultimately show ?thesis using Some by (simp add: lru_remove_def Let_def)
qed

lemma capacity_links [simp]:
  "l_capacity (lru_unlink n l) = l_capacity l" "l_capacity (lru_pushFront n l) = l_capacity l"
  using same_data_unlink [of l n] same_data_pushFront [of l n] by (simp_all add: same_data_def)

lemma capacity_ops [simp]:
  "l_capacity (snd (lru_get k l)) = l_capacity l" "l_capacity (lru_remove k l) = l_capacity l"
  "l_capacity (lru_clear l) = l_capacity l"
  by (simp_all add: lru_get_def lru_remove_def lru_clear_def Let_def split: option.splits)

text \<open>Evicting from the tail keeps the most recently used entries.\<close>

lemma rep_evict_one:
  assumes "lru_rep l xs" "xs \<noteq> []"
  obtains old where "l_tail l = Some old"
    "lru_rep ((lru_unlink old l)\<lparr>l_items := AList.delete (n_key (l_heap (lru_unlink old l) old)) (l_items (lru_unlink old l))\<rparr>)
      (butlast xs)"
proof -
  obtain as where as: "lru_at l as" "items_at l as" "xs = pairs_at l as" using assms(1) by (auto simp: lru_rep_def)
  then have ne: "as \<noteq> []" using assms(2) by (auto simp: pairs_at_def)
  let ?old = "last as" and ?bs = "butlast as"
  have split: "as = ?bs @ ?old # []" using ne by simp
  let ?k = "n_key (l_heap l ?old)"
  have tl: "l_tail l = Some ?old" using as(1) ne by (simp add: lru_at_def last_or_def)
  have "map_of (l_items l) ?k = Some ?old" using as(2) ne by (simp add: items_at_def)
  then have rm: "lru_remove ?k l = (lru_unlink ?old l)\<lparr>l_items := AList.delete ?k (l_items (lru_unlink ?old l))\<rparr>"
    by (simp add: lru_remove_def Let_def)
  have "AList.delete ?k xs = pairs_at l ?bs"
    using pairs_delete [of l ?bs ?old "[]"] as split by (simp add: lru_at_def)
  also have "\<dots> = butlast xs" using as(3) by (simp add: pairs_at_def map_butlast)
  finally have "lru_rep (lru_remove ?k l) (butlast xs)" using rep_remove [OF assms(1), of ?k] by simp
  moreover have "n_key (l_heap (lru_unlink ?old l) ?old) = ?k"
    using same_data_unlink [of l ?old] by (simp add: same_data_def)
  ultimately show thesis using that [OF tl] rm by simp
qed

lemma rep_evict:
  "lru_rep l xs \<Longrightarrow> 0 \<le> l_capacity l \<Longrightarrow> length xs \<le> nat (l_capacity l) + fuel \<Longrightarrow>
   lru_rep (lru_evict fuel l) (take (nat (l_capacity l)) xs) \<and> l_capacity (lru_evict fuel l) = l_capacity l"
proof (induction fuel arbitrary: l xs)
  case (Suc fuel)
  have len: "length (l_items l) = length xs" using lru_rep_len [OF Suc.prems(1)] by (simp add: lru_len_def)
  show ?case
  proof (cases "int (length xs) > l_capacity l")
    case True
    then have "xs \<noteq> []" using Suc.prems(2) by auto
    from rep_evict_one [OF Suc.prems(1) this] obtain old where
      old: "l_tail l = Some old"
        "lru_rep ((lru_unlink old l)\<lparr>l_items := AList.delete (n_key (l_heap (lru_unlink old l) old)) (l_items (lru_unlink old l))\<rparr>)
          (butlast xs)" .
    have "take (nat (l_capacity l)) (butlast xs) = take (nat (l_capacity l)) xs"
      using True Suc.prems(2) by (intro nth_equalityI) (auto simp: nth_butlast)
    with Suc.IH [OF old(2)] Suc.prems(2,3) True old(1) len show ?thesis
      by (simp add: Let_def)
  next
    case False
    with Suc.prems len show ?thesis by simp
  qed
qed simp

lemma rep_put:
  assumes rep: "lru_rep l xs" and cap: "1 \<le> l_capacity l" and bound: "int (length xs) \<le> l_capacity l"
  shows "lru_rep (lru_put k v l) (take (nat (l_capacity l)) ((k, v) # AList.delete k xs)) \<and>
    l_capacity (lru_put k v l) = l_capacity l"
proof (cases "map_of (l_items l) k")
  case (Some n)
  from rep_split [OF rep Some] obtain us vs where
    r: "lru_at l (us @ n # vs)" "items_at l (us @ n # vs)" "xs = pairs_at l (us @ n # vs)" "n_key (l_heap l n) = k" .
  let ?l = "l\<lparr>l_heap := (l_heap l)(n := (l_heap l n)\<lparr>n_val := v\<rparr>)\<rparr>"
  have dist: "distinct (us @ n # vs)" using r(1) by (simp add: lru_at_def)
  have sg: "seg (l_heap ?l) None (us @ n # vs) None = seg (l_heap l) None (us @ n # vs) None"
    by (rule seg_cong) auto
  have at: "lru_at ?l (us @ n # vs)" using r(1) sg by (simp add: lru_at_def)
  have it: "items_at ?l (us @ n # vs)" using r(2) by (auto simp: items_at_def)
  have "AList.delete k (pairs_at ?l (us @ n # vs)) = pairs_at ?l (us @ vs)"
    using pairs_delete [OF it dist] r(4) by simp
  also have "\<dots> = pairs_at l (us @ vs)" using dist by (auto simp: pairs_at_def)
  also have "\<dots> = AList.delete k xs" using pairs_delete [OF r(2) dist] r(3,4) by simp
  finally have del: "AList.delete k (pairs_at ?l (us @ n # vs)) = AList.delete k xs" .
  have "length (AList.delete k xs) < length xs"
    using pairs_delete [OF r(2) dist] r(3,4) by (simp add: pairs_at_def)
  then have "take (nat (l_capacity l)) ((k, v) # AList.delete k xs) = (k, v) # AList.delete k xs"
    using bound by simp
  with rep_to_front [OF at it] del r(4) Some show ?thesis by (simp add: lru_put_def)
next
  case None
  obtain as where as: "lru_at l as" "items_at l as" "xs = pairs_at l as" using rep by (auto simp: lru_rep_def)
  let ?n = "l_fresh l"
  let ?l = "l\<lparr>l_heap := (l_heap l)(?n := \<lparr>n_key = k, n_val = v, n_prev = None, n_next = None\<rparr>),
              l_fresh := ?n + 1, l_items := AList.update k ?n (l_items l)\<rparr>"
  have n: "?n \<notin> set as" using as(1) by (auto simp: lru_at_def)
  have at0: "lru_at ?l as" using as(1) n by (auto simp: lru_at_def)
  have at: "lru_at (lru_pushFront ?n ?l) (?n # as)" by (rule lru_at_pushFront [OF at0 n]) simp
  have nk: "\<forall>a \<in> set as. n_key (l_heap l a) \<noteq> k" using as(2) None by (force simp: items_at_def)
  have "items_at ?l (?n # as)"
    using as(2) n nk by (auto simp: items_at_def)
  then have it: "items_at (lru_pushFront ?n ?l) (?n # as)" using same_data_items [OF same_data_pushFront] by blast
  have "pairs_at (lru_pushFront ?n ?l) (?n # as) = pairs_at ?l (?n # as)"
    by (rule same_data_pairs [OF same_data_pushFront])
  also have "\<dots> = (k, v) # xs" using n as(3) by (auto simp: pairs_at_def)
  finally have rep': "lru_rep (lru_pushFront ?n ?l) ((k, v) # xs)" using lru_repI [OF at it] by simp
  have "map_of xs k = None" using None rep_map_of [OF rep, of k] by simp
  then have "k \<notin> fst ` set xs" by (simp add: map_of_eq_None_iff)
  then have del: "AList.delete k xs = xs" by simp
  have len: "length (l_items (lru_pushFront ?n ?l)) = length ((k, v) # xs)"
    using lru_rep_len [OF rep'] by (simp add: lru_len_def)
  have "lru_rep (lru_evict (length (l_items (lru_pushFront ?n ?l))) (lru_pushFront ?n ?l))
      (take (nat (l_capacity (lru_pushFront ?n ?l))) ((k, v) # xs)) \<and>
    l_capacity (lru_evict (length (l_items (lru_pushFront ?n ?l))) (lru_pushFront ?n ?l)) = l_capacity (lru_pushFront ?n ?l)"
    using cap len by (intro rep_evict [OF rep']) simp_all
  then show ?thesis using None del by (simp add: lru_put_def Let_def)
qed

lemma rep_clear: "lru_rep l xs \<Longrightarrow> lru_rep (lru_clear l) []"
  by (auto simp: lru_rep_def lru_clear_def lru_at_def items_at_def pairs_at_def intro!: exI [of _ "[]"])

lemma dropIf_eq:
  assumes "map_of (l_items l) k = Some n"
  shows "lru_dropIf drop' l (k, n) = (if drop' k (n_val (l_heap l n)) then lru_remove k l else l)"
  using assms by (simp add: lru_dropIf_def lru_remove_def)

lemma items_remove:
  "map_of (l_items (lru_remove k l)) = (map_of (l_items l))(k := None)"
  using same_data_unlink [of l]
  by (auto simp: lru_remove_def Let_def same_data_def fun_eq_iff split: option.splits)

lemma filter_drop_step:
  assumes "wf_map xs" "map_of xs k = Some v" "k \<notin> K"
  shows "filter (\<lambda>(k', v). \<not> (k' \<in> K \<and> drop' k' v)) (if drop' k v then AList.delete k xs else xs) =
    filter (\<lambda>(k', v). \<not> (k' \<in> insert k K \<and> drop' k' v)) xs"
proof -
  have v: "v' = v" if "(k, v') \<in> set xs" for v'
    using map_of_is_SomeI [OF assms(1) that] assms(2) by simp
  show ?thesis
  proof (cases "drop' k v")
    case True
    have "k \<noteq> fst x \<and> \<not> (fst x \<in> K \<and> drop' (fst x) (snd x)) \<longleftrightarrow> \<not> (fst x \<in> insert k K \<and> drop' (fst x) (snd x))"
      if "x \<in> set xs" for x
      using that True v [of "snd x"] by (metis insert_iff prod.collapse)
    with True show ?thesis by (simp add: AList.delete_eq split_beta conj_commute cong: filter_cong)
  next
    case False
    have "\<not> (fst x \<in> K \<and> drop' (fst x) (snd x)) \<longleftrightarrow> \<not> (fst x \<in> insert k K \<and> drop' (fst x) (snd x))"
      if "x \<in> set xs" for x
      using that False assms(3) v [of "snd x"] by (metis insert_iff prod.collapse)
    with False show ?thesis by (simp add: split_beta cong: filter_cong)
  qed
qed

lemma removeWhere_fold:
  assumes "lru_rep l xs" "wf_map ps" "\<And>k n. (k, n) \<in> set ps \<Longrightarrow> map_of (l_items l) k = Some n"
  shows "lru_rep (foldl (lru_dropIf drop') l ps) (filter (\<lambda>(k, v). \<not> (k \<in> fst ` set ps \<and> drop' k v)) xs) \<and>
    l_capacity (foldl (lru_dropIf drop') l ps) = l_capacity l"
  using assms
proof (induction ps arbitrary: l xs)
  case Nil
  have "filter (\<lambda>(k, v). \<not> (k \<in> fst ` set [] \<and> drop' k v)) xs = xs" by (simp add: split_beta)
  with Nil show ?case by simp
next
  case (Cons p ps)
  obtain k n where p: "p = (k, n)" by fastforce
  have kn: "map_of (l_items l) k = Some n" using Cons.prems(3) p by simp
  have kv: "map_of xs k = Some (n_val (l_heap l n))" using rep_map_of [OF Cons.prems(1), of k] kn by simp
  have kps: "k \<notin> fst ` set ps" using Cons.prems(2) p by (simp add: image_image)
  let ?l = "lru_dropIf drop' l p" and ?xs = "if drop' k (n_val (l_heap l n)) then AList.delete k xs else xs"
  have rep: "lru_rep ?l ?xs"
    using dropIf_eq [OF kn] p Cons.prems(1) rep_remove [OF Cons.prems(1)] by simp
  have cap: "l_capacity ?l = l_capacity l" using dropIf_eq [OF kn] p by simp
  have items: "map_of (l_items ?l) k' = Some m" if "(k', m) \<in> set ps" for k' m
  proof -
    have "k' \<noteq> k" using that kps by force
    then show ?thesis using Cons.prems(3) that dropIf_eq [OF kn] p by (simp add: items_remove)
  qed
  have "fst ` set (p # ps) = insert k (fst ` set ps)" using p by simp
  moreover have "wf_map ps" using Cons.prems(2) by simp
  ultimately show ?case
    using Cons.IH [OF rep _ items] cap filter_drop_step [OF lru_rep_keys [OF Cons.prems(1)] kv kps, of drop'] by simp
qed

lemma rep_removeWhere:
  assumes rep: "lru_rep l xs"
  shows "lru_rep (lru_removeWhere drop' l) (del_where drop' xs) \<and> l_capacity (lru_removeWhere drop' l) = l_capacity l"
proof -
  obtain as where as: "lru_at l as" "items_at l as" "xs = pairs_at l as" using rep by (auto simp: lru_rep_def)
  have wf: "wf_map (l_items l)" using as(2) by (simp add: items_at_def)
  have keys: "k \<in> fst ` set (l_items l)" if "(k, v) \<in> set xs" for k v
  proof -
    have "map_of xs k \<noteq> None" using map_of_is_SomeI [OF lru_rep_keys [OF rep] that] by simp
    then have "map_of (l_items l) k \<noteq> None" using rep_map_of [OF rep, of k] by auto
    then show ?thesis by (simp add: map_of_eq_None_iff)
  qed
  have "filter (\<lambda>(k, v). \<not> (k \<in> fst ` set (l_items l) \<and> drop' k v)) xs = del_where drop' xs"
    unfolding del_where_def using keys by (intro filter_cong) auto
  moreover have "map_of (l_items l) k = Some n" if "(k, n) \<in> set (l_items l)" for k n
    using that wf by (simp add: map_of_eq_Some_iff)
  ultimately show ?thesis
    using removeWhere_fold [OF rep wf, of drop'] by (simp add: lru_removeWhere_def)
qed

section \<open>The cache as a whole\<close>

datatype ('k, 'v) lru_op = LGet 'k | LPut 'k 'v | LRemove 'k | LRemoveWhere "'k \<Rightarrow> 'v \<Rightarrow> bool" | LClear

fun lru_exec :: "('k, 'v) lru_op \<Rightarrow> ('k, 'v) lru \<Rightarrow> ('k, 'v) lru" where
  "lru_exec (LGet k) l = snd (lru_get k l)"
| "lru_exec (LPut k v) l = lru_put k v l"
| "lru_exec (LRemove k) l = lru_remove k l"
| "lru_exec (LRemoveWhere P) l = lru_removeWhere P l"
| "lru_exec LClear l = lru_clear l"

text \<open>The specification: a list of pairs, most recently used first, cut to the capacity.\<close>

fun lru_spec :: "nat \<Rightarrow> ('k, 'v) lru_op \<Rightarrow> ('k \<times> 'v) list \<Rightarrow> ('k \<times> 'v) list" where
  "lru_spec cap (LGet k) xs = (case map_of xs k of None \<Rightarrow> xs | Some v \<Rightarrow> (k, v) # AList.delete k xs)"
| "lru_spec cap (LPut k v) xs = take cap ((k, v) # AList.delete k xs)"
| "lru_spec cap (LRemove k) xs = AList.delete k xs"
| "lru_spec cap (LRemoveWhere P) xs = del_where P xs"
| "lru_spec cap LClear xs = []"

definition lru_inv :: "('k, 'v) lru \<Rightarrow> ('k \<times> 'v) list \<Rightarrow> bool" where
  "lru_inv l xs \<longleftrightarrow> lru_rep l xs \<and> 1 \<le> l_capacity l \<and> int (length xs) \<le> l_capacity l"

lemma length_delete_le: "length (AList.delete k xs) \<le> length xs"
  by (simp add: AList.delete_eq)

lemma length_delete_less: "map_of xs k = Some v \<Longrightarrow> length (AList.delete k xs) < length xs"
proof (induction xs)
  case (Cons x xs)
  then show ?case using length_delete_le [of k xs] by (auto split: if_splits)
qed simp

lemma lru_exec_inv:
  assumes "lru_inv l xs"
  shows "lru_inv (lru_exec op l) (lru_spec (nat (l_capacity l)) op xs) \<and> l_capacity (lru_exec op l) = l_capacity l"
proof -
  note inv = assms [unfolded lru_inv_def]
  show ?thesis
  proof (cases op)
    case (LGet k)
    then show ?thesis
      using inv rep_get [of l xs k] length_delete_less [of xs k]
      by (cases "map_of xs k") (auto simp: lru_inv_def)
  next
    case (LPut k v)
    then show ?thesis using inv rep_put [of l xs k v] by (auto simp: lru_inv_def)
  next
    case (LRemove k)
    then show ?thesis using inv rep_remove [of l xs k] length_delete_le [of k xs] by (auto simp: lru_inv_def)
  next
    case (LRemoveWhere P)
    have "length (del_where P xs) \<le> length xs" by (simp add: del_where_def)
    then show ?thesis using LRemoveWhere inv rep_removeWhere [of l xs P] by (auto simp: lru_inv_def)
  next
    case LClear
    then show ?thesis using inv rep_clear [of l xs] by (auto simp: lru_inv_def)
  qed
qed

lemma lru_inv_new: "1 \<le> cap \<Longrightarrow> lru_inv (newLRU cap) []"
  by (simp add: lru_inv_def rep_new) (simp add: newLRU_def)

lemma lru_run_inv:
  assumes "1 \<le> cap"
  shows "lru_inv (foldl (\<lambda>l op. lru_exec op l) (newLRU cap) ops) (foldl (\<lambda>xs op. lru_spec (nat cap) op xs) [] ops) \<and>
    l_capacity (foldl (\<lambda>l op. lru_exec op l) (newLRU cap) ops) = cap"
proof (induction ops rule: rev_induct)
  case Nil
  then show ?case using lru_inv_new [OF assms] by (simp add: newLRU_def)
next
  case (snoc op ops)
  then show ?case using lru_exec_inv [of _ _ op] by fastforce
qed

text \<open>
  C18. The linked-list cache is a bounded use-ordered list. Whatever sequence of lookups, insertions and
  removals runs on a cache of positive capacity, its heap of nodes represents exactly the list the
  specification computes, so a lookup returns the value last put under the key unless it was removed or
  evicted, the entries evicted are the least recently used, and the number of entries never exceeds the
  capacity.
\<close>

theorem lru_refines_list:
  assumes "1 \<le> cap"
  shows "let l = foldl (\<lambda>l op. lru_exec op l) (newLRU cap) ops;
             xs = foldl (\<lambda>xs op. lru_spec (nat cap) op xs) [] ops
         in lru_rep l xs \<and> fst (lru_get k l) = map_of xs k \<and> lru_len l = length xs \<and> int (lru_len l) \<le> cap"
  using lru_run_inv [OF assms, of ops] rep_get lru_rep_len by (fastforce simp: Let_def lru_inv_def)

theorem lru_refines_list_witness:
  "fst (lru_get (1 :: nat) (foldl (\<lambda>l op. lru_exec op l) (newLRU 2) [LPut 1 (10 :: nat), LPut 2 20, LGet 1, LPut 3 30])) = Some 10 \<and>
   fst (lru_get (2 :: nat) (foldl (\<lambda>l op. lru_exec op l) (newLRU 2) [LPut 1 (10 :: nat), LPut 2 20, LGet 1, LPut 3 30])) = None"
  using lru_refines_list [of 2 "[LPut 1 (10 :: nat), LPut 2 20, LGet 1, LPut 3 30]" "1 :: nat"]
    lru_refines_list [of 2 "[LPut 1 (10 :: nat), LPut 2 20, LGet 1, LPut 3 30]" "2 :: nat"]
  by (simp add: Let_def)

end
