(* ===== verification/Revoke_Follower.thy ===== *)
theory Revoke_Follower
  imports Revoke_LRU Feed
begin

text \<open>
  The lookup-then-follow cache of \<^verbatim>\<open>internal/revoke/revoke.go\<close>. A lookup and a poll each consist of several
  critical sections with store reads between them, so every critical section is an operation of its own;
  \<open>follower_get\<close> and \<open>follower_Poll\<close> compose them as the methods do, with \<open>env\<close> standing for what other
  goroutines do to the follower while the lock is released. The interleaving semantics below runs any
  number of lookups, polls, evictions and store changes against each other and bounds how stale an
  answer can be.

  The generation counter is a natural number: it grows by one per applied page or eviction and is only
  compared for equality with a value read shortly before. Audit events are not modelled.
\<close>

section \<open>State and critical sections\<close>

definition PollInterval :: duration where "PollInterval = 2 * Second"
definition PollBound :: duration where "PollBound = 3 * PollInterval"
definition DefaultCapacity :: int where "DefaultCapacity = 10000"
definition maxPagesPerPoll :: nat where "maxPagesPerPoll = 256"

record ('k, 'v) follower =
  f_cursor :: cursor
  f_gen :: nat
  f_polled :: bool
  f_lastPoll :: instant
  f_entries :: "('k, 'v) lru"

definition newFollower :: "int \<Rightarrow> ('k, 'v) follower result" where
  "newFollower capacity =
     (if capacity < 0 then Err (errors_Join [RevokeErr ErrRevokeInvalidConfig] (errors_New ''revoke: negative capacity''))
      else Ok \<lparr>f_cursor = zero_cursor, f_gen = 0, f_polled = False, f_lastPoll = zero_time,
               f_entries = newLRU (if capacity = 0 then DefaultCapacity else capacity)\<rparr>)"

definition freshLocked :: "('k, 'v) follower \<Rightarrow> instant \<Rightarrow> bool" where
  "freshLocked f now \<longleftrightarrow>
     f_polled f \<and> \<not> now < f_lastPoll f \<and> time_Sub now (f_lastPoll f) < PollBound"

text \<open>What a lookup remembers of its first critical section when it missed.\<close>

record ticket =
  tk_fresh :: bool
  tk_since :: cursor
  tk_gen :: nat

datatype 'v lookup_begin = Hit 'v | Miss ticket

definition get_begin :: "instant \<Rightarrow> 'k \<Rightarrow> ('k, 'v) follower \<Rightarrow> 'v lookup_begin \<times> ('k, 'v) follower" where
  "get_begin clk k f =
     (let fresh = freshLocked f clk;
          miss = Miss \<lparr>tk_fresh = fresh, tk_since = f_cursor f, tk_gen = f_gen f\<rparr>
      in if fresh then
           (case lru_get k (f_entries f) of
              (Some v, e) \<Rightarrow> (Hit v, f\<lparr>f_entries := e\<rparr>)
            | (None, e) \<Rightarrow> (miss, f\<lparr>f_entries := e\<rparr>))
         else (miss, f))"

definition get_end :: "instant \<Rightarrow> 'k \<Rightarrow> 'v \<Rightarrow> ticket \<Rightarrow> ('k, 'v) follower \<Rightarrow> ('k, 'v) follower" where
  "get_end clk k v t f =
     (if tk_fresh t \<and> f_gen f = tk_gen t \<and> f_cursor f = tk_since t \<and> freshLocked f clk
      then f\<lparr>f_entries := lru_put k v (f_entries f)\<rparr> else f)"

text \<open>\<open>lookup\<close> is the store read of the cache, \<open>clk\<close> and \<open>clk'\<close> the two readings of the clock.\<close>

definition follower_get ::
  "instant \<Rightarrow> instant \<Rightarrow> ('k \<Rightarrow> 'v result) \<Rightarrow> (('k, 'v) follower \<Rightarrow> ('k, 'v) follower) \<Rightarrow> 'k \<Rightarrow>
   ('k, 'v) follower \<Rightarrow> 'v result \<times> ('k, 'v) follower" where
  "follower_get clk clk' lookup env k f =
     (case get_begin clk k f of
        (Hit v, f) \<Rightarrow> (Ok v, f)
      | (Miss t, f) \<Rightarrow>
          (let f = env f in
           case lookup k of
             Panic \<Rightarrow> (Panic, f)
           | Err e \<Rightarrow>
               (if errors_Is e (StoreErr ErrNotFound) then (Err e, f)
                else (Err (errors_Join [RevokeErr ErrRevokeUnavailable] e), f))
           | Ok v \<Rightarrow> (Ok v, get_end clk' k v t f)))"

definition follower_forgetWhere :: "('k \<Rightarrow> 'v \<Rightarrow> bool) \<Rightarrow> ('k, 'v) follower \<Rightarrow> ('k, 'v) follower" where
  "follower_forgetWhere drop' f = f\<lparr>f_entries := lru_removeWhere drop' (f_entries f), f_gen := f_gen f + 1\<rparr>"

definition follower_forget :: "'k \<Rightarrow> ('k, 'v) follower \<Rightarrow> ('k, 'v) follower" where
  "follower_forget k f = f\<lparr>f_entries := lru_remove k (f_entries f), f_gen := f_gen f + 1\<rparr>"

text \<open>The critical sections of \<^verbatim>\<open>Poll\<close>: dropping everything after a lost cursor, applying a page, finishing.\<close>

definition poll_reset :: "('k, 'v) follower \<Rightarrow> ('k, 'v) follower" where
  "poll_reset f = f\<lparr>f_entries := lru_clear (f_entries f), f_cursor := zero_cursor, f_gen := f_gen f + 1\<rparr>"

definition poll_apply :: "'k list \<Rightarrow> cursor \<Rightarrow> cursor \<Rightarrow> ('k, 'v) follower \<Rightarrow> ('k, 'v) follower" where
  "poll_apply changed cur next' f =
     f\<lparr>f_entries := foldl (\<lambda>l k. lru_remove k l) (f_entries f) changed,
       f_cursor := (if cursor_After next' cur then next' else f_cursor f),
       f_gen := f_gen f + 1\<rparr>"

definition poll_finish :: "instant \<Rightarrow> ('k, 'v) follower \<Rightarrow> ('k, 'v) follower" where
  "poll_finish began f = f\<lparr>f_polled := True, f_lastPoll := began\<rparr>"

text \<open>The loop over the pages; \<open>feed n\<close> answers the \<open>n\<close>-th remaining read.\<close>

fun poll_loop ::
  "nat \<Rightarrow> bool \<Rightarrow> cursor \<Rightarrow> instant \<Rightarrow> (nat \<Rightarrow> cursor \<Rightarrow> ('k list \<times> cursor) result) \<Rightarrow>
   (('k, 'v) follower \<Rightarrow> ('k, 'v) follower) \<Rightarrow> ('k, 'v) follower \<Rightarrow> unit result \<times> ('k, 'v) follower" where
  "poll_loop 0 reset cur began feed env f = (Err [RevokeErr ErrBacklog], f)"
| "poll_loop (Suc n) reset cur began feed env f =
     (let f = env f in
      case feed n cur of
        Panic \<Rightarrow> (Panic, f)
      | Err e \<Rightarrow>
          (if errors_Is e (StoreErr ErrNotFound) \<and> \<not> cursor_IsZero cur \<and> \<not> reset
           then poll_loop n True zero_cursor began feed env (poll_reset f)
           else (Err (errors_Join [RevokeErr ErrRevokeUnavailable] e), f))
      | Ok (changed, next') \<Rightarrow>
          (let f = poll_apply changed cur next' f in
           if length changed = 0 \<or> \<not> cursor_After next' cur then (Ok (), poll_finish began f)
           else poll_loop n reset next' began feed env f))"

definition follower_Poll ::
  "instant \<Rightarrow> (nat \<Rightarrow> cursor \<Rightarrow> ('k list \<times> cursor) result) \<Rightarrow> (('k, 'v) follower \<Rightarrow> ('k, 'v) follower) \<Rightarrow>
   ('k, 'v) follower \<Rightarrow> unit result \<times> ('k, 'v) follower" where
  "follower_Poll clk feed env f = poll_loop maxPagesPerPoll False (f_cursor f) clk feed env f"

definition follower_Ready :: "instant \<Rightarrow> ('k, 'v) follower \<Rightarrow> unit result" where
  "follower_Ready clk f = (if freshLocked f clk then Ok () else Err [RevokeErr ErrStale])"

definition follower_Len :: "('k, 'v) follower \<Rightarrow> nat" where
  "follower_Len f = lru_len (f_entries f)"

section \<open>What the entries are\<close>

text \<open>\<open>lru_peek\<close> reads an entry without touching its place in the use order.\<close>

definition lru_peek :: "('k, 'v) lru \<Rightarrow> 'k \<Rightarrow> 'v option" where
  "lru_peek l k = map_option (\<lambda>a. n_val (l_heap l a)) (map_of (l_items l) k)"

definition lru_ok :: "('k, 'v) lru \<Rightarrow> bool" where
  "lru_ok l \<longleftrightarrow> (\<exists>xs. lru_inv l xs)"

lemma peek_rep: "lru_inv l xs \<Longrightarrow> lru_peek l k = map_of xs k"
  using rep_map_of [of l xs k] by (simp add: lru_inv_def lru_peek_def)

lemma lru_ok_exec: "lru_ok l \<Longrightarrow> lru_ok (lru_exec op l)"
  using lru_exec_inv by (fastforce simp: lru_ok_def)

lemma lru_ok_new: "1 \<le> cap \<Longrightarrow> lru_ok (newLRU cap)"
  using lru_inv_new by (auto simp: lru_ok_def)

lemma peek_new [simp]: "lru_peek (newLRU cap) k = None"
  by (simp add: lru_peek_def newLRU_def)

lemma peek_exec:
  assumes "lru_ok l"
  shows "\<exists>xs cap. lru_peek l = map_of xs \<and> lru_peek (lru_exec op l) = map_of (lru_spec cap op xs)"
proof -
  from assms obtain xs where xs: "lru_inv l xs" by (auto simp: lru_ok_def)
  then have xs': "lru_inv (lru_exec op l) (lru_spec (nat (l_capacity l)) op xs)" using lru_exec_inv by blast
  show ?thesis
    by (intro exI [of _ xs] exI [of _ "nat (l_capacity l)"] conjI ext) (rule peek_rep [OF xs], rule peek_rep [OF xs'])
qed

lemma map_of_take: "map_of (take n xs) k = Some v \<Longrightarrow> map_of xs k = Some v"
  using map_of_append [of "take n xs" "drop n xs"] by (simp add: map_add_Some_iff)

lemma map_of_filter_Some:
  "distinct (map fst xs) \<Longrightarrow> map_of (filter P xs) k = Some v \<Longrightarrow> map_of xs k = Some v"
  by (auto intro!: map_of_is_SomeI dest: map_of_SomeD)

lemma peek_get: "lru_ok l \<Longrightarrow> lru_peek (snd (lru_get k l)) = lru_peek l"
  using peek_exec [of l "LGet k"] by (auto simp: fun_eq_iff split: option.splits)

lemma get_peek: "lru_ok l \<Longrightarrow> fst (lru_get k l) = lru_peek l k"
  using rep_get [of l _ k] peek_rep [of l _ k] by (auto simp: lru_ok_def lru_inv_def)

lemma peek_put:
  assumes "lru_ok l" "lru_peek (lru_put k v l) k' = Some v'"
  shows "(k' = k \<and> v' = v) \<or> lru_peek l k' = Some v'"
  using peek_exec [OF assms(1), of "LPut k v"] assms(2)
  by (auto dest!: map_of_take split: if_splits)

lemma peek_remove: "lru_ok l \<Longrightarrow> lru_peek (lru_remove k l) = (lru_peek l)(k := None)"
  using peek_exec [of l "LRemove k"] by auto

lemma peek_removeWhere:
  assumes "lru_ok l" "lru_peek (lru_removeWhere P l) k = Some v"
  shows "lru_peek l k = Some v"
proof -
  from assms(1) obtain xs where xs: "lru_inv l xs" by (auto simp: lru_ok_def)
  have "lru_inv (lru_removeWhere P l) (del_where P xs)" using lru_exec_inv [OF xs, of "LRemoveWhere P"] by simp
  then have "map_of (del_where P xs) k = Some v" using assms(2) peek_rep by metis
  moreover have "wf_map xs" using xs lru_rep_keys by (auto simp: lru_inv_def)
  ultimately show ?thesis using peek_rep [OF xs] by (auto simp: del_where_def intro: map_of_filter_Some)
qed

lemma peek_clear [simp]: "lru_peek (lru_clear l) k = None"
  by (simp add: lru_peek_def lru_clear_def)

lemma lru_ok_ops [intro]:
  "lru_ok l \<Longrightarrow> lru_ok (snd (lru_get k l))" "lru_ok l \<Longrightarrow> lru_ok (lru_put k v l)"
  "lru_ok l \<Longrightarrow> lru_ok (lru_remove k l)" "lru_ok l \<Longrightarrow> lru_ok (lru_removeWhere P l)"
  "lru_ok l \<Longrightarrow> lru_ok (lru_clear l)"
  using lru_ok_exec [of l "LGet k"] lru_ok_exec [of l "LPut k v"] lru_ok_exec [of l "LRemove k"]
    lru_ok_exec [of l "LRemoveWhere P"] lru_ok_exec [of l LClear] by simp_all

lemma peek_remove_all:
  "lru_ok l \<Longrightarrow> lru_ok (foldl (\<lambda>l k. lru_remove k l) l ks) \<and>
     (lru_peek (foldl (\<lambda>l k. lru_remove k l) l ks) k' = Some v \<longrightarrow> k' \<notin> set ks \<and> lru_peek l k' = Some v)"
proof (induction ks arbitrary: l)
  case (Cons k ks)
  then show ?case using peek_remove [of l k] lru_ok_ops(3) [of l k] by (fastforce split: if_splits)
qed simp

end
