(* ===== verification/Follower_System.thy ===== *)
theory Follower_System
  imports Revoke_Follower
begin

text \<open>
  The follower under concurrency. \<open>fstep\<close> interleaves the critical sections of \<open>Revoke_Follower\<close>: any
  number of lookups in flight, one poll at a time (\<^verbatim>\<open>pollMu\<close>), evictions, and arbitrary changes of the
  followed store, each store read and each critical section at a moment of its own. The locale
  \<open>change_source\<close> is what a cache relies on from the store it follows; inside it, every answer served
  from memory is shown to have been the store's answer at some moment of the last \<open>PollBound\<close>.
\<close>

section \<open>Interleaving semantics\<close>

text \<open>
  Where the running poll is. \<open>began\<close> is the clock reading it started with and the source state beside it
  is the store at that moment, kept to state the bound.
\<close>

datatype ('s, 'k) poll_phase =
    PIdle
  | PStarting instant 's
  | PReading instant 's cursor bool nat
  | PRead instant 's cursor bool nat "'k list" cursor
  | PLost instant 's nat
  | PFinishing instant 's

record ('s, 'k, 'v) fsys =
  y_src :: 's
  y_fol :: "('k, 'v) follower"
  y_calls :: "('k \<times> ticket \<times> 'v option) list"
  y_poll :: "('s, 'k) poll_phase"
  y_began :: "(instant \<times> 's) list"

definition fsys_init :: "'s \<Rightarrow> ('k, 'v) follower \<Rightarrow> ('s, 'k, 'v) fsys" where
  "fsys_init s f = \<lparr>y_src = s, y_fol = f, y_calls = [], y_poll = PIdle, y_began = []\<rparr>"

inductive fstep ::
  "('s \<Rightarrow> 'k \<Rightarrow> 'v result) \<Rightarrow> ('s \<Rightarrow> cursor \<Rightarrow> ('k list \<times> cursor) result) \<Rightarrow> ('s \<Rightarrow> 's \<Rightarrow> bool) \<Rightarrow>
   ('s \<Rightarrow> cursor \<Rightarrow> bool) \<Rightarrow> ('s, 'k, 'v) fsys \<Rightarrow> ('s, 'k, 'v) fsys \<Rightarrow> bool"
  for lookup feed sstep kept
  where
    store_changes: "sstep (y_src y) s' \<Longrightarrow> fstep lookup feed sstep kept y (y\<lparr>y_src := s'\<rparr>)"
  | call_hit: "get_begin clk k (y_fol y) = (Hit v, f') \<Longrightarrow> fstep lookup feed sstep kept y (y\<lparr>y_fol := f'\<rparr>)"
  | call_miss: "get_begin clk k (y_fol y) = (Miss t, f') \<Longrightarrow>
      fstep lookup feed sstep kept y (y\<lparr>y_fol := f', y_calls := (k, t, None) # y_calls y\<rparr>)"
  | call_read: "y_calls y = cs @ (k, t, None) # cs' \<Longrightarrow> lookup (y_src y) k = Ok v \<Longrightarrow>
      fstep lookup feed sstep kept y (y\<lparr>y_calls := cs @ (k, t, Some v) # cs'\<rparr>)"
  | call_fails: "y_calls y = cs @ (k, t, None) # cs' \<Longrightarrow>
      fstep lookup feed sstep kept y (y\<lparr>y_calls := cs @ cs'\<rparr>)"
  | call_ends: "y_calls y = cs @ (k, t, Some v) # cs' \<Longrightarrow>
      fstep lookup feed sstep kept y (y\<lparr>y_fol := get_end clk k v t (y_fol y), y_calls := cs @ cs'\<rparr>)"
  | forgets: "fstep lookup feed sstep kept y (y\<lparr>y_fol := follower_forget k (y_fol y)\<rparr>)"
  | forgets_where: "fstep lookup feed sstep kept y (y\<lparr>y_fol := follower_forgetWhere P (y_fol y)\<rparr>)"
  | poll_begins: "y_poll y = PIdle \<Longrightarrow>
      fstep lookup feed sstep kept y (y\<lparr>y_poll := PStarting clk (y_src y), y_began := (clk, y_src y) # y_began y\<rparr>)"
  | poll_starts: "y_poll y = PStarting b s0 \<Longrightarrow>
      fstep lookup feed sstep kept y (y\<lparr>y_poll := PReading b s0 (f_cursor (y_fol y)) False maxPagesPerPoll\<rparr>)"
  | poll_reads: "y_poll y = PReading b s0 cur r (Suc n) \<Longrightarrow> feed (y_src y) cur = Ok (changed, next') \<Longrightarrow> kept (y_src y) cur \<Longrightarrow>
      fstep lookup feed sstep kept y (y\<lparr>y_poll := PRead b s0 cur r n changed next'\<rparr>)"
  | poll_loses: "y_poll y = PReading b s0 cur False (Suc n) \<Longrightarrow> \<not> cursor_IsZero cur \<Longrightarrow>
      fstep lookup feed sstep kept y (y\<lparr>y_poll := PLost b s0 n\<rparr>)"
  | poll_resets: "y_poll y = PLost b s0 n \<Longrightarrow>
      fstep lookup feed sstep kept y (y\<lparr>y_fol := poll_reset (y_fol y), y_poll := PReading b s0 zero_cursor True n\<rparr>)"
  | poll_fails: "y_poll y = PReading b s0 cur r n \<Longrightarrow> fstep lookup feed sstep kept y (y\<lparr>y_poll := PIdle\<rparr>)"
  | poll_applies: "y_poll y = PRead b s0 cur r n changed next' \<Longrightarrow>
      fstep lookup feed sstep kept y
        (y\<lparr>y_fol := poll_apply changed cur next' (y_fol y),
           y_poll := (if length changed = 0 \<or> \<not> cursor_After next' cur then PFinishing b s0
                      else PReading b s0 next' r n)\<rparr>)"
  | poll_finishes: "y_poll y = PFinishing b s0 \<Longrightarrow>
      fstep lookup feed sstep kept y (y\<lparr>y_fol := poll_finish b (y_fol y), y_poll := PIdle\<rparr>)"

section \<open>The methods are runs of the system\<close>

lemma poll_loop_runs:
  assumes "poll_loop n r cur b (\<lambda>_. feed (y_src y)) (\<lambda>f. f) (y_fol y) = (Ok (), f')"
    and "y_poll y = PReading b s0 cur r n" "\<And>c. kept (y_src y) c"
  shows "(fstep lookup feed sstep kept)\<^sup>*\<^sup>* y (y\<lparr>y_fol := f', y_poll := PIdle\<rparr>)"
  using assms
proof (induction n arbitrary: r cur y)
  case (Suc n)
  consider (lost) e where "feed (y_src y) cur = Err e" "\<not> cursor_IsZero cur" "\<not> r"
      "poll_loop n True zero_cursor b (\<lambda>_. feed (y_src y)) (\<lambda>f. f) (poll_reset (y_fol y)) = (Ok (), f')"
    | (last) ch nx where "feed (y_src y) cur = Ok (ch, nx)" "length ch = 0 \<or> \<not> cursor_After nx cur"
      "f' = poll_finish b (poll_apply ch cur nx (y_fol y))"
    | (more) ch nx where "feed (y_src y) cur = Ok (ch, nx)" "\<not> (length ch = 0 \<or> \<not> cursor_After nx cur)"
      "poll_loop n r nx b (\<lambda>_. feed (y_src y)) (\<lambda>f. f) (poll_apply ch cur nx (y_fol y)) = (Ok (), f')"
    using Suc.prems(1) by (auto simp: Let_def split: result.splits prod.splits if_splits)
  then show ?case
  proof cases
    case lost
    let ?y1 = "y\<lparr>y_poll := PLost b s0 n\<rparr>"
    let ?y2 = "?y1\<lparr>y_fol := poll_reset (y_fol ?y1), y_poll := PReading b s0 zero_cursor True n\<rparr>"
    have "fstep lookup feed sstep kept y ?y1" using Suc.prems(2) lost(2,3) by (auto intro: poll_loses)
    moreover have "fstep lookup feed sstep kept ?y1 ?y2" by (rule poll_resets) simp
    moreover have "(fstep lookup feed sstep kept)\<^sup>*\<^sup>* ?y2 (?y2\<lparr>y_fol := f', y_poll := PIdle\<rparr>)"
      by (rule Suc.IH) (use lost(4) Suc.prems(3) in simp_all)
    ultimately show ?thesis by (auto intro: converse_rtranclp_into_rtranclp)
  next
    case last
    let ?y1 = "y\<lparr>y_poll := PRead b s0 cur r n ch nx\<rparr>"
    let ?y2 = "?y1\<lparr>y_fol := poll_apply ch cur nx (y_fol ?y1), y_poll := PFinishing b s0\<rparr>"
    have "fstep lookup feed sstep kept y ?y1" using Suc.prems(2) last(1) Suc.prems(3) by (rule poll_reads)
    moreover have "fstep lookup feed sstep kept ?y1 ?y2"
      using poll_applies [of ?y1 b s0 cur r n ch nx lookup feed sstep kept] last(2) by simp
    moreover have "fstep lookup feed sstep kept ?y2 (?y2\<lparr>y_fol := poll_finish b (y_fol ?y2), y_poll := PIdle\<rparr>)"
      by (rule poll_finishes) simp
    ultimately show ?thesis using last(3) by (auto intro: converse_rtranclp_into_rtranclp)
  next
    case more
    let ?y1 = "y\<lparr>y_poll := PRead b s0 cur r n ch nx\<rparr>"
    let ?y2 = "?y1\<lparr>y_fol := poll_apply ch cur nx (y_fol ?y1), y_poll := PReading b s0 nx r n\<rparr>"
    have "fstep lookup feed sstep kept y ?y1" using Suc.prems(2) more(1) Suc.prems(3) by (rule poll_reads)
    moreover have "fstep lookup feed sstep kept ?y1 ?y2"
      using poll_applies [of ?y1 b s0 cur r n ch nx lookup feed sstep kept] more(2) by auto
    moreover have "(fstep lookup feed sstep kept)\<^sup>*\<^sup>* ?y2 (?y2\<lparr>y_fol := f', y_poll := PIdle\<rparr>)"
      by (rule Suc.IH) (use more(3) Suc.prems(3) in simp_all)
    ultimately show ?thesis by (auto intro: converse_rtranclp_into_rtranclp)
  qed
qed simp

lemma follower_Poll_runs:
  assumes "follower_Poll clk (\<lambda>_. feed (y_src y)) (\<lambda>f. f) (y_fol y) = (Ok (), f')" "y_poll y = PIdle"
    and "\<And>c. kept (y_src y) c"
  shows "(fstep lookup feed sstep kept)\<^sup>*\<^sup>* y (y\<lparr>y_began := (clk, y_src y) # y_began y, y_fol := f', y_poll := PIdle\<rparr>)"
proof -
  let ?y1 = "y\<lparr>y_poll := PStarting clk (y_src y), y_began := (clk, y_src y) # y_began y\<rparr>"
  let ?y2 = "?y1\<lparr>y_poll := PReading clk (y_src y) (f_cursor (y_fol ?y1)) False maxPagesPerPoll\<rparr>"
  have "fstep lookup feed sstep kept y ?y1" using assms(2) by (rule poll_begins)
  moreover have "fstep lookup feed sstep kept ?y1 ?y2" by (rule poll_starts) simp
  moreover have "(fstep lookup feed sstep kept)\<^sup>*\<^sup>* ?y2 (?y2\<lparr>y_fol := f', y_poll := PIdle\<rparr>)"
    by (rule poll_loop_runs [where b = clk and ?s0.0 = "y_src y" and r = False and n = maxPagesPerPoll])
      (use assms(1,3) in \<open>simp_all add: follower_Poll_def\<close>)
  ultimately show ?thesis by (auto intro: converse_rtranclp_into_rtranclp)
qed

lemma follower_get_runs:
  assumes "follower_get clk clk' (lookup (y_src y)) (\<lambda>f. f) k (y_fol y) = (r, f')"
  shows "(fstep lookup feed sstep kept)\<^sup>*\<^sup>* y (y\<lparr>y_fol := f'\<rparr>)"
proof (cases "get_begin clk k (y_fol y)")
  case (Pair b f1)
  show ?thesis
  proof (cases b)
    case (Hit v)
    then show ?thesis
      using assms Pair call_hit [of clk k y v f1 lookup feed sstep kept] by (simp add: follower_get_def)
  next
    case (Miss t)
    let ?y1 = "y\<lparr>y_fol := f1, y_calls := [] @ (k, t, None) # y_calls y\<rparr>"
    have 1: "fstep lookup feed sstep kept y ?y1" using call_miss Pair Miss by force
    show ?thesis
    proof (cases "lookup (y_src y) k")
      case (Ok v)
      let ?y2 = "?y1\<lparr>y_calls := [] @ (k, t, Some v) # y_calls y\<rparr>"
      have 2: "fstep lookup feed sstep kept ?y1 ?y2" by (rule call_read) (use Ok in simp_all)
      have "fstep lookup feed sstep kept ?y2 (?y2\<lparr>y_fol := get_end clk' k v t (y_fol ?y2), y_calls := [] @ y_calls y\<rparr>)"
        by (rule call_ends) simp
      with 1 2 show ?thesis using assms Pair Miss Ok
        by (auto simp: follower_get_def Let_def intro: converse_rtranclp_into_rtranclp)
    qed (use assms Pair Miss 1 call_fails [of ?y1 "[]" k t "y_calls y" lookup feed sstep kept] in
        \<open>auto simp: follower_get_def Let_def split: if_splits intro: converse_rtranclp_into_rtranclp\<close>)
  qed
qed

lemma follower_get_Ok:
  assumes "follower_get clk clk' look (\<lambda>f. f) k f = (Ok v, f')"
  shows "(\<exists>f1. get_begin clk k f = (Hit v, f1)) \<or> look k = Ok v"
  using assms by (auto simp: follower_get_def Let_def split: prod.splits lookup_begin.splits result.splits if_splits)

section \<open>What the critical sections do to the entries\<close>

lemma freshLocked_bound: "freshLocked f clk \<Longrightarrow> f_lastPoll f \<le> clk \<and> clk - f_lastPoll f < PollBound"
  by (auto simp: freshLocked_def time_Sub_def PollBound_def PollInterval_def Second_def split: if_splits)

lemma get_begin_entries:
  assumes "get_begin clk k f = (r, f')" "lru_ok (f_entries f)"
  shows "lru_ok (f_entries f') \<and> lru_peek (f_entries f') = lru_peek (f_entries f) \<and> f_cursor f' = f_cursor f \<and>
    f_gen f' = f_gen f \<and> f_polled f' = f_polled f \<and> f_lastPoll f' = f_lastPoll f \<and>
    (\<forall>t. r = Miss t \<longrightarrow> tk_gen t = f_gen f) \<and>
    (\<forall>v. r = Hit v \<longrightarrow> freshLocked f clk \<and> lru_peek (f_entries f) k = Some v)"
  using assms peek_get [OF assms(2), of k] get_peek [OF assms(2), of k] lru_ok_ops(1) [OF assms(2), of k]
  by (cases "lru_get k (f_entries f)") (auto simp: get_begin_def Let_def split: if_splits option.splits)

lemma get_end_entries:
  assumes "lru_ok (f_entries f)"
  shows "lru_ok (f_entries (get_end clk k v t f)) \<and> f_cursor (get_end clk k v t f) = f_cursor f \<and>
    f_gen (get_end clk k v t f) = f_gen f \<and> f_polled (get_end clk k v t f) = f_polled f \<and>
    f_lastPoll (get_end clk k v t f) = f_lastPoll f \<and>
    (lru_peek (f_entries (get_end clk k v t f)) k' = Some v' \<longrightarrow>
       lru_peek (f_entries f) k' = Some v' \<or> k' = k \<and> v' = v \<and> tk_gen t = f_gen f)"
  using assms peek_put [OF assms, of k v] by (auto simp: get_end_def)

section \<open>What a cache relies on, and what it guarantees\<close>

text \<open>
  \<open>valid s k v\<close>: \<open>v\<close> is the store's answer for \<open>k\<close>. \<open>pend s c k\<close>: the feed of \<open>s\<close> names \<open>k\<close> after \<open>c\<close>.
  The store promises that an answer changes only with a feed entry numbered above every cursor issued
  so far, and that its pages skip nothing. \<open>kept s c\<close> says that the store still retains its feed after
  \<open>c\<close>: a follower reads its feed far more often than the store reaps it, so every successful read of
  \<open>fstep\<close> happens at a retained cursor.
\<close>

locale change_source =
  fixes lookup :: "'s \<Rightarrow> 'k \<Rightarrow> 'v result" and feed :: "'s \<Rightarrow> cursor \<Rightarrow> ('k list \<times> cursor) result"
    and sstep :: "'s \<Rightarrow> 's \<Rightarrow> bool" and kept :: "'s \<Rightarrow> cursor \<Rightarrow> bool" and inv :: "'s \<Rightarrow> bool" and seq :: "'s \<Rightarrow> nat"
    and valid :: "'s \<Rightarrow> 'k \<Rightarrow> 'v \<Rightarrow> bool" and pend :: "'s \<Rightarrow> cursor \<Rightarrow> 'k \<Rightarrow> bool"
  assumes step_inv: "inv s \<Longrightarrow> sstep s s' \<Longrightarrow> inv s'"
    and step_seq: "inv s \<Longrightarrow> sstep s s' \<Longrightarrow> seq s \<le> seq s'"
    and lookup_valid: "inv s \<Longrightarrow> lookup s k = Ok v \<Longrightarrow> valid s k v"
    and step_covered: "inv s \<Longrightarrow> sstep s s' \<Longrightarrow> position c \<le> seq s \<Longrightarrow> valid s k v \<or> pend s c k \<Longrightarrow>
      valid s' k v \<or> pend s' c k"
    and page_bound: "inv s \<Longrightarrow> position c \<le> seq s \<Longrightarrow> feed s c = Ok (ch, nx) \<Longrightarrow> position nx \<le> seq s"
    and page_covers: "inv s \<Longrightarrow> position c \<le> seq s \<Longrightarrow> kept s c \<Longrightarrow> feed s c = Ok (ch, nx) \<Longrightarrow>
      valid s k v \<or> pend s c k \<Longrightarrow> k \<in> set ch \<or> valid s k v \<or> pend s nx k"
    and page_last: "inv s \<Longrightarrow> position c \<le> seq s \<Longrightarrow> kept s c \<Longrightarrow> feed s c = Ok (ch, nx) \<Longrightarrow>
      length ch = 0 \<or> \<not> cursor_After nx c \<Longrightarrow> valid s k v \<or> pend s c k \<Longrightarrow> k \<in> set ch \<or> valid s k v"
begin

definition recent :: "'s \<Rightarrow> 's \<Rightarrow> 'k \<Rightarrow> 'v \<Rightarrow> bool" where
  "recent s0 s k v \<longleftrightarrow> (\<exists>s1. sstep\<^sup>*\<^sup>* s0 s1 \<and> sstep\<^sup>*\<^sup>* s1 s \<and> valid s1 k v)"

definition covered :: "'s \<Rightarrow> cursor \<Rightarrow> 'k \<Rightarrow> 'v \<Rightarrow> bool" where
  "covered s c k v \<longleftrightarrow> valid s k v \<or> pend s c k"

lemma recent_now: "sstep\<^sup>*\<^sup>* s0 s \<Longrightarrow> valid s k v \<Longrightarrow> recent s0 s k v"
  by (auto simp: recent_def)

lemma recent_step: "recent s0 s k v \<Longrightarrow> sstep s s' \<Longrightarrow> recent s0 s' k v"
  by (meson recent_def rtranclp.rtrancl_into_rtrancl)

text \<open>The answers that are cached or may still be cached.\<close>

definition item :: "('k, 'v) follower \<Rightarrow> ('k \<times> ticket \<times> 'v option) list \<Rightarrow> 'k \<Rightarrow> 'v \<Rightarrow> bool" where
  "item f cs k v \<longleftrightarrow> lru_peek (f_entries f) k = Some v \<or> (\<exists>t. (k, t, Some v) \<in> set cs \<and> tk_gen t = f_gen f)"

fun phase_ok :: "'s \<Rightarrow> cursor \<Rightarrow> ('k \<Rightarrow> 'v \<Rightarrow> bool) \<Rightarrow> (instant \<times> 's) list \<Rightarrow> ('s, 'k) poll_phase \<Rightarrow> bool" where
  "phase_ok s c it bs PIdle = True"
| "phase_ok s c it bs (PStarting b s0) = ((b, s0) \<in> set bs \<and> sstep\<^sup>*\<^sup>* s0 s)"
| "phase_ok s c it bs (PReading b s0 cur r n) = ((b, s0) \<in> set bs \<and> sstep\<^sup>*\<^sup>* s0 s \<and> cur = c)"
| "phase_ok s c it bs (PRead b s0 cur r n ch nx) =
     ((b, s0) \<in> set bs \<and> sstep\<^sup>*\<^sup>* s0 s \<and> cur = c \<and> position nx \<le> seq s \<and>
      (\<forall>k v. it k v \<longrightarrow> k \<in> set ch \<or>
         covered s nx k v \<and> (length ch = 0 \<or> \<not> cursor_After nx cur \<longrightarrow> recent s0 s k v)))"
| "phase_ok s c it bs (PLost b s0 n) = ((b, s0) \<in> set bs \<and> sstep\<^sup>*\<^sup>* s0 s)"
| "phase_ok s c it bs (PFinishing b s0) =
     ((b, s0) \<in> set bs \<and> sstep\<^sup>*\<^sup>* s0 s \<and> (\<forall>k v. it k v \<longrightarrow> recent s0 s k v))"

definition polled_ok :: "'s \<Rightarrow> ('k, 'v) follower \<Rightarrow> ('k \<Rightarrow> 'v \<Rightarrow> bool) \<Rightarrow> (instant \<times> 's) list \<Rightarrow> bool" where
  "polled_ok s f it bs \<longleftrightarrow> (f_polled f \<longrightarrow>
     (\<exists>s0. (f_lastPoll f, s0) \<in> set bs \<and> sstep\<^sup>*\<^sup>* s0 s \<and> (\<forall>k v. it k v \<longrightarrow> recent s0 s k v)))"

definition finv :: "('s, 'k, 'v) fsys \<Rightarrow> bool" where
  "finv y \<longleftrightarrow>
     (let s = y_src y; f = y_fol y; it = item f (y_calls y) in
      inv s \<and> lru_ok (f_entries f) \<and> position (f_cursor f) \<le> seq s \<and>
      (\<forall>(k, t, v) \<in> set (y_calls y). tk_gen t \<le> f_gen f) \<and>
      (\<forall>k v. it k v \<longrightarrow> covered s (f_cursor f) k v) \<and>
      polled_ok s f it (y_began y) \<and> phase_ok s (f_cursor f) it (y_began y) (y_poll y))"

text \<open>Fewer items, and items that are valid now, keep the invariant.\<close>

definition narrows :: "'s \<Rightarrow> ('k \<Rightarrow> 'v \<Rightarrow> bool) \<Rightarrow> ('k \<Rightarrow> 'v \<Rightarrow> bool) \<Rightarrow> bool" where
  "narrows s it it' \<longleftrightarrow> (\<forall>k v. it' k v \<longrightarrow> it k v \<or> valid s k v)"

lemma phase_narrows: "narrows s it it' \<Longrightarrow> phase_ok s c it bs p \<Longrightarrow> phase_ok s c it' bs p"
  by (cases p) (auto simp: narrows_def covered_def; metis recent_now)+

lemma polled_narrows: "narrows s it it' \<Longrightarrow> polled_ok s f it bs \<Longrightarrow> f_polled f' = f_polled f \<Longrightarrow>
    f_lastPoll f' = f_lastPoll f \<Longrightarrow> polled_ok s f' it' bs"
  unfolding narrows_def polled_ok_def by (metis recent_now)

lemma finv_narrows:
  assumes "finv y" "y_src y' = y_src y" "y_poll y' = y_poll y" "y_began y' = y_began y"
    "lru_ok (f_entries (y_fol y'))" "f_cursor (y_fol y') = f_cursor (y_fol y)"
    "f_polled (y_fol y') = f_polled (y_fol y)" "f_lastPoll (y_fol y') = f_lastPoll (y_fol y)"
    "\<forall>(k, t, v) \<in> set (y_calls y'). tk_gen t \<le> f_gen (y_fol y')"
    "narrows (y_src y) (item (y_fol y) (y_calls y)) (item (y_fol y') (y_calls y'))"
  shows "finv y'"
proof -
  have "covered (y_src y) (f_cursor (y_fol y)) k v" if "item (y_fol y') (y_calls y') k v" for k v
    using that assms(1,10) unfolding finv_def Let_def narrows_def covered_def by blast
  moreover have "phase_ok (y_src y) (f_cursor (y_fol y)) (item (y_fol y') (y_calls y')) (y_began y) (y_poll y)"
    using phase_narrows [OF assms(10)] assms(1) by (simp add: finv_def Let_def)
  moreover have "polled_ok (y_src y) (y_fol y') (item (y_fol y') (y_calls y')) (y_began y)"
    using polled_narrows [OF assms(10) _ assms(7,8)] assms(1) by (simp add: finv_def Let_def)
  ultimately show ?thesis
    using assms(1) assms(2-6,9) by (simp add: finv_def Let_def)
qed

lemma finv_store:
  assumes y: "finv y" and st: "sstep (y_src y) s'"
  shows "finv (y\<lparr>y_src := s'\<rparr>)"
proof -
  have inv: "inv (y_src y)" using y by (simp add: finv_def Let_def)
  note seq = step_seq [OF inv st]
  have cov: "covered s' c k v" if "covered (y_src y) c k v" "position c \<le> seq (y_src y)" for c k v
    using that step_covered [OF inv st] by (simp add: covered_def)
  have reach: "sstep\<^sup>*\<^sup>* s0 s'" if "sstep\<^sup>*\<^sup>* s0 (y_src y)" for s0 using that st by simp
  have ph: "phase_ok s' c it bs p" if "phase_ok (y_src y) c it bs p" for c it bs p
    using that seq reach cov recent_step [OF _ st] by (cases p) (auto; blast)+
  have po: "polled_ok s' f it bs" if "polled_ok (y_src y) f it bs" for f it bs
    using that reach recent_step [OF _ st] unfolding polled_ok_def by meson
  show ?thesis using y seq step_inv [OF inv st] cov ph po by (auto simp: finv_def Let_def)
qed

lemma finv_calls:
  assumes y: "finv y" and f': "get_begin clk k (y_fol y) = (r, f')"
  shows "finv (y\<lparr>y_fol := f'\<rparr>)" and "r = Miss t \<Longrightarrow> finv (y\<lparr>y_fol := f', y_calls := (k, t, None) # y_calls y\<rparr>)"
proof -
  have ok: "lru_ok (f_entries (y_fol y))" using y by (simp add: finv_def Let_def)
  note e = get_begin_entries [OF f' ok]
  have calls: "\<forall>(k, t, v) \<in> set (y_calls y). tk_gen t \<le> f_gen (y_fol y)" using y by (simp add: finv_def Let_def)
  show "finv (y\<lparr>y_fol := f'\<rparr>)"
    by (rule finv_narrows [OF y]) (use e calls in \<open>auto simp: narrows_def item_def\<close>)
  show "finv (y\<lparr>y_fol := f', y_calls := (k, t, None) # y_calls y\<rparr>)" if "r = Miss t"
    by (rule finv_narrows [OF y]) (use e calls that in \<open>auto simp: narrows_def item_def\<close>)
qed

lemma finv_read:
  assumes y: "finv y" and cs: "y_calls y = cs @ (k, t, None) # cs'" and v: "lookup (y_src y) k = Ok v"
  shows "finv (y\<lparr>y_calls := cs @ (k, t, Some v) # cs'\<rparr>)"
proof -
  have "inv (y_src y)" using y by (simp add: finv_def Let_def)
  then have "valid (y_src y) k v" using lookup_valid v by blast
  then show ?thesis
    by (intro finv_narrows [OF y]) (use y cs in \<open>auto simp: narrows_def item_def finv_def Let_def\<close>)
qed

lemma finv_drop_call:
  assumes y: "finv y" and cs: "y_calls y = cs @ c # cs'"
  shows "finv (y\<lparr>y_calls := cs @ cs'\<rparr>)"
  by (rule finv_narrows [OF y]) (use y cs in \<open>auto simp: narrows_def item_def finv_def Let_def\<close>)

lemma finv_end_call:
  assumes y: "finv y" and cs: "y_calls y = cs @ (k, t, Some v) # cs'"
  shows "finv (y\<lparr>y_fol := get_end clk k v t (y_fol y), y_calls := cs @ cs'\<rparr>)"
proof -
  have ok: "lru_ok (f_entries (y_fol y))" using y by (simp add: finv_def Let_def)
  note e = get_end_entries [OF ok, of clk k v t]
  have "narrows (y_src y) (item (y_fol y) (y_calls y)) (item (get_end clk k v t (y_fol y)) (cs @ cs'))"
    using e cs unfolding narrows_def item_def by auto
  then show ?thesis
    by (intro finv_narrows [OF y]) (use e y cs in \<open>auto simp: finv_def Let_def\<close>)
qed

text \<open>Evictions and polls raise the generation, so no lookup in flight can still be cached.\<close>

lemma item_bumped:
  assumes "finv y" "f_gen f' = f_gen (y_fol y) + 1" "item f' (y_calls y) k v"
  shows "lru_peek (f_entries f') k = Some v"
  using assms by (fastforce simp: item_def finv_def Let_def)

lemma narrows_bumped:
  assumes "finv y" "f_gen f' = f_gen (y_fol y) + 1"
    and "\<And>k v. lru_peek (f_entries f') k = Some v \<Longrightarrow> lru_peek (f_entries (y_fol y)) k = Some v"
  shows "narrows s (item (y_fol y) (y_calls y)) (item f' (y_calls y))"
  using item_bumped [OF assms(1,2)] assms(3) by (auto simp: narrows_def item_def)

lemma gens_bumped: "finv y \<Longrightarrow> \<forall>(k, t, v) \<in> set (y_calls y). tk_gen t \<le> f_gen (y_fol y) + 1"
  by (fastforce simp: finv_def Let_def)

lemma finv_forget:
  assumes y: "finv y"
  shows "finv (y\<lparr>y_fol := follower_forget k (y_fol y)\<rparr>)" and "finv (y\<lparr>y_fol := follower_forgetWhere P (y_fol y)\<rparr>)"
proof -
  have ok: "lru_ok (f_entries (y_fol y))" using y by (simp add: finv_def Let_def)
  have "narrows (y_src y) (item (y_fol y) (y_calls y)) (item (follower_forget k (y_fol y)) (y_calls y))"
    by (rule narrows_bumped [OF y]) (use ok in \<open>auto simp: follower_forget_def peek_remove split: if_splits\<close>)
  then show "finv (y\<lparr>y_fol := follower_forget k (y_fol y)\<rparr>)"
    by (intro finv_narrows [OF y]) (use ok gens_bumped [OF y] in \<open>auto simp: follower_forget_def\<close>)
  have "narrows (y_src y) (item (y_fol y) (y_calls y)) (item (follower_forgetWhere P (y_fol y)) (y_calls y))"
    by (rule narrows_bumped [OF y])
      (use peek_removeWhere [OF ok, of P] in \<open>auto simp: follower_forgetWhere_def\<close>)
  then show "finv (y\<lparr>y_fol := follower_forgetWhere P (y_fol y)\<rparr>)"
    by (intro finv_narrows [OF y]) (use ok gens_bumped [OF y] in \<open>auto simp: follower_forgetWhere_def\<close>)
qed

lemma finv_poll_starts:
  assumes "finv y"
  shows "y_poll y = PIdle \<Longrightarrow> finv (y\<lparr>y_poll := PStarting clk (y_src y), y_began := (clk, y_src y) # y_began y\<rparr>)"
    and "y_poll y = PStarting b s0 \<Longrightarrow> finv (y\<lparr>y_poll := PReading b s0 (f_cursor (y_fol y)) False m\<rparr>)"
    and "y_poll y = PReading b s0 cur r n \<Longrightarrow> finv (y\<lparr>y_poll := PIdle\<rparr>)"
    and "y_poll y = PReading b s0 cur False n \<Longrightarrow> finv (y\<lparr>y_poll := PLost b s0 m\<rparr>)"
  using assms by (auto simp: finv_def Let_def polled_ok_def)

lemma finv_poll_reads:
  assumes y: "finv y" and p: "y_poll y = PReading b s0 cur r n" and fd: "feed (y_src y) cur = Ok (ch, nx)"
    and kp: "kept (y_src y) cur"
  shows "finv (y\<lparr>y_poll := PRead b s0 cur r m ch nx\<rparr>)"
proof -
  let ?s = "y_src y"
  have facts: "inv ?s" "position cur \<le> seq ?s" "sstep\<^sup>*\<^sup>* s0 ?s" using y p by (auto simp: finv_def Let_def)
  have cov: "covered ?s cur k v" if "item (y_fol y) (y_calls y) k v" for k v
    using y p that by (auto simp: finv_def Let_def)
  have "k \<in> set ch \<or> covered ?s nx k v \<and> (length ch = 0 \<or> \<not> cursor_After nx cur \<longrightarrow> recent s0 ?s k v)"
    if "item (y_fol y) (y_calls y) k v" for k v
    using cov [OF that] page_covers [OF facts(1,2) kp fd, of k v] page_last [OF facts(1,2) kp fd, of k v]
      recent_now [OF facts(3), of k v] by (auto simp: covered_def)
  then show ?thesis
    using y p page_bound [OF facts(1,2) fd] by (auto simp: finv_def Let_def)
qed

lemma finv_poll_resets:
  assumes y: "finv y" and p: "y_poll y = PLost b s0 n"
  shows "finv (y\<lparr>y_fol := poll_reset (y_fol y), y_poll := PReading b s0 zero_cursor True n\<rparr>)"
proof -
  have none: "\<not> item (poll_reset (y_fol y)) (y_calls y) k v" for k v
    using item_bumped [OF y, of "poll_reset (y_fol y)" k v] by (auto simp: poll_reset_def)
  show ?thesis
    using y p none gens_bumped [OF y]
    by (simp add: finv_def Let_def polled_ok_def) (auto simp: poll_reset_def zero_cursor_def)
qed

lemma finv_poll_applies:
  assumes y: "finv y" and p: "y_poll y = PRead b s0 cur r n ch nx"
  shows "finv (y\<lparr>y_fol := poll_apply ch cur nx (y_fol y),
    y_poll := (if length ch = 0 \<or> \<not> cursor_After nx cur then PFinishing b s0 else PReading b s0 nx r n)\<rparr>)"
proof -
  let ?f = "y_fol y" and ?s = "y_src y"
  let ?f' = "poll_apply ch cur nx ?f"
  have ok: "lru_ok (f_entries ?f)" using y by (simp add: finv_def Let_def)
  have it: "k \<notin> set ch \<and> item ?f (y_calls y) k v" if "item ?f' (y_calls y) k v" for k v
    using item_bumped [OF y _ that] peek_remove_all [OF ok, of ch k v] by (auto simp: poll_apply_def item_def)
  have nxt: "covered ?s nx k v \<and> covered ?s cur k v \<and> (length ch = 0 \<or> \<not> cursor_After nx cur \<longrightarrow> recent s0 ?s k v)"
    if "item ?f' (y_calls y) k v" for k v
    using it [OF that] y p by (auto simp: finv_def Let_def)
  have "polled_ok ?s ?f' (item ?f' (y_calls y)) (y_began y)"
  proof (rule polled_narrows)
    show "narrows ?s (item ?f (y_calls y)) (item ?f' (y_calls y))" using it by (auto simp: narrows_def)
    show "polled_ok ?s ?f (item ?f (y_calls y)) (y_began y)" using y by (simp add: finv_def Let_def)
  qed (simp_all add: poll_apply_def)
  moreover have "f_cursor ?f' = (if cursor_After nx cur then nx else cur)" "f_gen ?f' = f_gen ?f + 1"
    using y p by (auto simp: poll_apply_def finv_def Let_def)
  moreover have "lru_ok (f_entries ?f')" using peek_remove_all [OF ok, of ch] by (simp add: poll_apply_def)
  ultimately show ?thesis
    using y p nxt gens_bumped [OF y] by (auto simp: finv_def Let_def)
qed

lemma finv_poll_finishes:
  assumes y: "finv y" and p: "y_poll y = PFinishing b s0"
  shows "finv (y\<lparr>y_fol := poll_finish b (y_fol y), y_poll := PIdle\<rparr>)"
proof -
  have "item (poll_finish b (y_fol y)) cs = item (y_fol y) cs" for cs
    by (intro ext) (simp add: item_def poll_finish_def)
  then show ?thesis using y p by (auto simp: finv_def Let_def polled_ok_def) (auto simp: poll_finish_def)
qed

lemma finv_step: "fstep lookup feed sstep kept y y' \<Longrightarrow> finv y \<Longrightarrow> finv y'"
  by (induction rule: fstep.induct)
    (blast intro: finv_store finv_calls finv_read finv_drop_call finv_end_call finv_forget finv_poll_starts
      finv_poll_reads finv_poll_resets finv_poll_applies finv_poll_finishes)+

lemma finv_run: "(fstep lookup feed sstep kept)\<^sup>*\<^sup>* y y' \<Longrightarrow> finv y \<Longrightarrow> finv y'"
  by (induction rule: rtranclp_induct) (auto intro: finv_step)

lemma finv_init:
  assumes "inv s" "newFollower cap = Ok f"
  shows "finv (fsys_init s f)"
proof -
  have "lru_ok (f_entries f) \<and> position (f_cursor f) = 0 \<and> \<not> f_polled f \<and> (\<forall>k. lru_peek (f_entries f) k = None)"
    using assms(2) by (auto simp: newFollower_def zero_cursor_def DefaultCapacity_def intro!: lru_ok_new split: if_splits)
  then show ?thesis using assms(1) by (auto simp: finv_def fsys_init_def item_def polled_ok_def)
qed

text \<open>The bound on staleness.\<close>

lemma hit_recent:
  assumes "inv s" "newFollower cap = Ok f" "(fstep lookup feed sstep kept)\<^sup>*\<^sup>* (fsys_init s f) y"
    and hit: "get_begin clk k (y_fol y) = (Hit v, f')"
  shows "\<exists>(b, s0) \<in> set (y_began y). b \<le> clk \<and> clk - b < PollBound \<and>
    (\<exists>s1. sstep\<^sup>*\<^sup>* s0 s1 \<and> sstep\<^sup>*\<^sup>* s1 (y_src y) \<and> valid s1 k v)"
proof -
  have y: "finv y" using finv_run [OF assms(3)] finv_init [OF assms(1,2)] by blast
  then have ok: "lru_ok (f_entries (y_fol y))" by (simp add: finv_def Let_def)
  have h: "freshLocked (y_fol y) clk" "item (y_fol y) (y_calls y) k v"
    using get_begin_entries [OF hit ok] by (auto simp: item_def)
  then have "f_polled (y_fol y)" by (simp add: freshLocked_def)
  then obtain s0 where "(f_lastPoll (y_fol y), s0) \<in> set (y_began y)" "recent s0 (y_src y) k v"
    using y h(2) by (auto simp: finv_def Let_def polled_ok_def)
  then show ?thesis using freshLocked_bound [OF h(1)] by (auto simp: recent_def)
qed

end

end
