(* ===== verification/Identity_Record.thy ===== *)
theory Identity_Record
  imports Core_Factor
begin

text \<open>
  The account contract: identifiers, password hashes, mutations, their effects and the outbox rows they
  queue, from \<^verbatim>\<open>store/identity/identifier.go\<close>, \<^verbatim>\<open>records.go\<close>, \<^verbatim>\<open>mutation.go\<close> and \<^verbatim>\<open>outbox.go\<close>. The closed
  \<^verbatim>\<open>Mutation\<close> interface is a datatype with the twelve value types as constructors, so the \<^verbatim>\<open>declared\<close> test of
  a foreign implementation has no counterpart.
\<close>

section \<open>Identifiers\<close>

type_synonym identifier_kind = u8

definition IdentifierEmail :: identifier_kind where "IdentifierEmail = 1"
definition IdentifierPhone :: identifier_kind where "IdentifierPhone = 2"
definition IdentifierRecoveryEmail :: identifier_kind where "IdentifierRecoveryEmail = 3"

lemmas identifier_kind_defs = IdentifierEmail_def IdentifierPhone_def IdentifierRecoveryEmail_def

definition identifier_kind_Valid :: "identifier_kind \<Rightarrow> bool" where
  "identifier_kind_Valid k \<longleftrightarrow> IdentifierEmail \<le> k \<and> k \<le> IdentifierRecoveryEmail"

definition MaxIdentifierLen :: nat where "MaxIdentifierLen = 320"

record ident =
  i_kind :: identifier_kind
  i_value :: string

definition zero_identifier :: ident where
  "zero_identifier = \<lparr>i_kind = 0, i_value = []\<rparr>"

definition identifier_IsZero :: "ident \<Rightarrow> bool" where
  "identifier_IsZero i \<longleftrightarrow> i_kind i = 0"

text \<open>
  \<^verbatim>\<open>for _, c := range s\<close> decodes UTF-8: the next code point and the bytes it takes, or U+FFFD and one byte
  for an invalid sequence.
\<close>

abbreviation octet :: "char \<Rightarrow> nat" where
  "octet c \<equiv> of_char c"

definition runeError :: nat where "runeError = 65533"

definition cont :: "nat \<Rightarrow> nat \<Rightarrow> char \<Rightarrow> bool" where
  "cont lo hi c \<longleftrightarrow> lo \<le> octet c \<and> octet c \<le> hi"

definition decodeRune :: "string \<Rightarrow> nat \<times> nat \<times> bool" where
  "decodeRune s =
     (let bad = (runeError, 1, False) in
      case s of
        [] \<Rightarrow> (runeError, 0, False)
      | b0 # r \<Rightarrow>
        (let a = octet b0 in
         if a < 128 then (a, 1, True)
         else if 194 \<le> a \<and> a \<le> 223 then
           (case r of b1 # _ \<Rightarrow> if cont 128 191 b1 then ((a - 192) * 64 + (octet b1 - 128), 2, True) else bad | _ \<Rightarrow> bad)
         else if 224 \<le> a \<and> a \<le> 239 then
           (case r of b1 # b2 # _ \<Rightarrow>
              if cont (if a = 224 then 160 else 128) (if a = 237 then 159 else 191) b1 \<and> cont 128 191 b2
              then ((a - 224) * 4096 + (octet b1 - 128) * 64 + (octet b2 - 128), 3, True) else bad | _ \<Rightarrow> bad)
         else if 240 \<le> a \<and> a \<le> 244 then
           (case r of b1 # b2 # b3 # _ \<Rightarrow>
              if cont (if a = 240 then 144 else 128) (if a = 244 then 143 else 191) b1 \<and> cont 128 191 b2 \<and> cont 128 191 b3
              then ((a - 240) * 262144 + (octet b1 - 128) * 4096 + (octet b2 - 128) * 64 + (octet b3 - 128), 4, True)
              else bad | _ \<Rightarrow> bad)
         else bad))"

text \<open>The runes of a string, each with whether its bytes were valid.\<close>

function runes :: "string \<Rightarrow> (nat \<times> bool) list" where
  "runes s = (if s = [] then [] else case decodeRune s of (c, n, ok) \<Rightarrow> (c, ok) # runes (drop (max 1 n) s))"
  by pat_completeness auto
termination by (relation "measure length") auto

declare runes.simps [simp del]

definition utf8_ValidString :: "string \<Rightarrow> bool" where
  "utf8_ValidString s \<longleftrightarrow> list_all snd (runes s)"

definition unicode_IsSpace :: "nat \<Rightarrow> bool" where
  "unicode_IsSpace c \<longleftrightarrow>
     c \<in> {9, 10, 11, 12, 13, 32, 133, 160, 5760, 8232, 8233, 8239, 8287, 12288} \<or> 8192 \<le> c \<and> c \<le> 8202"

definition unicode_IsControl :: "nat \<Rightarrow> bool" where
  "unicode_IsControl c \<longleftrightarrow> c \<le> 31 \<or> 127 \<le> c \<and> c \<le> 159"

text \<open>\<open>lu\<close> is the category table Lu of the \<^verbatim>\<open>unicode\<close> package beyond Latin-1.\<close>

definition unicode_IsUpper :: "(nat \<Rightarrow> bool) \<Rightarrow> nat \<Rightarrow> bool" where
  "unicode_IsUpper lu c \<longleftrightarrow>
     (if c \<le> 255 then 65 \<le> c \<and> c \<le> 90 \<or> 192 \<le> c \<and> c \<le> 222 \<and> c \<noteq> 215 else lu c)"

definition digit :: "char \<Rightarrow> bool" where
  "digit c \<longleftrightarrow> CHR ''0'' \<le> c \<and> c \<le> CHR ''9''"

text \<open>A rune of a phone is a digit only when it is the byte itself, so the loop over runes is one over bytes.\<close>

definition canonicalPhone :: "string \<Rightarrow> bool" where
  "canonicalPhone s =
     (case s of
        c # digits \<Rightarrow>
          c = CHR ''+'' \<and>
          (if length digits < 8 \<or> length digits > 15 \<or> hd digits = CHR ''0'' then False
           else list_all digit digits)
      | [] \<Rightarrow> False)"

definition strings_Cut :: "string \<Rightarrow> char \<Rightarrow> string \<times> string \<times> bool" where
  "strings_Cut s c =
     (let before = takeWhile (\<lambda>x. x \<noteq> c) s in
      if length before = length s then (s, [], False) else (before, drop (length before + 1) s, True))"

definition canonicalEmail :: "(nat \<Rightarrow> bool) \<Rightarrow> string \<Rightarrow> bool" where
  "canonicalEmail lu s =
     (case strings_Cut s CHR ''@'' of
        (local', domain, ok) \<Rightarrow>
          (if \<not> ok \<or> local' = [] \<or> domain = [] \<or> CHR ''@'' \<in> set domain then False
           else list_all (\<lambda>(c, _). \<not> (unicode_IsSpace c \<or> unicode_IsControl c \<or> unicode_IsUpper lu c)) (runes s)))"

definition NewIdentifier :: "(nat \<Rightarrow> bool) \<Rightarrow> identifier_kind \<Rightarrow> string \<Rightarrow> ident result" where
  "NewIdentifier lu k normalized =
     (if \<not> identifier_kind_Valid k \<or> normalized = [] \<or> length normalized > MaxIdentifierLen \<or>
         \<not> utf8_ValidString normalized
      then Err [IdentityErr ErrInvalidIdentifier]
      else if k = IdentifierPhone then
        (if \<not> canonicalPhone normalized
         then Err (errors_Join [IdentityErr ErrInvalidIdentifier] (errors_New ''phone must be in E.164 form''))
         else Ok \<lparr>i_kind = k, i_value = normalized\<rparr>)
      else if \<not> canonicalEmail lu normalized
        then Err (errors_Join [IdentityErr ErrInvalidIdentifier] (errors_New ''email is not in canonical form''))
      else Ok \<lparr>i_kind = k, i_value = normalized\<rparr>)"

section \<open>Records\<close>

record user =
  u_Subject :: subject
  u_Email :: ident
  u_EmailVerifiedAt :: instant
  u_Phone :: ident
  u_PhoneVerifiedAt :: instant
  u_RecoveryEmail :: ident
  u_RecoveryEmailVerifiedAt :: instant
  u_DisabledAt :: instant
  u_DeletedAt :: instant
  u_MustChange :: bool
  u_SecurityEpoch :: u64
  u_CreatedAt :: instant

text \<open>\<^verbatim>\<open>PasswordHash\<close> holds a pointer to the encoded hash; the zero value is nil.\<close>

datatype password_hash = PasswordHash (ph_ptr: "string option")

definition zero_hash :: password_hash where "zero_hash = PasswordHash None"

definition NewPasswordHash :: "string \<Rightarrow> password_hash" where
  "NewPasswordHash phc = (if phc = [] then PasswordHash None else PasswordHash (Some phc))"

definition hash_PHC :: "password_hash \<Rightarrow> string" where
  "hash_PHC h = (case ph_ptr h of None \<Rightarrow> [] | Some s \<Rightarrow> s)"

definition hash_IsZero :: "password_hash \<Rightarrow> bool" where
  "hash_IsZero h \<longleftrightarrow> (case ph_ptr h of None \<Rightarrow> True | Some s \<Rightarrow> s = [])"

record password_credential =
  pc_Subject :: subject
  pc_PHC :: password_hash
  pc_ChangedAt :: instant
  pc_FailedAttempts :: int
  pc_LockedUntil :: instant

record lockout_policy =
  lp_Threshold :: int
  lp_Window :: duration

record lockout =
  lk_FailedAttempts :: int
  lk_LockedUntil :: instant
  lk_JustLocked :: bool

record federated_identity =
  fi_Provider :: string
  fi_ProviderSubject :: string
  fi_Authority :: string
  fi_ProviderEmail :: ident
  fi_ProviderEmailVerified :: bool

definition zero_federated :: federated_identity where
  "zero_federated = \<lparr>fi_Provider = [], fi_ProviderSubject = [], fi_Authority = [],
     fi_ProviderEmail = zero_identifier, fi_ProviderEmailVerified = False\<rparr>"

record federated_key =
  fk_Tenant :: tenant_id
  fk_Provider :: string
  fk_ProviderSubject :: string

record federated_link =
  fl_Subject :: subject
  fl_Identity :: federated_identity
  fl_LinkedAt :: instant

end
