(* ===== verification/Identity_Mutation.thy ===== *)
theory Identity_Mutation
  imports Identity_Record
begin

text \<open>
  Intent mutations and what they queue: \<^verbatim>\<open>store/identity/mutation.go\<close> and \<^verbatim>\<open>store/identity/outbox.go\<close>.
\<close>

section \<open>Events, reasons and components\<close>

type_synonym lifecycle_event = u8
type_synonym rotation_reason = u8
type_synonym factor_change = u8
type_synonym component = u8

definition EventCredentialRotated :: lifecycle_event where "EventCredentialRotated = 1"
definition EventFactorsChanged :: lifecycle_event where "EventFactorsChanged = 2"
definition EventIdentifierChanged :: lifecycle_event where "EventIdentifierChanged = 3"
definition EventDisable :: lifecycle_event where "EventDisable = 4"
definition EventEnable :: lifecycle_event where "EventEnable = 5"
definition EventDelete :: lifecycle_event where "EventDelete = 6"
definition eventEnd :: lifecycle_event where "eventEnd = 7"

lemmas event_defs = EventCredentialRotated_def EventFactorsChanged_def EventIdentifierChanged_def
  EventDisable_def EventEnable_def EventDelete_def eventEnd_def

definition event_Valid :: "lifecycle_event \<Rightarrow> bool" where
  "event_Valid e \<longleftrightarrow> EventCredentialRotated \<le> e \<and> e < eventEnd"

definition RotationPasswordChanged :: rotation_reason where "RotationPasswordChanged = 1"
definition RotationPasswordReset :: rotation_reason where "RotationPasswordReset = 2"
definition RotationTemporaryPassword :: rotation_reason where "RotationTemporaryPassword = 3"
definition RotationSecurityRevert :: rotation_reason where "RotationSecurityRevert = 4"

definition rotation_Valid :: "rotation_reason \<Rightarrow> bool" where
  "rotation_Valid r \<longleftrightarrow> RotationPasswordChanged \<le> r \<and> r \<le> RotationSecurityRevert"

definition ForcesChange :: "rotation_reason \<Rightarrow> bool" where
  "ForcesChange r \<longleftrightarrow> r = RotationTemporaryPassword"

definition FactorTOTPEnrolled :: factor_change where "FactorTOTPEnrolled = 1"
definition FactorTOTPRemoved :: factor_change where "FactorTOTPRemoved = 2"
definition FactorRecoveryCodesRegenerated :: factor_change where "FactorRecoveryCodesRegenerated = 3"
definition FactorPasskeyAdded :: factor_change where "FactorPasskeyAdded = 4"
definition FactorPasskeyRemoved :: factor_change where "FactorPasskeyRemoved = 5"
definition FactorFederatedLinked :: factor_change where "FactorFederatedLinked = 6"
definition FactorFederatedUnlinked :: factor_change where "FactorFederatedUnlinked = 7"

definition change_Valid :: "factor_change \<Rightarrow> bool" where
  "change_Valid c \<longleftrightarrow> FactorTOTPEnrolled \<le> c \<and> c \<le> FactorFederatedUnlinked"

definition ComponentSessions :: component where "ComponentSessions = 1"
definition ComponentIdentity :: component where "ComponentIdentity = 10"
definition componentEnd :: component where "componentEnd = 11"

definition component_Valid :: "component \<Rightarrow> bool" where
  "component_Valid c \<longleftrightarrow> ComponentSessions \<le> c \<and> c < componentEnd"

text \<open>The loop of \<^verbatim>\<open>Components\<close> from the first component while below the end.\<close>

definition Components :: "component list" where
  "Components = map of_nat [unat ComponentSessions ..< unat componentEnd]"

definition component_String :: "component \<Rightarrow> string" where
  "component_String c =
     (if c = 1 then ''sessions'' else if c = 2 then ''api_keys'' else if c = 3 then ''ceremonies''
      else if c = 4 then ''mfa'' else if c = 5 then ''passkeys'' else if c = 6 then ''federation''
      else if c = 7 then ''notices'' else if c = 8 then ''keys'' else if c = 9 then ''hooks''
      else if c = 10 then ''identity'' else ''invalid'')"

definition ParseComponent :: "string \<Rightarrow> component result" where
  "ParseComponent name =
     (case find (\<lambda>c. component_String c = name) Components of
        Some c \<Rightarrow> Ok c
      | None \<Rightarrow> Err (errors_Join [IdentityErr ErrUnknownComponent] (errors_New name)))"

record outbox_item =
  o_ID :: int
  o_Component :: component
  o_Event :: lifecycle_event
  o_Subject :: subject
  o_Keep :: uuid
  o_Rotation :: rotation_reason
  o_Change :: factor_change
  o_Identifier :: identifier_kind
  o_Old :: ident
  o_Attempts :: int
  o_NextAttemptAt :: instant
  o_CreatedAt :: instant

record applied =
  ap_Subject :: subject
  ap_NewEpoch :: u64
  ap_Outbox :: "outbox_item list"

record epoch_change =
  ec_Subject :: subject
  ec_NewEpoch :: u64
  ec_Reason :: lifecycle_event

section \<open>Mutations\<close>

definition MaxPHCLen :: nat where "MaxPHCLen = 1024"
definition MaxProviderLen :: nat where "MaxProviderLen = 255"

datatype mutation =
    SetPassword (m_Subject: subject) (m_PHC: password_hash) (m_Reason: rotation_reason) (m_Keep: uuid)
  | MarkEmailVerified (m_Subject: subject) (m_PHC: password_hash)
  | ChangeEmail (m_Subject: subject) (m_Email: ident)
  | SetPhone (m_Subject: subject) (m_Phone: ident)
  | SetRecoveryEmail (m_Subject: subject) (m_RecoveryEmail: ident)
  | SetDisabledState (m_Subject: subject) (m_Disable: bool)
  | SetMustChange (m_Subject: subject) (m_MustChange: bool)
  | Tombstone (m_Subject: subject)
  | BumpEpoch (m_Subject: subject) (m_Keep: uuid) (m_Change: factor_change)
  | CreateVerified (m_Tenant: tenant_id) (m_Email: ident) (m_PHC: password_hash) (m_MustChange: bool)
      (m_Federated: federated_identity)
  | LinkFederated (m_Subject: subject) (m_Identity: federated_identity) (m_Keep: uuid)
  | UnlinkFederated (m_Subject: subject) (m_Provider: string) (m_ProviderSubject: string) (m_Keep: uuid)

definition errNoSubject :: err where
  "errNoSubject = [PkgErr ''identity.errNoSubject'']"

definition checkFederatedKey :: "string \<Rightarrow> string \<Rightarrow> unit result" where
  "checkFederatedKey provider sub =
     (if provider = [] \<or> length provider > MaxProviderLen then Err (errors_New ''provider is required and bounded'')
      else if sub = [] \<or> length sub > MaxProviderLen then Err (errors_New ''provider subject is required and bounded'')
      else Ok ())"

definition checkFederated :: "federated_identity \<Rightarrow> unit result" where
  "checkFederated f =
     (case checkFederatedKey (fi_Provider f) (fi_ProviderSubject f) of
        Ok _ \<Rightarrow>
          (if fi_Authority f = [] \<or> length (fi_Authority f) > MaxProviderLen
           then Err (errors_New ''authority is required and bounded'')
           else if \<not> identifier_IsZero (fi_ProviderEmail f) \<and> i_kind (fi_ProviderEmail f) \<noteq> IdentifierEmail
           then Err (errors_New ''provider email must be an email identifier'')
           else if fi_ProviderEmailVerified f \<and> identifier_IsZero (fi_ProviderEmail f)
           then Err (errors_New ''a verified provider email needs an email'')
           else Ok ())
      | r \<Rightarrow> r)"

definition no_subject :: "subject \<Rightarrow> unit result \<Rightarrow> unit result" where
  "no_subject s r = (if subject_IsZero s then Err errNoSubject else r)"

definition validate_SetPassword :: "subject \<Rightarrow> password_hash \<Rightarrow> rotation_reason \<Rightarrow> uuid \<Rightarrow> unit result" where [simp]:
  "validate_SetPassword s phc reason keep =
     no_subject s
       (if hash_IsZero phc \<or> length (hash_PHC phc) > MaxPHCLen then Err (errors_New ''password hash is required and bounded'')
        else if \<not> rotation_Valid reason then Err (errors_New ''invalid rotation reason'')
        else if keep \<noteq> uuid_Nil \<and> reason \<noteq> RotationPasswordChanged
        then Err (errors_New ''only a password change keeps a session'')
        else Ok ())"

definition validate_MarkEmailVerified :: "subject \<Rightarrow> password_hash \<Rightarrow> unit result" where [simp]:
  "validate_MarkEmailVerified s phc =
     no_subject s (if length (hash_PHC phc) > MaxPHCLen then Err (errors_New ''password hash is too long'') else Ok ())"

definition validate_ChangeEmail :: "subject \<Rightarrow> ident \<Rightarrow> unit result" where [simp]:
  "validate_ChangeEmail s e =
     no_subject s (if i_kind e \<noteq> IdentifierEmail then Err (errors_New ''email identifier is required'') else Ok ())"

definition validate_SetPhone :: "subject \<Rightarrow> ident \<Rightarrow> unit result" where [simp]:
  "validate_SetPhone s p =
     no_subject s (if \<not> identifier_IsZero p \<and> i_kind p \<noteq> IdentifierPhone
                   then Err (errors_New ''phone identifier expected'') else Ok ())"

definition validate_SetRecoveryEmail :: "subject \<Rightarrow> ident \<Rightarrow> unit result" where [simp]:
  "validate_SetRecoveryEmail s e =
     no_subject s (if \<not> identifier_IsZero e \<and> i_kind e \<noteq> IdentifierRecoveryEmail
                   then Err (errors_New ''recovery email identifier expected'') else Ok ())"

definition validate_BumpEpoch :: "subject \<Rightarrow> factor_change \<Rightarrow> unit result" where [simp]:
  "validate_BumpEpoch s change =
     no_subject s
       (if \<not> change_Valid change then Err (errors_New ''invalid factor change'')
        else if change = FactorFederatedLinked \<or> change = FactorFederatedUnlinked
        then Err (errors_New ''federated changes use LinkFederated or UnlinkFederated'')
        else Ok ())"

definition validate_CreateVerified :: "ident \<Rightarrow> password_hash \<Rightarrow> bool \<Rightarrow> federated_identity \<Rightarrow> unit result" where [simp]:
  "validate_CreateVerified email phc mustChange fed =
     (if i_kind email \<noteq> IdentifierEmail then Err (errors_New ''email identifier is required'')
      else if length (hash_PHC phc) > MaxPHCLen then Err (errors_New ''password hash is too long'')
      else if mustChange \<and> hash_IsZero phc then Err (errors_New ''must change requires a password'')
      else if fed \<noteq> zero_federated then checkFederated fed
      else Ok ())"

fun mutation_validate :: "mutation \<Rightarrow> unit result" where
  "mutation_validate (SetPassword s phc reason keep) = validate_SetPassword s phc reason keep"
| "mutation_validate (MarkEmailVerified s phc) = validate_MarkEmailVerified s phc"
| "mutation_validate (ChangeEmail s e) = validate_ChangeEmail s e"
| "mutation_validate (SetPhone s p) = validate_SetPhone s p"
| "mutation_validate (SetRecoveryEmail s e) = validate_SetRecoveryEmail s e"
| "mutation_validate (SetDisabledState s _) = no_subject s (Ok ())"
| "mutation_validate (SetMustChange s _) = no_subject s (Ok ())"
| "mutation_validate (Tombstone s) = no_subject s (Ok ())"
| "mutation_validate (BumpEpoch s _ change) = validate_BumpEpoch s change"
| "mutation_validate (CreateVerified t email phc mustChange fed) = validate_CreateVerified email phc mustChange fed"
| "mutation_validate (LinkFederated s f _) = no_subject s (checkFederated f)"
| "mutation_validate (UnlinkFederated s provider sub _) = no_subject s (checkFederatedKey provider sub)"

definition identity_Validate :: "mutation \<Rightarrow> unit result" where
  "identity_Validate m =
     (case mutation_validate m of
        Err e \<Rightarrow> Err (errors_Join [IdentityErr ErrInvalidMutation] e)
      | r \<Rightarrow> r)"

text \<open>Event 0 is the zero \<^verbatim>\<open>Event\<close>: nothing is queued.\<close>

record effects =
  ef_BumpsEpoch :: bool
  ef_Event :: lifecycle_event

fun EffectsOf :: "mutation \<Rightarrow> effects" where
  "EffectsOf (SetPassword _ _ _ _) = \<lparr>ef_BumpsEpoch = True, ef_Event = EventCredentialRotated\<rparr>"
| "EffectsOf (MarkEmailVerified _ _) = \<lparr>ef_BumpsEpoch = True, ef_Event = EventIdentifierChanged\<rparr>"
| "EffectsOf (ChangeEmail _ _) = \<lparr>ef_BumpsEpoch = True, ef_Event = EventIdentifierChanged\<rparr>"
| "EffectsOf (SetPhone _ _) = \<lparr>ef_BumpsEpoch = True, ef_Event = EventIdentifierChanged\<rparr>"
| "EffectsOf (SetRecoveryEmail _ _) = \<lparr>ef_BumpsEpoch = True, ef_Event = EventIdentifierChanged\<rparr>"
| "EffectsOf (SetDisabledState _ disable) =
     (if disable then \<lparr>ef_BumpsEpoch = True, ef_Event = EventDisable\<rparr>
      else \<lparr>ef_BumpsEpoch = False, ef_Event = EventEnable\<rparr>)"
| "EffectsOf (SetMustChange _ _) = \<lparr>ef_BumpsEpoch = False, ef_Event = 0\<rparr>"
| "EffectsOf (Tombstone _) = \<lparr>ef_BumpsEpoch = True, ef_Event = EventDelete\<rparr>"
| "EffectsOf (BumpEpoch _ _ _) = \<lparr>ef_BumpsEpoch = True, ef_Event = EventFactorsChanged\<rparr>"
| "EffectsOf (CreateVerified _ _ _ _ _) = \<lparr>ef_BumpsEpoch = False, ef_Event = 0\<rparr>"
| "EffectsOf (LinkFederated _ _ _) = \<lparr>ef_BumpsEpoch = True, ef_Event = EventFactorsChanged\<rparr>"
| "EffectsOf (UnlinkFederated _ _ _ _) = \<lparr>ef_BumpsEpoch = True, ef_Event = EventFactorsChanged\<rparr>"

definition outbox_blank :: "lifecycle_event \<Rightarrow> subject \<Rightarrow> outbox_item" where
  "outbox_blank ev s =
     \<lparr>o_ID = 0, o_Component = 0, o_Event = ev, o_Subject = s, o_Keep = uuid_Nil, o_Rotation = 0, o_Change = 0,
      o_Identifier = 0, o_Old = zero_identifier, o_Attempts = 0, o_NextAttemptAt = zero_time, o_CreatedAt = zero_time\<rparr>"

fun outbox_fields :: "mutation \<Rightarrow> ident \<Rightarrow> outbox_item \<Rightarrow> outbox_item" where
  "outbox_fields (SetPassword _ _ reason keep) old t = t\<lparr>o_Keep := keep, o_Rotation := reason\<rparr>"
| "outbox_fields (BumpEpoch _ keep change) old t = t\<lparr>o_Keep := keep, o_Change := change\<rparr>"
| "outbox_fields (LinkFederated _ _ keep) old t = t\<lparr>o_Keep := keep, o_Change := FactorFederatedLinked\<rparr>"
| "outbox_fields (UnlinkFederated _ _ _ keep) old t = t\<lparr>o_Keep := keep, o_Change := FactorFederatedUnlinked\<rparr>"
| "outbox_fields (ChangeEmail _ _) old t = t\<lparr>o_Identifier := IdentifierEmail, o_Old := old\<rparr>"
| "outbox_fields (SetPhone _ _) old t = t\<lparr>o_Identifier := IdentifierPhone, o_Old := old\<rparr>"
| "outbox_fields (SetRecoveryEmail _ _) old t = t\<lparr>o_Identifier := IdentifierRecoveryEmail, o_Old := old\<rparr>"
| "outbox_fields (MarkEmailVerified _ _) old t = t\<lparr>o_Identifier := IdentifierEmail\<rparr>"
| "outbox_fields _ old t = t"

definition OutboxFor :: "mutation \<Rightarrow> subject \<Rightarrow> ident \<Rightarrow> outbox_item list" where
  "OutboxFor m s old =
     (let ev = ef_Event (EffectsOf m) in
      if ev = 0 then []
      else (let tmpl = outbox_fields m old (outbox_blank ev s) in
            map (\<lambda>c. tmpl\<lparr>o_Component := c\<rparr>) Components))"

lemma Components_eq: "Components = [1, 2, 3, 4, 5, 6, 7, 8, 9, 10]"
  by (simp add: Components_def ComponentSessions_def componentEnd_def upt_rec)

lemma ParseComponent_String: "component_Valid c \<Longrightarrow> ParseComponent (component_String c) = Ok c"
proof -
  assume "component_Valid c"
  then have "c \<in> {1, 2, 3, 4, 5, 6, 7, 8, 9, 10}"
    by (simp add: component_Valid_def ComponentSessions_def componentEnd_def) uint_arith
  then show ?thesis by (auto simp: ParseComponent_def Components_eq component_String_def)
qed

end
