(* ===== verification/Identity_Store.thy ===== *)
theory Identity_Store
  imports Identity_Mutation Feed
begin

text \<open>
  The in-process account store, \<^verbatim>\<open>store/identity/memory\<close>: accounts by subject, the epoch log and the
  lifecycle outbox. Every method runs under the store's mutex and is one step on the whole state. \<open>clk\<close> is
  what the clock returns. \<^verbatim>\<open>Apply\<close> asks the context several times, so there the context is a function of the
  number of the question: cancellation may arrive at any of them.
\<close>

section \<open>State\<close>

record password =
  pw_phc :: password_hash
  pw_changedAt :: instant
  pw_failed :: int
  pw_lockedUntil :: instant
  pw_lastFailure :: instant
  pw_mustChange :: bool

record account =
  a_user :: user
  a_password :: "password option"
  a_links :: "federated_link list"

record epoch_row =
  er_seq :: nat
  er_change :: epoch_change
  er_at :: instant

record outbox_row =
  or_item :: outbox_item
  or_done :: instant

record id_store =
  is_accounts :: "(subject, account) gomap"
  is_epochSeq :: nat
  is_epochs :: "epoch_row list"
  is_outboxSeq :: int
  is_outbox :: "outbox_row list"

definition passwordProvider :: string where "passwordProvider = ''password''"
definition feedPage :: nat where "feedPage = 1000"
definition Retention :: duration where "Retention = 7 * 24 * Hour"

definition identity_New :: id_store where
  "identity_New = \<lparr>is_accounts = [], is_epochSeq = 0, is_epochs = [], is_outboxSeq = 0, is_outbox = []\<rparr>"

definition new_password :: "password_hash \<Rightarrow> instant \<Rightarrow> bool \<Rightarrow> password" where
  "new_password phc at must =
     \<lparr>pw_phc = phc, pw_changedAt = at, pw_failed = 0, pw_lockedUntil = zero_time, pw_lastFailure = zero_time,
      pw_mustChange = must\<rparr>"

definition account_view :: "account \<Rightarrow> user" where
  "account_view a =
     (a_user a)\<lparr>u_MustChange := (case a_password a of None \<Rightarrow> False | Some p \<Rightarrow> pw_mustChange p)\<rparr>"

definition id_instant :: "instant \<Rightarrow> instant" where
  "id_instant t = (if t = zero_time then zero_time else time_Truncate t Microsecond)"

definition identity_now :: "instant \<Rightarrow> instant" where
  "identity_now clk = id_instant clk"

definition identity_Ping :: "context_err \<Rightarrow> id_store \<Rightarrow> unit result \<times> id_store" where
  "identity_Ping ctx s = with_ctx ctx s (Ok (), s)"

definition identity_EraseTenant :: "context_err \<Rightarrow> tenant_id \<Rightarrow> id_store \<Rightarrow> unit result \<times> id_store" where
  "identity_EraseTenant ctx t s =
     with_ctx ctx s
       (Ok (), s\<lparr>is_accounts := del_where (\<lambda>k _. s_tenant k = t) (is_accounts s),
                 is_epochs := filter (\<lambda>r. \<not> s_tenant (ec_Subject (er_change r)) = t) (is_epochs s),
                 is_outbox := filter (\<lambda>r. \<not> s_tenant (o_Subject (or_item r)) = t) (is_outbox s)\<rparr>)"

definition identity_ReapExpired :: "context_err \<Rightarrow> instant \<Rightarrow> id_store \<Rightarrow> nat result \<times> id_store" where
  "identity_ReapExpired ctx clk s =
     with_ctx ctx s
       (let cutoff = identity_now clk - Retention;
            epochs = filter (\<lambda>r. \<not> er_at r < cutoff) (is_epochs s);
            outbox = filter (\<lambda>r. \<not> (or_done r \<noteq> zero_time \<and> or_done r < cutoff)) (is_outbox s)
        in (Ok (length (is_epochs s) + length (is_outbox s) - length epochs - length outbox),
            s\<lparr>is_epochs := epochs, is_outbox := outbox\<rparr>))"

section \<open>Reads\<close>

definition identity_existing :: "subject \<Rightarrow> id_store \<Rightarrow> account result" where
  "identity_existing sub s =
     (case map_of (is_accounts s) sub of None \<Rightarrow> Err [StoreErr ErrNotFound] | Some a \<Rightarrow> Ok a)"

definition identity_GetUser :: "context_err \<Rightarrow> subject \<Rightarrow> id_store \<Rightarrow> user result \<times> id_store" where
  "identity_GetUser ctx sub s =
     with_ctx ctx s
       (case identity_existing sub s of Ok a \<Rightarrow> (Ok (account_view a), s) | Err e \<Rightarrow> (Err e, s) | Panic \<Rightarrow> (Panic, s))"

definition owns :: "tenant_id \<Rightarrow> ident \<Rightarrow> uuid \<Rightarrow> subject \<Rightarrow> account \<Rightarrow> bool" where
  "owns t i except k a \<longleftrightarrow>
     (if s_tenant k \<noteq> t \<or> s_user k = except \<or> u_DeletedAt (a_user a) \<noteq> zero_time then False
      else if i_kind i = IdentifierEmail then u_Email (a_user a) = i
      else if i_kind i = IdentifierPhone then u_Phone (a_user a) = i
      else False)"

definition identity_owner :: "tenant_id \<Rightarrow> ident \<Rightarrow> uuid \<Rightarrow> id_store \<Rightarrow> account option" where
  "identity_owner t i except s = map_option snd (find (\<lambda>(k, a). owns t i except k a) (is_accounts s))"

definition identity_FindUser :: "context_err \<Rightarrow> tenant_id \<Rightarrow> ident \<Rightarrow> id_store \<Rightarrow> user result \<times> id_store" where
  "identity_FindUser ctx t i s =
     with_ctx ctx s
       (if i_kind i \<noteq> IdentifierEmail \<and> i_kind i \<noteq> IdentifierPhone
        then (Err (errors_Join [IdentityErr ErrInvalidIdentifier] (errors_New ''only an email or a phone finds an account'')), s)
        else (case identity_owner t i uuid_Nil s of
                Some a \<Rightarrow> (Ok (account_view a), s)
              | None \<Rightarrow> (Err [StoreErr ErrNotFound], s)))"

definition links_to :: "string \<Rightarrow> string \<Rightarrow> federated_link \<Rightarrow> bool" where
  "links_to provider sub l \<longleftrightarrow> fi_Provider (fl_Identity l) = provider \<and> fi_ProviderSubject (fl_Identity l) = sub"

definition identity_linkOwner :: "tenant_id \<Rightarrow> string \<Rightarrow> string \<Rightarrow> id_store \<Rightarrow> account option" where
  "identity_linkOwner t provider sub s =
     map_option snd (find (\<lambda>(k, a). s_tenant k = t \<and> list_ex (links_to provider sub) (a_links a)) (is_accounts s))"

definition identity_GetPassword ::
  "context_err \<Rightarrow> subject \<Rightarrow> id_store \<Rightarrow> password_credential result \<times> id_store" where
  "identity_GetPassword ctx sub s =
     with_ctx ctx s
       (case identity_existing sub s of
          Ok a \<Rightarrow>
            (case a_password a of
               None \<Rightarrow> (Err [StoreErr ErrNotFound], s)
             | Some p \<Rightarrow>
                 (Ok \<lparr>pc_Subject = sub, pc_PHC = pw_phc p, pc_ChangedAt = pw_changedAt p,
                      pc_FailedAttempts = pw_failed p, pc_LockedUntil = pw_lockedUntil p\<rparr>, s))
        | Err e \<Rightarrow> (Err e, s) | Panic \<Rightarrow> (Panic, s))"

definition identity_FindFederated ::
  "context_err \<Rightarrow> federated_key \<Rightarrow> id_store \<Rightarrow> federated_link result \<times> id_store" where
  "identity_FindFederated ctx k s =
     with_ctx ctx s
       (case identity_linkOwner (fk_Tenant k) (fk_Provider k) (fk_ProviderSubject k) s of
          None \<Rightarrow> (Err [StoreErr ErrNotFound], s)
        | Some a \<Rightarrow>
            (if u_DeletedAt (a_user a) \<noteq> zero_time then (Err [StoreErr ErrNotFound], s)
             else (case find (links_to (fk_Provider k) (fk_ProviderSubject k)) (a_links a) of
                     Some l \<Rightarrow> (Ok l, s)
                   | None \<Rightarrow> (Err [StoreErr ErrNotFound], s))))"

definition identity_ListFederated ::
  "context_err \<Rightarrow> subject \<Rightarrow> id_store \<Rightarrow> federated_link list result \<times> id_store" where
  "identity_ListFederated ctx sub s =
     with_ctx ctx s
       (case identity_existing sub s of Ok a \<Rightarrow> (Ok (a_links a), s) | Err e \<Rightarrow> (Err e, s) | Panic \<Rightarrow> (Panic, s))"

definition identity_ListFederatedTo ::
  "context_err \<Rightarrow> tenant_id \<Rightarrow> string \<Rightarrow> id_store \<Rightarrow> federated_link list result \<times> id_store" where
  "identity_ListFederatedTo ctx t provider s =
     with_ctx ctx s
       (Ok (concat (map (\<lambda>(k, a).
              if s_tenant k \<noteq> t \<or> u_DeletedAt (a_user a) \<noteq> zero_time then []
              else filter (\<lambda>l. fi_Provider (fl_Identity l) = provider) (a_links a)) (is_accounts s))), s)"

definition identity_CurrentEpoch :: "context_err \<Rightarrow> subject \<Rightarrow> id_store \<Rightarrow> u64 result \<times> id_store" where
  "identity_CurrentEpoch ctx sub s =
     with_ctx ctx s
       (case identity_existing sub s of
          Ok a \<Rightarrow> (Ok (u_SecurityEpoch (a_user a)), s) | Err e \<Rightarrow> (Err e, s) | Panic \<Rightarrow> (Panic, s))"

text \<open>The loop of \<^verbatim>\<open>EpochsChangedSince\<close>, with the page collected so far.\<close>

fun epochs_page :: "nat \<Rightarrow> epoch_row list \<Rightarrow> epoch_change list \<Rightarrow> nat \<Rightarrow> epoch_change list \<times> nat" where
  "epochs_page c [] out last' = (out, last')"
| "epochs_page c (r # rs) out last' =
     (if er_seq r \<le> c then epochs_page c rs out last'
      else if length out = feedPage then (out, last')
      else epochs_page c rs (out @ [er_change r]) (er_seq r))"

definition identity_EpochsChangedSince ::
  "context_err \<Rightarrow> cursor \<Rightarrow> id_store \<Rightarrow> (epoch_change list \<times> cursor) result \<times> id_store" where
  "identity_EpochsChangedSince ctx c s =
     with_ctx ctx s
       (case epochs_page (position c) (is_epochs s) [] (position c) of (out, last') \<Rightarrow> (Ok (out, Cursor last'), s))"

section \<open>Lockout\<close>

definition checkPolicy :: "lockout_policy \<Rightarrow> unit result" where
  "checkPolicy p =
     (if lp_Threshold p \<le> 0 \<or> lp_Window p \<le> 0
      then Err (errors_Join [IdentityErr ErrInvalidMutation] (errors_New ''lockout threshold and window must be positive''))
      else Ok ())"

definition fail_decay :: "lockout_policy \<Rightarrow> instant \<Rightarrow> password \<Rightarrow> password" where
  "fail_decay p now pw =
     (if pw_lockedUntil pw \<noteq> zero_time \<and> \<not> pw_lockedUntil pw > now
      then pw\<lparr>pw_failed := 0, pw_lockedUntil := zero_time\<rparr>
      else if pw_lockedUntil pw = zero_time \<and> pw_lastFailure pw \<noteq> zero_time \<and>
              \<not> pw_lastFailure pw + lp_Window p > now
      then pw\<lparr>pw_failed := 0\<rparr>
      else pw)"

definition record_failure :: "lockout_policy \<Rightarrow> instant \<Rightarrow> password \<Rightarrow> lockout \<times> password" where
  "record_failure p now pw =
     (let pw = fail_decay p now pw;
          pw = pw\<lparr>pw_failed := pw_failed pw + 1, pw_lastFailure := now\<rparr>;
          just = (pw_lockedUntil pw = zero_time \<and> pw_failed pw \<ge> lp_Threshold p);
          pw = (if just then pw\<lparr>pw_lockedUntil := id_instant (now + lp_Window p)\<rparr> else pw)
      in (\<lparr>lk_FailedAttempts = pw_failed pw, lk_LockedUntil = pw_lockedUntil pw, lk_JustLocked = just\<rparr>, pw))"

definition put_account :: "subject \<Rightarrow> account \<Rightarrow> id_store \<Rightarrow> id_store" where
  "put_account sub a s = s\<lparr>is_accounts := AList.update sub a (is_accounts s)\<rparr>"

definition identity_RecordPasswordFailure ::
  "context_err \<Rightarrow> instant \<Rightarrow> subject \<Rightarrow> lockout_policy \<Rightarrow> id_store \<Rightarrow> lockout result \<times> id_store" where
  "identity_RecordPasswordFailure ctx clk sub p s =
     with_ctx ctx s
       (case checkPolicy p of
          Err e \<Rightarrow> (Err e, s) | Panic \<Rightarrow> (Panic, s)
        | Ok _ \<Rightarrow>
            (case identity_existing sub s of
               Err e \<Rightarrow> (Err e, s) | Panic \<Rightarrow> (Panic, s)
             | Ok a \<Rightarrow>
                 (case a_password a of
                    None \<Rightarrow> (Err [StoreErr ErrNotFound], s)
                  | Some pw \<Rightarrow>
                      (case record_failure p (identity_now clk) pw of
                         (l, pw') \<Rightarrow> (Ok l, put_account sub (a\<lparr>a_password := Some pw'\<rparr>) s)))))"

definition identity_ResetPasswordFailures :: "context_err \<Rightarrow> subject \<Rightarrow> id_store \<Rightarrow> unit result \<times> id_store" where
  "identity_ResetPasswordFailures ctx sub s =
     with_ctx ctx s
       (case identity_existing sub s of
          Err e \<Rightarrow> (Err e, s) | Panic \<Rightarrow> (Panic, s)
        | Ok a \<Rightarrow>
            (case a_password a of
               None \<Rightarrow> (Err [StoreErr ErrNotFound], s)
             | Some pw \<Rightarrow>
                 (Ok (), put_account sub (a\<lparr>a_password := Some
                     (pw\<lparr>pw_failed := 0, pw_lockedUntil := zero_time, pw_lastFailure := zero_time\<rparr>)\<rparr>) s)))"

section \<open>Outbox\<close>

fun due_rows :: "int \<Rightarrow> instant \<Rightarrow> outbox_row list \<Rightarrow> outbox_item list \<Rightarrow> outbox_item list" where
  "due_rows limit now [] out = out"
| "due_rows limit now (r # rs) out =
     (if int (length out) \<ge> limit then out
      else if or_done r = zero_time \<and> \<not> o_NextAttemptAt (or_item r) > now then due_rows limit now rs (out @ [or_item r])
      else due_rows limit now rs out)"

definition identity_PendingOutbox ::
  "context_err \<Rightarrow> instant \<Rightarrow> int \<Rightarrow> id_store \<Rightarrow> outbox_item list result \<times> id_store" where
  "identity_PendingOutbox ctx clk limit s =
     with_ctx ctx s (Ok (due_rows limit (identity_now clk) (is_outbox s) []), s)"

text \<open>\<^verbatim>\<open>row\<close> returns a pointer into the slice; here its index.\<close>

definition identity_row :: "int \<Rightarrow> id_store \<Rightarrow> nat option" where
  "identity_row i s =
     (let n = bsearch (\<lambda>r. o_ID (or_item r) < i) (is_outbox s) 0 (length (is_outbox s)) in
      if n < length (is_outbox s) \<and> o_ID (or_item (is_outbox s ! n)) = i then Some n else None)"

definition identity_AckOutbox :: "context_err \<Rightarrow> instant \<Rightarrow> int \<Rightarrow> id_store \<Rightarrow> unit result \<times> id_store" where
  "identity_AckOutbox ctx clk i s =
     with_ctx ctx s
       (case identity_row i s of
          None \<Rightarrow> (Err [StoreErr ErrNotFound], s)
        | Some n \<Rightarrow>
            (let r = is_outbox s ! n in
             if or_done r = zero_time
             then (Ok (), s\<lparr>is_outbox := (is_outbox s)[n := r\<lparr>or_done := identity_now clk\<rparr>]\<rparr>)
             else (Ok (), s)))"

definition identity_FailOutbox :: "context_err \<Rightarrow> int \<Rightarrow> instant \<Rightarrow> id_store \<Rightarrow> unit result \<times> id_store" where
  "identity_FailOutbox ctx i next' s =
     with_ctx ctx s
       (case identity_row i s of
          None \<Rightarrow> (Err [StoreErr ErrNotFound], s)
        | Some n \<Rightarrow>
            (let r = is_outbox s ! n; it = or_item r in
             if or_done r \<noteq> zero_time then (Ok (), s)
             else (Ok (), s\<lparr>is_outbox := (is_outbox s)
                [n := r\<lparr>or_item := it\<lparr>o_Attempts := o_Attempts it + 1, o_NextAttemptAt := id_instant next'\<rparr>\<rparr>]\<rparr>)))"

definition identity_EraseUser :: "context_err \<Rightarrow> subject \<Rightarrow> id_store \<Rightarrow> unit result \<times> id_store" where
  "identity_EraseUser ctx sub s =
     with_ctx ctx s
       (case identity_existing sub s of
          Err e \<Rightarrow> (Err e, s) | Panic \<Rightarrow> (Panic, s)
        | Ok a \<Rightarrow>
            (if u_DeletedAt (a_user a) = zero_time then (Err [IdentityErr ErrNotTombstoned], s)
             else if list_ex (\<lambda>r. o_Subject (or_item r) = sub \<and> or_done r = zero_time \<and>
                                  o_Component (or_item r) \<noteq> ComponentIdentity) (is_outbox s)
             then (Err (errors_Join [StoreErr ErrConflict]
                     (errors_New ''identity: an outbox row of the subject is not done'')), s)
             else (Ok (), s\<lparr>is_accounts := AList.delete sub (is_accounts s)\<rparr>)))"

end
