(* ===== verification/Identity_Apply.thy ===== *)
theory Identity_Apply
  imports Identity_Store
begin

text \<open>
  \<^verbatim>\<open>Apply\<close> of \<^verbatim>\<open>store/identity/memory/apply.go\<close>: a transaction that works on copies and commits at the end.
  \<open>cx n\<close> is the answer of \<^verbatim>\<open>ctx.Err()\<close> at place \<open>n\<close> of the call: 0 the entry, 1 the load, 2 the mutation, 3
  the epoch bump, 4 to 13 the outbox rows, 14 the commit. \<open>newid\<close> is what \<^verbatim>\<open>uuid.NewV7\<close> returns.
\<close>

section \<open>The transaction\<close>

type_synonym contexts = "nat \<Rightarrow> context_err"

record txn =
  tx_now :: instant
  tx_acc :: account
  tx_evicted :: "account option"
  tx_subject :: subject
  tx_epochs :: "epoch_row list"
  tx_outbox :: "outbox_row list"
  tx_epochSeq :: nat
  tx_outboxSeq :: int

definition reserved :: "mutation \<Rightarrow> unit result" where
  "reserved m =
     (let bad = Err (errors_Join [IdentityErr ErrInvalidMutation] [PkgErr ''memory.errReservedProvider'']) in
      case m of
        LinkFederated _ f _ \<Rightarrow> if fi_Provider f = passwordProvider then bad else Ok ()
      | CreateVerified _ _ _ _ f \<Rightarrow> if fi_Provider f = passwordProvider then bad else Ok ()
      | UnlinkFederated _ p _ _ \<Rightarrow> if p = passwordProvider then bad else Ok ()
      | _ \<Rightarrow> Ok ())"

definition subjectOf :: "mutation \<Rightarrow> subject" where
  "subjectOf m = (case m of CreateVerified _ _ _ _ _ \<Rightarrow> zero_subject | _ \<Rightarrow> m_Subject m)"

definition tx_step :: "contexts \<Rightarrow> nat \<Rightarrow> 'a result \<Rightarrow> 'a result" where
  "tx_step cx n r = (case cx n of Some e \<Rightarrow> Err e | None \<Rightarrow> r)"

definition tx_begin :: "instant \<Rightarrow> subject \<Rightarrow> account \<Rightarrow> id_store \<Rightarrow> txn" where
  "tx_begin now sub a s =
     \<lparr>tx_now = now, tx_acc = a, tx_evicted = None, tx_subject = sub, tx_epochs = [], tx_outbox = [],
      tx_epochSeq = is_epochSeq s, tx_outboxSeq = is_outboxSeq s\<rparr>"

definition tx_load :: "contexts \<Rightarrow> instant \<Rightarrow> subject \<Rightarrow> id_store \<Rightarrow> txn result" where
  "tx_load cx now sub s =
     tx_step cx 1
       (case map_of (is_accounts s) sub of
          None \<Rightarrow> Err [StoreErr ErrNotFound]
        | Some a \<Rightarrow>
            (if u_DeletedAt (a_user a) \<noteq> zero_time then Err [IdentityErr ErrTombstoned]
             else Ok (tx_begin now sub a s)))"

definition verifiedAt :: "ident \<Rightarrow> instant \<Rightarrow> instant" where
  "verifiedAt i now = (if identifier_IsZero i then zero_time else now)"

text \<open>\<^verbatim>\<open>slices.IndexFunc\<close>, None for -1.\<close>

fun index_of :: "('a \<Rightarrow> bool) \<Rightarrow> 'a list \<Rightarrow> nat option" where
  "index_of P [] = None"
| "index_of P (x # xs) = (if P x then Some 0 else map_option Suc (index_of P xs))"

definition delete_at :: "nat \<Rightarrow> 'a list \<Rightarrow> 'a list" where
  "delete_at i xs = take i xs @ drop (i + 1) xs"

definition tx_rebind :: "federated_identity \<Rightarrow> txn \<Rightarrow> txn result" where
  "tx_rebind f tx =
     (let links = a_links (tx_acc tx);
          refused = Err (errors_Join [StoreErr ErrConflict]
            (errors_New ''identity: provider account already linked to this subject''))
      in case index_of (links_to (fi_Provider f) (fi_ProviderSubject f)) links of
           None \<Rightarrow> refused
         | Some i \<Rightarrow>
             (if fi_Authority (fl_Identity (links ! i)) = fi_Authority f then refused
              else Ok (tx\<lparr>tx_acc := (tx_acc tx)\<lparr>a_links :=
                     links[i := \<lparr>fl_Subject = tx_subject tx, fl_Identity = f, fl_LinkedAt = tx_now tx\<rparr>]\<rparr>\<rparr>)))"

definition tx_append_link :: "federated_identity \<Rightarrow> txn \<Rightarrow> txn" where
  "tx_append_link f tx =
     tx\<lparr>tx_acc := (tx_acc tx)\<lparr>a_links := a_links (tx_acc tx) @
        [\<lparr>fl_Subject = tx_subject tx, fl_Identity = f, fl_LinkedAt = tx_now tx\<rparr>]\<rparr>\<rparr>"

definition tx_link :: "federated_identity \<Rightarrow> id_store \<Rightarrow> txn \<Rightarrow> txn result" where
  "tx_link f s tx =
     (case identity_linkOwner (s_tenant (tx_subject tx)) (fi_Provider f) (fi_ProviderSubject f) s of
        None \<Rightarrow> Ok (tx_append_link f tx)
      | Some owner \<Rightarrow>
          (if u_Subject (a_user owner) = tx_subject tx then tx_rebind f tx
           else if u_DeletedAt (a_user owner) = zero_time then Err [IdentityErr ErrIdentifierTaken]
           else Ok (tx_append_link f (tx\<lparr>tx_evicted := Some (owner\<lparr>a_links :=
                  filter (\<lambda>l. \<not> links_to (fi_Provider f) (fi_ProviderSubject f) l) (a_links owner)\<rparr>)\<rparr>))))"

definition new_user :: "subject \<Rightarrow> ident \<Rightarrow> instant \<Rightarrow> user" where
  "new_user sub email now =
     \<lparr>u_Subject = sub, u_Email = email, u_EmailVerifiedAt = now, u_Phone = zero_identifier,
      u_PhoneVerifiedAt = zero_time, u_RecoveryEmail = zero_identifier, u_RecoveryEmailVerifiedAt = zero_time,
      u_DisabledAt = zero_time, u_DeletedAt = zero_time, u_MustChange = False, u_SecurityEpoch = 0, u_CreatedAt = now\<rparr>"

definition tx_create ::
  "contexts \<Rightarrow> instant \<Rightarrow> uuid result \<Rightarrow> tenant_id \<Rightarrow> ident \<Rightarrow> password_hash \<Rightarrow> bool \<Rightarrow> federated_identity \<Rightarrow>
   id_store \<Rightarrow> txn result" where
  "tx_create cx now newid t email phc mustChange fed s =
     tx_step cx 1
       (if identity_owner t email uuid_Nil s \<noteq> None then Err [IdentityErr ErrIdentifierTaken]
        else (case newid of
                Panic \<Rightarrow> Panic
              | Err e \<Rightarrow> Err (errors_Join (errors_New ''identity: user id'') e)
              | Ok i \<Rightarrow>
                  (let sub = \<lparr>s_tenant = t, s_user = i\<rparr>;
                       acc = \<lparr>a_user = new_user sub email now,
                              a_password = (if \<not> hash_IsZero phc then Some (new_password phc now mustChange) else None),
                              a_links = []\<rparr>;
                       tx = tx_begin now sub acc s
                   in tx_step cx 2 (if fed \<noteq> zero_federated then tx_link fed s tx else Ok tx))))"

definition upd_user :: "(user \<Rightarrow> user) \<Rightarrow> txn \<Rightarrow> txn" where
  "upd_user f tx = tx\<lparr>tx_acc := (tx_acc tx)\<lparr>a_user := f (a_user (tx_acc tx))\<rparr>\<rparr>"

definition set_pw :: "password option \<Rightarrow> txn \<Rightarrow> txn" where
  "set_pw p tx = tx\<lparr>tx_acc := (tx_acc tx)\<lparr>a_password := p\<rparr>\<rparr>"

text \<open>The switch of \<^verbatim>\<open>mutate\<close> on the loaded account: the identifier replaced and the changed transaction.\<close>

definition tx_change :: "mutation \<Rightarrow> id_store \<Rightarrow> txn \<Rightarrow> (ident \<times> txn) result" where
  "tx_change m s tx =
     (let a = tx_acc tx; now = tx_now tx; sub = tx_subject tx; none = zero_identifier in
      case m of
        SetPassword _ phc reason _ \<Rightarrow> Ok (none, set_pw (Some (new_password phc now (ForcesChange reason))) tx)
      | MarkEmailVerified _ phc \<Rightarrow>
          (if u_EmailVerifiedAt (a_user a) \<noteq> zero_time
           then Err (errors_Join [StoreErr ErrConflict] (errors_New ''identity: email is already verified''))
           else Ok (none, tx\<lparr>tx_acc := a\<lparr>a_user := (a_user a)\<lparr>u_EmailVerifiedAt := now\<rparr>, a_links := [],
                  a_password := (if \<not> hash_IsZero phc then Some (new_password phc now False) else None)\<rparr>\<rparr>))
      | ChangeEmail _ e \<Rightarrow>
          (if identity_owner (s_tenant sub) e (s_user sub) s \<noteq> None then Err [IdentityErr ErrIdentifierTaken]
           else Ok (u_Email (a_user a), upd_user (\<lambda>u. u\<lparr>u_Email := e, u_EmailVerifiedAt := now\<rparr>) tx))
      | SetPhone _ p \<Rightarrow>
          (if \<not> identifier_IsZero p \<and> identity_owner (s_tenant sub) p (s_user sub) s \<noteq> None
           then Err [IdentityErr ErrIdentifierTaken]
           else Ok (u_Phone (a_user a), upd_user (\<lambda>u. u\<lparr>u_Phone := p, u_PhoneVerifiedAt := verifiedAt p now\<rparr>) tx))
      | SetRecoveryEmail _ e \<Rightarrow>
          Ok (u_RecoveryEmail (a_user a),
              upd_user (\<lambda>u. u\<lparr>u_RecoveryEmail := e, u_RecoveryEmailVerifiedAt := verifiedAt e now\<rparr>) tx)
      | SetDisabledState _ disable \<Rightarrow>
          Ok (none, upd_user (\<lambda>u. if \<not> disable then u\<lparr>u_DisabledAt := zero_time\<rparr>
                                 else if u_DisabledAt u = zero_time then u\<lparr>u_DisabledAt := now\<rparr> else u) tx)
      | SetMustChange _ must \<Rightarrow>
          (case a_password a of
             None \<Rightarrow> (if must then Err (errors_Join [IdentityErr ErrInvalidMutation] (errors_New ''must change requires a password''))
                      else Ok (none, tx))
           | Some p \<Rightarrow> Ok (none, set_pw (Some (p\<lparr>pw_mustChange := must\<rparr>)) tx))
      | Tombstone _ \<Rightarrow> Ok (none, upd_user (\<lambda>u. u\<lparr>u_DeletedAt := now\<rparr>) tx)
      | BumpEpoch _ _ _ \<Rightarrow> Ok (none, tx)
      | CreateVerified _ _ _ _ _ \<Rightarrow> Ok (none, tx)
      | LinkFederated _ f _ \<Rightarrow> result_bind (tx_link f s tx) (\<lambda>tx. Ok (none, tx))
      | UnlinkFederated _ provider psub _ \<Rightarrow>
          (case index_of (links_to provider psub) (a_links a) of
             None \<Rightarrow> Err [StoreErr ErrNotFound]
           | Some i \<Rightarrow> Ok (none, tx\<lparr>tx_acc := a\<lparr>a_links := delete_at i (a_links a)\<rparr>\<rparr>)))"

definition tx_mutate :: "contexts \<Rightarrow> instant \<Rightarrow> uuid result \<Rightarrow> mutation \<Rightarrow> id_store \<Rightarrow> (ident \<times> txn) result" where
  "tx_mutate cx now newid m s =
     (case m of
        CreateVerified t email phc must fed \<Rightarrow>
          result_bind (tx_create cx now newid t email phc must fed s) (\<lambda>tx. Ok (zero_identifier, tx))
      | _ \<Rightarrow> result_bind (tx_load cx now (subjectOf m) s) (\<lambda>tx. tx_step cx 2 (tx_change m s tx)))"

definition tx_bump :: "lifecycle_event \<Rightarrow> txn \<Rightarrow> txn" where
  "tx_bump ev tx =
     (let e = u_SecurityEpoch (a_user (tx_acc tx)) + 1; q = tx_epochSeq tx + 1 in
      (upd_user (\<lambda>u. u\<lparr>u_SecurityEpoch := e\<rparr>) tx)\<lparr>tx_epochSeq := q,
        tx_epochs := tx_epochs tx @
          [\<lparr>er_seq = q, er_change = \<lparr>ec_Subject = tx_subject tx, ec_NewEpoch = e, ec_Reason = ev\<rparr>, er_at = tx_now tx\<rparr>]\<rparr>)"

text \<open>The loop over the outbox rows; \<open>n\<close> numbers the next context question, \<open>done\<close> collects the numbered items.\<close>

fun tx_queue :: "contexts \<Rightarrow> nat \<Rightarrow> outbox_item list \<Rightarrow> outbox_item list \<Rightarrow> txn \<Rightarrow> (outbox_item list \<times> txn) result" where
  "tx_queue cx n [] items tx = Ok (items, tx)"
| "tx_queue cx n (it # rest) items tx =
     tx_step cx n
       (let q = tx_outboxSeq tx + 1;
            it' = it\<lparr>o_ID := q, o_NextAttemptAt := tx_now tx, o_CreatedAt := tx_now tx\<rparr>
        in tx_queue cx (n + 1) rest (items @ [it'])
             (tx\<lparr>tx_outboxSeq := q, tx_outbox := tx_outbox tx @ [\<lparr>or_item = it', or_done = zero_time\<rparr>]\<rparr>))"

definition tx_effects :: "contexts \<Rightarrow> mutation \<Rightarrow> ident \<Rightarrow> txn \<Rightarrow> (applied \<times> txn) result" where
  "tx_effects cx m old tx =
     (let fx = EffectsOf m in
      result_bind (if ef_BumpsEpoch fx then tx_step cx 3 (Ok (tx_bump (ef_Event fx) tx)) else Ok tx)
        (\<lambda>tx. result_bind (tx_queue cx 4 (OutboxFor m (tx_subject tx) old) [] tx)
          (\<lambda>(items, tx). Ok (\<lparr>ap_Subject = tx_subject tx, ap_NewEpoch = u_SecurityEpoch (a_user (tx_acc tx)),
                              ap_Outbox = items\<rparr>, tx))))"

definition tx_commit :: "txn \<Rightarrow> id_store \<Rightarrow> id_store" where
  "tx_commit tx s =
     (let accounts = AList.update (tx_subject tx) (tx_acc tx) (is_accounts s) in
      s\<lparr>is_accounts := (case tx_evicted tx of
            None \<Rightarrow> accounts | Some e \<Rightarrow> AList.update (u_Subject (a_user e)) e accounts),
        is_epochs := is_epochs s @ tx_epochs tx,
        is_outbox := is_outbox s @ tx_outbox tx,
        is_epochSeq := tx_epochSeq tx,
        is_outboxSeq := tx_outboxSeq tx\<rparr>)"

definition identity_Apply ::
  "contexts \<Rightarrow> instant \<Rightarrow> uuid result \<Rightarrow> mutation \<Rightarrow> id_store \<Rightarrow> applied result \<times> id_store" where
  "identity_Apply cx clk newid m s =
     (let r = tx_step cx 0
        (result_bind (identity_Validate m) (\<lambda>_.
         result_bind (reserved m) (\<lambda>_.
         result_bind (tx_mutate cx (identity_now clk) newid m s) (\<lambda>(old, tx).
         result_bind (tx_effects cx m old tx) (\<lambda>(ap, tx).
         tx_step cx 14 (Ok (ap, tx)))))))
      in case r of
           Ok (ap, tx) \<Rightarrow> (Ok ap, tx_commit tx s)
         | Err e \<Rightarrow> (Err e, s)
         | Panic \<Rightarrow> (Panic, s))"

end
