(* ===== verification/Identity_Laws.thy ===== *)
theory Identity_Laws
  imports Identity_Apply
begin

text \<open>
  Laws of the account store: what a committed transaction changed, and the invariant of the tables.
\<close>

section \<open>The invariant\<close>

definition acct_live :: "account \<Rightarrow> bool" where
  "acct_live a \<longleftrightarrow> u_DeletedAt (a_user a) = zero_time"

definition link_keys :: "account \<Rightarrow> (string \<times> string) list" where
  "link_keys a = map (\<lambda>l. (fi_Provider (fl_Identity l), fi_ProviderSubject (fl_Identity l))) (a_links a)"

definition acct_ok :: "subject \<Rightarrow> account \<Rightarrow> bool" where
  "acct_ok k a \<longleftrightarrow>
     u_Subject (a_user a) = k \<and> s_user k \<noteq> uuid_Nil \<and> i_kind (u_Email (a_user a)) = IdentifierEmail \<and>
     (identifier_IsZero (u_Phone (a_user a)) \<or> i_kind (u_Phone (a_user a)) = IdentifierPhone) \<and>
     distinct (link_keys a)"

text \<open>Two accounts of a tenant: live ones share no email and no phone, and no two share a provider account.\<close>

definition acct_compat :: "account \<Rightarrow> account \<Rightarrow> bool" where
  "acct_compat a b \<longleftrightarrow>
     (acct_live a \<and> acct_live b \<longrightarrow>
        u_Email (a_user a) \<noteq> u_Email (a_user b) \<and>
        (u_Phone (a_user a) = u_Phone (a_user b) \<longrightarrow> identifier_IsZero (u_Phone (a_user a)))) \<and>
     set (link_keys a) \<inter> set (link_keys b) = {}"

definition accounts_ok :: "(subject \<rightharpoonup> account) \<Rightarrow> bool" where
  "accounts_ok m \<longleftrightarrow>
     (\<forall>k a. m k = Some a \<longrightarrow> acct_ok k a) \<and>
     (\<forall>k a k' b. m k = Some a \<longrightarrow> m k' = Some b \<longrightarrow> k \<noteq> k' \<longrightarrow> s_tenant k = s_tenant k' \<longrightarrow> acct_compat a b)"

definition log_ok :: "nat \<Rightarrow> epoch_row list \<Rightarrow> bool" where
  "log_ok n es \<longleftrightarrow> sorted_wrt (<) (map er_seq es) \<and> (\<forall>r \<in> set es. 0 < er_seq r \<and> er_seq r \<le> n)"

definition outbox_ok :: "int \<Rightarrow> outbox_row list \<Rightarrow> bool" where
  "outbox_ok n os \<longleftrightarrow>
     sorted_wrt (<) (map (\<lambda>r. o_ID (or_item r)) os) \<and> (\<forall>r \<in> set os. 0 < o_ID (or_item r) \<and> o_ID (or_item r) \<le> n)"

definition id_inv :: "id_store \<Rightarrow> bool" where
  "id_inv s \<longleftrightarrow>
     wf_map (is_accounts s) \<and> accounts_ok (map_of (is_accounts s)) \<and>
     log_ok (is_epochSeq s) (is_epochs s) \<and> 0 \<le> is_outboxSeq s \<and> outbox_ok (is_outboxSeq s) (is_outbox s)"

lemma compat_sym: "acct_compat a b \<Longrightarrow> acct_compat b a"
  by (auto simp: acct_compat_def)

lemma id_inv_New: "id_inv identity_New"
  by (simp add: id_inv_def identity_New_def accounts_ok_def log_ok_def outbox_ok_def)

lemma accounts_ok_update:
  assumes "accounts_ok m" "acct_ok k a"
    and "\<And>k' b. m k' = Some b \<Longrightarrow> k' \<noteq> k \<Longrightarrow> s_tenant k' = s_tenant k \<Longrightarrow> acct_compat a b"
  shows "accounts_ok (m(k \<mapsto> a))"
  using assms compat_sym unfolding accounts_ok_def by (auto split: if_splits)

lemma accounts_ok_restrict:
  assumes "accounts_ok m" "\<And>k a. m' k = Some a \<Longrightarrow> m k = Some a"
  shows "accounts_ok m'"
  using assms unfolding accounts_ok_def by blast

text \<open>An account that keeps its identifiers and gains no link stays compatible.\<close>

definition narrower :: "account \<Rightarrow> account \<Rightarrow> bool" where
  "narrower a b \<longleftrightarrow>
     (acct_live b \<longrightarrow> acct_live a \<and> u_Email (a_user b) = u_Email (a_user a) \<and> u_Phone (a_user b) = u_Phone (a_user a)) \<and>
     set (link_keys b) \<subseteq> set (link_keys a)"

lemma compat_narrower: "acct_compat a c \<Longrightarrow> narrower a b \<Longrightarrow> acct_compat b c"
  by (auto simp: acct_compat_def narrower_def)

lemma IsZero_zero [simp]: "identifier_IsZero zero_identifier"
  by (simp add: identifier_IsZero_def zero_identifier_def)

section \<open>What the transaction steps return\<close>

lemma tx_step_Ok [simp]: "tx_step cx n r = Ok y \<longleftrightarrow> cx n = None \<and> r = Ok y"
  by (auto simp: tx_step_def split: option.splits)

lemma Apply_Ok:
  assumes "identity_Apply cx clk newid m s = (Ok ap, s')"
  obtains old tx tx' where "mutation_validate m = Ok ()" "reserved m = Ok ()"
    "tx_mutate cx (identity_now clk) newid m s = Ok (old, tx)" "tx_effects cx m old tx = Ok (ap, tx')"
    "s' = tx_commit tx' s"
proof -
  obtain tx' where r: "tx_step cx 0
        (result_bind (identity_Validate m) (\<lambda>_.
         result_bind (reserved m) (\<lambda>_.
         result_bind (tx_mutate cx (identity_now clk) newid m s) (\<lambda>(old, tx).
         result_bind (tx_effects cx m old tx) (\<lambda>(ap, tx).
         tx_step cx 14 (Ok (ap, tx))))))) = Ok (ap, tx')" and s': "s' = tx_commit tx' s"
    using assms unfolding identity_Apply_def Let_def by (auto split: result.splits prod.splits)
  from r obtain old tx where "identity_Validate m = Ok ()" "reserved m = Ok ()"
    "tx_mutate cx (identity_now clk) newid m s = Ok (old, tx)" "tx_effects cx m old tx = Ok (ap, tx')"
    by (auto split: prod.splits)
  moreover from this(1) have "mutation_validate m = Ok ()"
    by (simp add: identity_Validate_def split: result.splits)
  ultimately show thesis using that s' by blast
qed

lemma Apply_fails: "identity_Apply cx clk newid m s = (Err e, s') \<Longrightarrow> s' = s"
  by (auto simp: identity_Apply_def Let_def split: result.splits prod.splits)

text \<open>The outbox rows with their numbers and times.\<close>

fun numbered :: "int \<Rightarrow> instant \<Rightarrow> outbox_item list \<Rightarrow> outbox_item list" where
  "numbered q now [] = []"
| "numbered q now (it # its) =
     it\<lparr>o_ID := q + 1, o_NextAttemptAt := now, o_CreatedAt := now\<rparr> # numbered (q + 1) now its"

lemma length_numbered [simp]: "length (numbered q now its) = length its"
  by (induction its arbitrary: q) simp_all

abbreviation fresh_row :: "outbox_item \<Rightarrow> outbox_row" where
  "fresh_row it \<equiv> \<lparr>or_item = it, or_done = zero_time\<rparr>"

lemma tx_queue_Ok:
  "tx_queue cx n its items tx = Ok (items', tx') \<Longrightarrow>
     items' = items @ numbered (tx_outboxSeq tx) (tx_now tx) its \<and>
     tx' = tx\<lparr>tx_outboxSeq := tx_outboxSeq tx + int (length its),
              tx_outbox := tx_outbox tx @ map fresh_row (numbered (tx_outboxSeq tx) (tx_now tx) its)\<rparr>"
proof (induction its arbitrary: n items tx)
  case (Cons it its)
  then show ?case by (fastforce simp: Let_def)
qed simp

definition bumped :: "mutation \<Rightarrow> txn \<Rightarrow> txn" where
  "bumped m tx = (if ef_BumpsEpoch (EffectsOf m) then tx_bump (ef_Event (EffectsOf m)) tx else tx)"

lemma tx_bump_simps [simp]:
  "tx_now (tx_bump ev tx) = tx_now tx" "tx_subject (tx_bump ev tx) = tx_subject tx"
  "tx_evicted (tx_bump ev tx) = tx_evicted tx" "tx_outbox (tx_bump ev tx) = tx_outbox tx"
  "tx_outboxSeq (tx_bump ev tx) = tx_outboxSeq tx" "tx_epochSeq (tx_bump ev tx) = tx_epochSeq tx + 1"
  "tx_acc (tx_bump ev tx) =
     (tx_acc tx)\<lparr>a_user := (a_user (tx_acc tx))\<lparr>u_SecurityEpoch := u_SecurityEpoch (a_user (tx_acc tx)) + 1\<rparr>\<rparr>"
  by (simp_all add: tx_bump_def upd_user_def Let_def)

lemma bumped_simps [simp]:
  "tx_now (bumped m tx) = tx_now tx" "tx_subject (bumped m tx) = tx_subject tx"
  "tx_evicted (bumped m tx) = tx_evicted tx" "tx_outbox (bumped m tx) = tx_outbox tx"
  "tx_outboxSeq (bumped m tx) = tx_outboxSeq tx"
  by (simp_all add: bumped_def)

lemma tx_effects_Ok:
  assumes "tx_effects cx m old tx = Ok (ap, tx')"
  defines "items \<equiv> numbered (tx_outboxSeq tx) (tx_now tx) (OutboxFor m (tx_subject tx) old)"
  shows "tx' = (bumped m tx)\<lparr>tx_outboxSeq := tx_outboxSeq tx + int (length items),
                             tx_outbox := tx_outbox tx @ map fresh_row items\<rparr> \<and>
    ap = \<lparr>ap_Subject = tx_subject tx, ap_NewEpoch = u_SecurityEpoch (a_user (tx_acc (bumped m tx))), ap_Outbox = items\<rparr>"
proof -
  obtain its where q: "tx_queue cx 4 (OutboxFor m (tx_subject tx) old) [] (bumped m tx) = Ok (its, tx')"
    and ap: "ap = \<lparr>ap_Subject = tx_subject tx', ap_NewEpoch = u_SecurityEpoch (a_user (tx_acc tx')), ap_Outbox = its\<rparr>"
    using assms(1) unfolding tx_effects_def Let_def
    by (auto simp: bumped_def split: if_splits prod.splits)
  from tx_queue_Ok [OF q] ap show ?thesis by (simp add: items_def)
qed

section \<open>What a mutation did to the account\<close>

lemma find_None: "find P xs = None \<longleftrightarrow> (\<forall>x \<in> set xs. \<not> P x)"
  by (induction xs) auto

lemma find_SomeD: "find P xs = Some x \<Longrightarrow> x \<in> set xs \<and> P x"
  by (induction xs) (auto split: if_splits)

lemma owner_None:
  "identity_owner t i ex s = None \<Longrightarrow> map_of (is_accounts s) k = Some a \<Longrightarrow> \<not> owns t i ex k a"
  by (auto simp: identity_owner_def find_None dest: map_of_SomeD)

lemma linkOwner_None:
  "identity_linkOwner t p q s = None \<Longrightarrow> map_of (is_accounts s) k = Some a \<Longrightarrow> s_tenant k = t \<Longrightarrow>
   (p, q) \<notin> set (link_keys a)"
  by (force simp: identity_linkOwner_def find_None link_keys_def links_to_def list_ex_iff dest: map_of_SomeD)

lemma linkOwner_Some:
  assumes "identity_linkOwner t p q s = Some a" "wf_map (is_accounts s)"
  obtains k where "map_of (is_accounts s) k = Some a" "s_tenant k = t" "(p, q) \<in> set (link_keys a)"
proof -
  from assms(1) obtain k where "(k, a) \<in> set (is_accounts s)" "s_tenant k = t" "list_ex (links_to p q) (a_links a)"
    by (auto simp: identity_linkOwner_def dest: find_SomeD)
  then show thesis
    using that map_of_is_SomeI [OF assms(2)] by (force simp: list_ex_iff links_to_def link_keys_def)
qed

lemma index_of_Some: "index_of P xs = Some i \<Longrightarrow> i < length xs \<and> P (xs ! i)"
  by (induction xs arbitrary: i) (auto split: if_splits)

lemma link_keys_rebind:
  assumes "index_of (links_to (fi_Provider f) (fi_ProviderSubject f)) (a_links a) = Some i"
  shows "link_keys (a\<lparr>a_links := (a_links a)[i := \<lparr>fl_Subject = sub, fl_Identity = f, fl_LinkedAt = t\<rparr>]\<rparr>) = link_keys a"
  using index_of_Some [OF assms]
  by (auto simp: link_keys_def map_update links_to_def list_update_same_conv intro!: list_update_id)

definition tables :: "id_store \<Rightarrow> txn \<Rightarrow> subject \<rightharpoonup> account" where
  "tables s tx =
     (case tx_evicted tx of None \<Rightarrow> map_of (is_accounts s)
      | Some e \<Rightarrow> (map_of (is_accounts s))(u_Subject (a_user e) \<mapsto> e))"

text \<open>\<open>evicts\<close>: the transaction strips a link from a tombstoned account of another subject, and no more.\<close>

definition evicts :: "id_store \<Rightarrow> txn \<Rightarrow> bool" where
  "evicts s tx \<longleftrightarrow>
     (\<forall>e. tx_evicted tx = Some e \<longrightarrow>
        (\<exists>k a. k \<noteq> tx_subject tx \<and> map_of (is_accounts s) k = Some a \<and> u_Subject (a_user e) = k \<and> \<not> acct_live a \<and>
             (\<exists>links. e = a\<lparr>a_links := links\<rparr> \<and> (\<exists>P. links = filter P (a_links a)))))"

definition tx_fits :: "id_store \<Rightarrow> txn \<Rightarrow> bool" where
  "tx_fits s tx \<longleftrightarrow>
     acct_ok (tx_subject tx) (tx_acc tx) \<and> evicts s tx \<and>
     (\<forall>k b. tables s tx k = Some b \<longrightarrow> k \<noteq> tx_subject tx \<longrightarrow> s_tenant k = s_tenant (tx_subject tx) \<longrightarrow>
        acct_compat (tx_acc tx) b)"

definition tx_clean :: "instant \<Rightarrow> id_store \<Rightarrow> txn \<Rightarrow> bool" where
  "tx_clean now s tx \<longleftrightarrow>
     tx_now tx = now \<and> tx_epochs tx = [] \<and> tx_outbox tx = [] \<and> tx_epochSeq tx = is_epochSeq s \<and>
     tx_outboxSeq tx = is_outboxSeq s \<and>
     u_SecurityEpoch (a_user (tx_acc tx)) =
       (case map_of (is_accounts s) (tx_subject tx) of None \<Rightarrow> 0 | Some a \<Rightarrow> u_SecurityEpoch (a_user a))"

lemma append_link_keys [simp]:
  "link_keys (tx_acc (tx_append_link f tx)) = link_keys (tx_acc tx) @ [(fi_Provider f, fi_ProviderSubject f)]"
  by (simp add: tx_append_link_def link_keys_def)

lemma append_link_simps [simp]:
  "tx_subject (tx_append_link f tx) = tx_subject tx" "tx_evicted (tx_append_link f tx) = tx_evicted tx"
  "a_user (tx_acc (tx_append_link f tx)) = a_user (tx_acc tx)" "tx_now (tx_append_link f tx) = tx_now tx"
  "tx_epochs (tx_append_link f tx) = tx_epochs tx" "tx_outbox (tx_append_link f tx) = tx_outbox tx"
  "tx_epochSeq (tx_append_link f tx) = tx_epochSeq tx" "tx_outboxSeq (tx_append_link f tx) = tx_outboxSeq tx"
  by (simp_all add: tx_append_link_def)

lemma tx_link_clean: "tx_link f s tx = Ok tx' \<Longrightarrow> tx_clean now s tx \<Longrightarrow> tx_clean now s tx'"
  by (auto simp: tx_link_def tx_rebind_def tx_clean_def Let_def split: option.splits if_splits)

lemma tx_link_subject: "tx_link f s tx = Ok tx' \<Longrightarrow> tx_subject tx' = tx_subject tx \<and> a_user (tx_acc tx') = a_user (tx_acc tx)"
  by (auto simp: tx_link_def tx_rebind_def Let_def split: option.splits if_splits)

lemma tx_link_fits:
  assumes inv: "id_inv s" and fits: "tx_fits s tx" and none: "tx_evicted tx = None"
    and own: "\<And>x. x \<in> set (link_keys (tx_acc tx)) \<Longrightarrow>
      \<exists>a. map_of (is_accounts s) (tx_subject tx) = Some a \<and> x \<in> set (link_keys a)"
    and ok: "tx_link f s tx = Ok tx'"
  shows "tx_fits s tx'"
proof -
  let ?key = "(fi_Provider f, fi_ProviderSubject f)" and ?M = "map_of (is_accounts s)"
  have wf: "wf_map (is_accounts s)" and M: "accounts_ok ?M" using inv by (auto simp: id_inv_def)
  have acc: "acct_ok (tx_subject tx) (tx_acc tx)" using fits by (simp add: tx_fits_def)
  have comp: "acct_compat (tx_acc tx) b" if "?M k = Some b" "k \<noteq> tx_subject tx" "s_tenant k = s_tenant (tx_subject tx)" for k b
    using fits none that by (simp add: tx_fits_def tables_def)
  consider (free) "identity_linkOwner (s_tenant (tx_subject tx)) (fi_Provider f) (fi_ProviderSubject f) s = None"
      "tx' = tx_append_link f tx"
    | (mine) i where "index_of (links_to (fi_Provider f) (fi_ProviderSubject f)) (a_links (tx_acc tx)) = Some i"
      "tx' = tx\<lparr>tx_acc := (tx_acc tx)\<lparr>a_links := (a_links (tx_acc tx))[i :=
         \<lparr>fl_Subject = tx_subject tx, fl_Identity = f, fl_LinkedAt = tx_now tx\<rparr>]\<rparr>\<rparr>"
    | (dead) a where "identity_linkOwner (s_tenant (tx_subject tx)) (fi_Provider f) (fi_ProviderSubject f) s = Some a"
      "u_Subject (a_user a) \<noteq> tx_subject tx" "\<not> acct_live a"
      "tx' = tx_append_link f (tx\<lparr>tx_evicted := Some (a\<lparr>a_links :=
         filter (\<lambda>l. \<not> links_to (fi_Provider f) (fi_ProviderSubject f) l) (a_links a)\<rparr>)\<rparr>)"
    using ok by (auto simp: tx_link_def tx_rebind_def acct_live_def Let_def split: option.splits if_splits)
  then show ?thesis
  proof cases
    case free
    have "?key \<notin> set (link_keys (tx_acc tx))" using own linkOwner_None [OF free(1)] by blast
    moreover have "acct_compat (tx_acc tx') b"
      if "?M k = Some b" "k \<noteq> tx_subject tx" "s_tenant k = s_tenant (tx_subject tx)" for k b
      using comp [OF that] linkOwner_None [OF free(1) that(1)] that(3) free(2) by (auto simp: acct_compat_def acct_live_def)
    ultimately show ?thesis
      using acc none free(2) by (auto simp: tx_fits_def acct_ok_def evicts_def tables_def)
  next
    case mine
    then show ?thesis using fits none link_keys_rebind [OF mine(1)]
      by (auto simp: tx_fits_def acct_ok_def evicts_def tables_def acct_compat_def acct_live_def)
  next
    case dead
    from linkOwner_Some [OF dead(1) wf] obtain k where
      k: "?M k = Some a" "s_tenant k = s_tenant (tx_subject tx)" "?key \<in> set (link_keys a)" .
    have ka: "u_Subject (a_user a) = k" "acct_ok k a" using M k(1) by (auto simp: accounts_ok_def acct_ok_def)
    let ?e = "a\<lparr>a_links := filter (\<lambda>l. \<not> links_to (fi_Provider f) (fi_ProviderSubject f) l) (a_links a)\<rparr>"
    have e: "set (link_keys ?e) = set (link_keys a) - {?key}" by (auto simp: link_keys_def links_to_def)
    have "?key \<notin> set (link_keys (tx_acc tx))"
      using comp [OF k(1)] ka dead(2) k(2,3) by (auto simp: acct_compat_def)
    moreover have "acct_compat (tx_acc tx') b"
      if b: "(?M(k \<mapsto> ?e)) k' = Some b" "k' \<noteq> tx_subject tx" "s_tenant k' = s_tenant (tx_subject tx)" for k' b
    proof (cases "k' = k")
      case True
      then show ?thesis using b e comp [OF k(1)] dead(2,4) k(2) ka by (auto simp: acct_compat_def acct_live_def)
    next
      case False
      then have "?M k' = Some b" using b(1) by simp
      moreover from this False k M b(3) have "acct_compat a b" by (auto simp: accounts_ok_def)
      ultimately show ?thesis
        using comp [OF _ b(2,3)] k(3) dead(4) by (auto simp: acct_compat_def acct_live_def)
    qed
    ultimately show ?thesis
      using acc k ka dead(2,3,4) by (auto simp: tx_fits_def acct_ok_def evicts_def tables_def)
  qed
qed

lemma tx_begin_fits:
  assumes "id_inv s" "map_of (is_accounts s) sub = Some a"
  shows "tx_fits s (tx_begin now sub a s)" and "tx_clean now s (tx_begin now sub a s)"
  using assms by (auto simp: tx_fits_def tx_begin_def tx_clean_def evicts_def tables_def id_inv_def accounts_ok_def)

text \<open>Changing the account of the transaction so that it keeps its identifiers and gains no link.\<close>

lemma fits_narrower:
  assumes "tx_fits s tx" "narrower (tx_acc tx) a'" "acct_ok (tx_subject tx) a'"
  shows "tx_fits s (tx\<lparr>tx_acc := a'\<rparr>)"
proof -
  have "tables s (tx\<lparr>tx_acc := a'\<rparr>) = tables s tx" "evicts s (tx\<lparr>tx_acc := a'\<rparr>) = evicts s tx"
    by (simp_all add: tables_def evicts_def)
  then show ?thesis using assms compat_narrower [OF _ assms(2)] unfolding tx_fits_def by simp
qed

lemma change_narrower:
  assumes "acct_ok sub a" "u_Subject u = sub" "u_Email u = u_Email (a_user a)" "u_Phone u = u_Phone (a_user a)"
    and "u_DeletedAt u = zero_time \<longrightarrow> acct_live a" "link_keys (a\<lparr>a_links := ls\<rparr>) = filter P (link_keys a)"
  shows "narrower a (a\<lparr>a_user := u, a_links := ls, a_password := pw\<rparr>) \<and>
    acct_ok sub (a\<lparr>a_user := u, a_links := ls, a_password := pw\<rparr>)"
proof -
  have "link_keys (a\<lparr>a_user := u, a_links := ls, a_password := pw\<rparr>) = filter P (link_keys a)"
    using assms(6) by (simp add: link_keys_def)
  then show ?thesis
    using assms(1-5) by (auto simp: narrower_def acct_ok_def acct_live_def)
qed

lemma fits_ident:
  assumes "tx_fits s tx" "acct_ok (tx_subject tx) a'" "tx_evicted tx = None"
    and "link_keys a' = link_keys (tx_acc tx)" "acct_live (tx_acc tx)"
    and "\<And>k b. map_of (is_accounts s) k = Some b \<Longrightarrow> k \<noteq> tx_subject tx \<Longrightarrow> s_tenant k = s_tenant (tx_subject tx) \<Longrightarrow>
      acct_live b \<Longrightarrow> u_Email (a_user a') \<noteq> u_Email (a_user b) \<and>
        (u_Phone (a_user a') = u_Phone (a_user b) \<longrightarrow> identifier_IsZero (u_Phone (a_user a')))"
  shows "tx_fits s (tx\<lparr>tx_acc := a'\<rparr>)"
proof -
  have "acct_compat a' b" if "map_of (is_accounts s) k = Some b" "k \<noteq> tx_subject tx" "s_tenant k = s_tenant (tx_subject tx)" for k b
    using assms(1,3,4) assms(6) [OF that] that by (simp add: tx_fits_def tables_def acct_compat_def)
  then show ?thesis using assms(1-3) by (simp add: tx_fits_def evicts_def tables_def)
qed

lemma owner_None_other:
  assumes "identity_owner (s_tenant sub) i (s_user sub) s = None" "map_of (is_accounts s) k = Some b"
    "k \<noteq> sub" "s_tenant k = s_tenant sub" "acct_live b"
  shows "(i_kind i = IdentifierEmail \<longrightarrow> u_Email (a_user b) \<noteq> i) \<and> (i_kind i = IdentifierPhone \<longrightarrow> u_Phone (a_user b) \<noteq> i)"
proof -
  have "s_user k \<noteq> s_user sub" using assms(3,4) by (metis subject.equality unit.exhaust)
  with owner_None [OF assms(1,2)] assms(4,5) show ?thesis
    by (auto simp: owns_def acct_live_def identifier_kind_defs split: if_splits)
qed

lemma delete_at_filter: "distinct xs \<Longrightarrow> i < length xs \<Longrightarrow> delete_at i xs = filter (\<lambda>x. x \<noteq> xs ! i) xs"
proof (induction xs arbitrary: i)
  case (Cons x xs)
  show ?case
  proof (cases i)
    case 0
    moreover have "filter (\<lambda>y. y \<noteq> x) xs = xs" using Cons.prems(1) by (intro filter_True) auto
    ultimately show ?thesis by (simp add: delete_at_def)
  next
    case (Suc j)
    then have "x \<noteq> xs ! j" using Cons.prems by auto
    then show ?thesis using Cons.IH [of j] Cons.prems Suc by (simp add: delete_at_def)
  qed
qed simp

lemma tx_change_clean:
  "tx_change m s tx = Ok (old, tx') \<Longrightarrow> tx_clean now s tx \<Longrightarrow> tx_clean now s tx' \<and> tx_subject tx' = tx_subject tx"
  by (cases m)
    (auto simp: tx_change_def Let_def set_pw_def upd_user_def tx_clean_def dest: tx_link_clean tx_link_subject
      split: if_splits option.splits)

lemma unlink_keys:
  assumes "index_of P (a_links a) = Some i" "distinct (link_keys a)"
  shows "link_keys (a\<lparr>a_links := delete_at i (a_links a)\<rparr>) = filter (\<lambda>x. x \<noteq> link_keys a ! i) (link_keys a)"
proof -
  have "link_keys (a\<lparr>a_links := delete_at i (a_links a)\<rparr>) = delete_at i (link_keys a)"
    by (simp add: link_keys_def delete_at_def take_map drop_map)
  then show ?thesis using delete_at_filter [OF assms(2), of i] index_of_Some [OF assms(1)] by (simp add: link_keys_def)
qed

lemma account_eta:
  fixes a :: account
  shows "\<lparr>a_user = u, a_password = p, a_links = ls\<rparr> = a\<lparr>a_user := u, a_links := ls, a_password := p\<rparr>"
    and "a\<lparr>a_user := u, a_links := a_links a, a_password := a_password a\<rparr> = a\<lparr>a_user := u\<rparr>"
    and "a\<lparr>a_user := a_user a, a_links := a_links a, a_password := p\<rparr> = a\<lparr>a_password := p\<rparr>"
    and "a\<lparr>a_user := a_user a, a_links := ls, a_password := a_password a\<rparr> = a\<lparr>a_links := ls\<rparr>"
  by (cases a; simp)+

lemma tx_change_fits:
  assumes inv: "id_inv s" and a: "map_of (is_accounts s) sub = Some a" "acct_live a"
    and v: "mutation_validate m = Ok ()" and ok: "tx_change m s (tx_begin now sub a s) = Ok (old, tx')"
  shows "tx_fits s tx'"
proof -
  let ?tx = "tx_begin now sub a s"
  note fits = tx_begin_fits(1) [OF inv a(1), of now]
  have tx [simp]: "tx_acc ?tx = a" "tx_subject ?tx = sub" "tx_now ?tx = now" "tx_evicted ?tx = None"
    by (simp_all add: tx_begin_def)
  have acc: "acct_ok sub a" using fits by (simp add: tx_fits_def)
  have keep: "tx_fits s (?tx\<lparr>tx_acc := a\<lparr>a_user := u, a_links := ls, a_password := pw\<rparr>\<rparr>)"
    if "u_Subject u = sub" "u_Email u = u_Email (a_user a)" "u_Phone u = u_Phone (a_user a)"
      "link_keys (a\<lparr>a_links := ls\<rparr>) = filter P (link_keys a)" for u pw ls P
    using fits_narrower [OF fits] change_narrower [OF acc that(1-3) _ that(4), of pw] a(2) by simp
  have all: "link_keys (a\<lparr>a_links := a_links a\<rparr>) = filter (\<lambda>_. True) (link_keys a)"
    by (simp add: link_keys_def)
  have upd: "tx_fits s (?tx\<lparr>tx_acc := a\<lparr>a_user := u\<rparr>\<rparr>)"
    if "u_Subject u = sub" "u_Email u = u_Email (a_user a)" "u_Phone u = u_Phone (a_user a)" for u
    using keep [OF that all, of "a_password a"] unfolding account_eta .
  have pw: "tx_fits s (?tx\<lparr>tx_acc := a\<lparr>a_password := p\<rparr>\<rparr>)" for p
    using keep [OF _ _ _ all, of "a_user a" p] acc unfolding account_eta by (simp add: acct_ok_def)
  have sub: "u_Subject (a_user a) = sub" using acc by (simp add: acct_ok_def)
  have "?tx\<lparr>tx_acc := a\<rparr> = ?tx" by (simp add: tx_begin_def)
  then have same: "tx_fits s (?tx\<lparr>tx_acc := a\<rparr>)" using fits by metis
  show ?thesis
  proof (cases m)
    case (MarkEmailVerified _ phc)
    let ?pw = "if \<not> hash_IsZero phc then Some (new_password phc now False) else None"
    have "link_keys (a\<lparr>a_links := []\<rparr>) = filter (\<lambda>_. False) (link_keys a)" by (simp add: link_keys_def)
    from keep [OF _ _ _ this, of "(a_user a)\<lparr>u_EmailVerifiedAt := now\<rparr>" ?pw] ok MarkEmailVerified sub
    show ?thesis by (auto simp: tx_change_def Let_def split: if_splits)
  next
    case (ChangeEmail _ e)
    then have e: "i_kind e = IdentifierEmail" "identity_owner (s_tenant sub) e (s_user sub) s = None"
      and tx': "tx' = ?tx\<lparr>tx_acc := a\<lparr>a_user := (a_user a)\<lparr>u_Email := e, u_EmailVerifiedAt := now\<rparr>\<rparr>\<rparr>"
      using v ok by (auto simp: no_subject_def tx_change_def upd_user_def Let_def split: if_splits)
    show ?thesis unfolding tx'
    proof (rule fits_ident [OF fits])
      fix k b assume b: "map_of (is_accounts s) k = Some b" "k \<noteq> tx_subject ?tx" "s_tenant k = s_tenant (tx_subject ?tx)" "acct_live b"
      have "acct_compat a b" using fits b by (simp add: tx_fits_def tables_def)
      then show "u_Email (a_user (a\<lparr>a_user := (a_user a)\<lparr>u_Email := e, u_EmailVerifiedAt := now\<rparr>\<rparr>)) \<noteq> u_Email (a_user b) \<and>
        (u_Phone (a_user (a\<lparr>a_user := (a_user a)\<lparr>u_Email := e, u_EmailVerifiedAt := now\<rparr>\<rparr>)) = u_Phone (a_user b) \<longrightarrow>
          identifier_IsZero (u_Phone (a_user (a\<lparr>a_user := (a_user a)\<lparr>u_Email := e, u_EmailVerifiedAt := now\<rparr>\<rparr>))))"
        using owner_None_other [OF e(2) b(1)] b e(1) a(2) by (auto simp: acct_compat_def)
    qed (use acc a(2) e(1) in \<open>auto simp: acct_ok_def link_keys_def\<close>)
  next
    case (SetPhone _ p)
    let ?a' = "a\<lparr>a_user := (a_user a)\<lparr>u_Phone := p, u_PhoneVerifiedAt := verifiedAt p now\<rparr>\<rparr>"
    from SetPhone have p: "identifier_IsZero p \<or> i_kind p = IdentifierPhone"
        "identifier_IsZero p \<or> identity_owner (s_tenant sub) p (s_user sub) s = None"
      and tx': "tx' = ?tx\<lparr>tx_acc := ?a'\<rparr>"
      using v ok by (auto simp: no_subject_def tx_change_def upd_user_def Let_def split: if_splits)
    show ?thesis unfolding tx'
    proof (rule fits_ident [OF fits])
      fix k b assume b: "map_of (is_accounts s) k = Some b" "k \<noteq> tx_subject ?tx" "s_tenant k = s_tenant (tx_subject ?tx)" "acct_live b"
      have "acct_compat a b" using fits b by (simp add: tx_fits_def tables_def)
      then show "u_Email (a_user ?a') \<noteq> u_Email (a_user b) \<and>
        (u_Phone (a_user ?a') = u_Phone (a_user b) \<longrightarrow> identifier_IsZero (u_Phone (a_user ?a')))"
        using owner_None_other [OF _ b(1), of sub p] b p a(2) by (auto simp: acct_compat_def)
    qed (use acc a(2) p(1) in \<open>auto simp: acct_ok_def link_keys_def\<close>)
  next
    case (LinkFederated _ f _)
    then have "tx_link f s ?tx = Ok tx'" using ok by (auto simp: tx_change_def Let_def)
    then show ?thesis using tx_link_fits [OF inv fits] a(1) by simp
  next
    case (UnlinkFederated _ p q _)
    then obtain i where i: "index_of (links_to p q) (a_links a) = Some i"
      "tx' = ?tx\<lparr>tx_acc := a\<lparr>a_links := delete_at i (a_links a)\<rparr>\<rparr>"
      using ok by (auto simp: tx_change_def Let_def split: option.splits)
    have "distinct (link_keys a)" using acc by (simp add: acct_ok_def)
    from keep [OF _ _ _ unlink_keys [OF i(1) this], of "a_user a" "a_password a"] i(2) sub
    show ?thesis unfolding account_eta by simp
  qed (use ok pw upd fits sub same in \<open>auto simp: tx_change_def Let_def set_pw_def upd_user_def split: if_splits option.splits\<close>)
qed

text \<open>\<open>fresh_id\<close>: a new account gets an identifier that is not nil and not in use.\<close>

definition fresh_id :: "uuid result \<Rightarrow> mutation \<Rightarrow> id_store \<Rightarrow> bool" where
  "fresh_id newid m s \<longleftrightarrow>
     (case m of
        CreateVerified t _ _ _ _ \<Rightarrow>
          (\<forall>i. newid = Ok i \<longrightarrow> i \<noteq> uuid_Nil \<and> map_of (is_accounts s) \<lparr>s_tenant = t, s_user = i\<rparr> = None)
      | _ \<Rightarrow> True)"

lemma tx_create_fits:
  assumes inv: "id_inv s" and v: "i_kind email = IdentifierEmail"
    and fresh: "\<And>i. newid = Ok i \<Longrightarrow> i \<noteq> uuid_Nil \<and> map_of (is_accounts s) \<lparr>s_tenant = t, s_user = i\<rparr> = None"
    and ok: "tx_create cx now newid t email phc must fed s = Ok tx'"
  shows "tx_fits s tx' \<and> tx_clean now s tx' \<and> map_of (is_accounts s) (tx_subject tx') = None"
proof -
  from ok obtain i where i: "newid = Ok i" and own: "identity_owner t email uuid_Nil s = None"
    by (auto simp: tx_create_def Let_def split: if_splits result.splits)
  let ?sub = "\<lparr>s_tenant = t, s_user = i\<rparr>"
  let ?acc = "\<lparr>a_user = new_user ?sub email now,
      a_password = (if \<not> hash_IsZero phc then Some (new_password phc now must) else None), a_links = []\<rparr>"
  let ?tx = "tx_begin now ?sub ?acc s"
  have tx': "(if fed \<noteq> zero_federated then tx_link fed s ?tx else Ok ?tx) = Ok tx'"
    using ok i own by (auto simp: tx_create_def Let_def split: if_splits)
  note f = fresh [OF i]
  have comp: "acct_compat ?acc b" if "map_of (is_accounts s) k = Some b" "s_tenant k = t" for k b
  proof -
    have "s_user k \<noteq> uuid_Nil" using inv that by (auto simp: id_inv_def accounts_ok_def acct_ok_def)
    then show ?thesis
      using owner_None [OF own that(1)] that(2) v
      by (auto simp: acct_compat_def owns_def link_keys_def new_user_def acct_live_def split: if_splits)
  qed
  have "tx_fits s ?tx"
    using f v comp by (auto simp: tx_fits_def tx_begin_def acct_ok_def new_user_def evicts_def tables_def link_keys_def)
  moreover have "tx_clean now s ?tx" using f by (simp add: tx_clean_def tx_begin_def new_user_def)
  moreover have "tx_subject ?tx = ?sub" "tx_evicted ?tx = None" "link_keys (tx_acc ?tx) = []"
    by (simp_all add: tx_begin_def link_keys_def)
  ultimately show ?thesis
    using tx' f tx_link_fits [OF inv, of ?tx fed tx'] tx_link_clean [of fed s ?tx tx' now] tx_link_subject [of fed s ?tx tx']
    by (auto split: if_splits)
qed

lemma tx_mutate_load:
  assumes "\<not> is_CreateVerified m" "tx_mutate cx now newid m s = Ok (old, tx)"
  obtains a where "map_of (is_accounts s) (m_Subject m) = Some a" "acct_live a"
    "tx_change m s (tx_begin now (m_Subject m) a s) = Ok (old, tx)"
proof -
  have "tx_mutate cx now newid m s =
      result_bind (tx_load cx now (m_Subject m) s) (\<lambda>tx. tx_step cx 2 (tx_change m s tx))"
    using assms(1) by (cases m) (auto simp: tx_mutate_def subjectOf_def)
  with assms(2) that show thesis
    by (auto simp: tx_load_def acct_live_def split: option.splits if_splits)
qed

lemma tx_mutate_fits:
  assumes inv: "id_inv s" and fresh: "fresh_id newid m s" and v: "mutation_validate m = Ok ()"
    and ok: "tx_mutate cx now newid m s = Ok (old, tx)"
  shows "tx_fits s tx \<and> tx_clean now s tx"
proof (cases "is_CreateVerified m")
  case True
  then obtain t e p c f where m: "m = CreateVerified t e p c f" by (cases m) auto
  have "tx_create cx now newid t e p c f s = Ok tx" using ok m by (simp add: tx_mutate_def)
  moreover have "i_kind e = IdentifierEmail" using v m by (simp split: if_splits)
  moreover have "\<And>i. newid = Ok i \<Longrightarrow> i \<noteq> uuid_Nil \<and> map_of (is_accounts s) \<lparr>s_tenant = t, s_user = i\<rparr> = None"
    using fresh m by (simp add: fresh_id_def)
  ultimately show ?thesis using tx_create_fits [OF inv] by blast
next
  case False
  then obtain a where "map_of (is_accounts s) (m_Subject m) = Some a" "acct_live a"
    "tx_change m s (tx_begin now (m_Subject m) a s) = Ok (old, tx)"
    by (rule tx_mutate_load [OF _ ok])
  then show ?thesis
    using tx_change_fits [OF inv _ _ v] tx_change_clean [of m s _ old tx now] tx_begin_fits(2) [OF inv] by blast
qed

section \<open>Commit\<close>

lemma numbered_ok:
  assumes "outbox_ok q os" "0 \<le> q"
  shows "outbox_ok (q + int (length its)) (os @ map fresh_row (numbered q now its))"
  using assms
proof (induction its arbitrary: q os)
  case (Cons it its)
  let ?it = "it\<lparr>o_ID := q + 1, o_NextAttemptAt := now, o_CreatedAt := now\<rparr>"
  have "outbox_ok (q + 1) (os @ [fresh_row ?it])"
    using Cons.prems by (auto simp: outbox_ok_def sorted_wrt_append)
  from Cons.IH [OF this] Cons.prems(2) show ?case by (simp add: algebra_simps)
qed simp

lemma log_ok_snoc: "log_ok n es \<Longrightarrow> er_seq r = n + 1 \<Longrightarrow> log_ok (n + 1) (es @ [r])"
  by (auto simp: log_ok_def sorted_wrt_append le_less_trans)

lemma commit_accounts:
  assumes "id_inv s" "tx_fits s tx"
    and same: "tx_subject tx' = tx_subject tx" "tx_evicted tx' = tx_evicted tx"
    and acc: "tx_acc tx' = (tx_acc tx)\<lparr>a_user := (a_user (tx_acc tx))\<lparr>u_SecurityEpoch := ep\<rparr>\<rparr>"
  shows "accounts_ok (map_of (is_accounts (tx_commit tx' s)))"
    and "map_of (is_accounts (tx_commit tx' s)) = (tables s tx)(tx_subject tx \<mapsto> tx_acc tx')"
proof -
  have M: "accounts_ok (map_of (is_accounts s))" using assms(1) by (simp add: id_inv_def)
  have T: "accounts_ok (tables s tx)"
  proof (cases "tx_evicted tx")
    case None
    then show ?thesis using M by (simp add: tables_def)
  next
    case (Some e)
    then obtain k a P where e: "k \<noteq> tx_subject tx" "map_of (is_accounts s) k = Some a" "u_Subject (a_user e) = k"
      "e = a\<lparr>a_links := filter P (a_links a)\<rparr>"
      using assms(2) by (fastforce simp: tx_fits_def evicts_def)
    have "narrower a e" "distinct (link_keys a) \<longrightarrow> distinct (link_keys e)"
      unfolding e(4) by (auto simp: narrower_def link_keys_def acct_live_def distinct_map inj_on_def)
    moreover have "acct_ok k a" using M e(2) by (simp add: accounts_ok_def)
    ultimately have "acct_ok k e" using e(4) by (simp add: acct_ok_def)
    have "acct_compat a b" if "map_of (is_accounts s) k' = Some b" "k' \<noteq> k" "s_tenant k' = s_tenant k" for k' b
      using M e(2) that by (auto simp: accounts_ok_def)
    then show ?thesis
      unfolding tables_def using Some e(3) accounts_ok_update [OF M \<open>acct_ok k e\<close>] compat_narrower [OF _ \<open>narrower a e\<close>]
      by simp
  qed
  show eq: "map_of (is_accounts (tx_commit tx' s)) = (tables s tx)(tx_subject tx \<mapsto> tx_acc tx')"
    using assms(2) same by (fastforce simp: tx_commit_def tables_def tx_fits_def evicts_def Let_def split: option.splits)
  have ok: "acct_ok (tx_subject tx) (tx_acc tx')" "narrower (tx_acc tx) (tx_acc tx')"
    using assms(2) unfolding acc tx_fits_def by (auto simp: acct_ok_def link_keys_def narrower_def acct_live_def)
  show "accounts_ok (map_of (is_accounts (tx_commit tx' s)))"
    unfolding eq using accounts_ok_update [OF T ok(1)] assms(2) compat_narrower [OF _ ok(2)]
    by (simp add: tx_fits_def)
qed

text \<open>What a successful \<^verbatim>\<open>Apply\<close> leaves behind.\<close>

lemma commit_simps [simp]:
  "is_epochs (tx_commit tx s) = is_epochs s @ tx_epochs tx" "is_outbox (tx_commit tx s) = is_outbox s @ tx_outbox tx"
  "is_epochSeq (tx_commit tx s) = tx_epochSeq tx" "is_outboxSeq (tx_commit tx s) = tx_outboxSeq tx"
  by (simp_all add: tx_commit_def Let_def)

lemma bumped_acc:
  "tx_acc (bumped m tx) = (tx_acc tx)\<lparr>a_user := (a_user (tx_acc tx))\<lparr>u_SecurityEpoch :=
     u_SecurityEpoch (a_user (tx_acc tx)) + (if ef_BumpsEpoch (EffectsOf m) then 1 else 0)\<rparr>\<rparr>"
  by (simp add: bumped_def)

definition epoch_rows :: "mutation \<Rightarrow> txn \<Rightarrow> epoch_row list" where
  "epoch_rows m tx =
     (if ef_BumpsEpoch (EffectsOf m)
      then [\<lparr>er_seq = tx_epochSeq tx + 1, er_change = \<lparr>ec_Subject = tx_subject tx,
               ec_NewEpoch = u_SecurityEpoch (a_user (tx_acc tx)) + 1, ec_Reason = ef_Event (EffectsOf m)\<rparr>, er_at = tx_now tx\<rparr>]
      else [])"

lemma bumped_log:
  "tx_epochs (bumped m tx) = tx_epochs tx @ epoch_rows m tx"
  "tx_epochSeq (bumped m tx) = tx_epochSeq tx + length (epoch_rows m tx)"
  by (simp_all add: bumped_def epoch_rows_def tx_bump_def upd_user_def Let_def)

lemma Apply_committed:
  assumes "id_inv s" "fresh_id newid m s" and ok: "identity_Apply cx clk newid m s = (Ok ap, s')"
  obtains old tx where "mutation_validate m = Ok ()" "tx_mutate cx (identity_now clk) newid m s = Ok (old, tx)"
    "tx_fits s tx" "tx_clean (identity_now clk) s tx" "ap_Subject ap = tx_subject tx"
    "ap_NewEpoch ap = u_SecurityEpoch (a_user (tx_acc (bumped m tx)))"
    "ap_Outbox ap = numbered (is_outboxSeq s) (identity_now clk) (OutboxFor m (tx_subject tx) old)"
    "is_epochs s' = is_epochs s @ epoch_rows m tx" "is_epochSeq s' = is_epochSeq s + length (epoch_rows m tx)"
    "is_outbox s' = is_outbox s @ map fresh_row (ap_Outbox ap)"
    "is_outboxSeq s' = is_outboxSeq s + int (length (ap_Outbox ap))"
    "map_of (is_accounts s') = (tables s tx)(tx_subject tx \<mapsto> tx_acc (bumped m tx))" "id_inv s'"
proof -
  from Apply_Ok [OF ok] obtain old tx tx' where a: "mutation_validate m = Ok ()"
    "tx_mutate cx (identity_now clk) newid m s = Ok (old, tx)" "tx_effects cx m old tx = Ok (ap, tx')"
    "s' = tx_commit tx' s" by blast
  note f = tx_mutate_fits [OF assms(1,2) a(1,2)] and e = tx_effects_Ok [OF a(3)]
  have fits: "tx_fits s tx" and clean: "tx_clean (identity_now clk) s tx" using f by auto
  have acc: "tx_acc tx' = (tx_acc tx)\<lparr>a_user := (a_user (tx_acc tx))\<lparr>u_SecurityEpoch :=
     u_SecurityEpoch (a_user (tx_acc tx)) + (if ef_BumpsEpoch (EffectsOf m) then 1 else 0)\<rparr>\<rparr>" using e bumped_acc by simp
  have same: "tx_subject tx' = tx_subject tx" "tx_evicted tx' = tx_evicted tx" "tx_acc tx' = tx_acc (bumped m tx)"
    using e by simp_all
  note c = commit_accounts [OF assms(1) fits same(1,2) acc]
  have parts: "is_epochs s' = is_epochs s @ epoch_rows m tx" "is_epochSeq s' = is_epochSeq s + length (epoch_rows m tx)"
    "is_outbox s' = is_outbox s @ map fresh_row (ap_Outbox ap)"
    "is_outboxSeq s' = is_outboxSeq s + int (length (ap_Outbox ap))"
    "ap_Outbox ap = numbered (is_outboxSeq s) (identity_now clk) (OutboxFor m (tx_subject tx) old)"
    using e clean a(4) by (simp_all add: bumped_log tx_clean_def)
  have "id_inv s'"
    unfolding id_inv_def
  proof (intro conjI)
    show "wf_map (is_accounts s')" using assms(1) a(4) by (simp add: id_inv_def tx_commit_def Let_def split: option.splits)
    show "accounts_ok (map_of (is_accounts s'))" using c(1) a(4) by simp
    show "log_ok (is_epochSeq s') (is_epochs s')"
      using assms(1) clean parts(1,2) log_ok_snoc [of "is_epochSeq s" "is_epochs s"]
      by (auto simp: id_inv_def epoch_rows_def tx_clean_def)
    show "0 \<le> is_outboxSeq s'" using assms(1) parts(4) by (simp add: id_inv_def)
    show "outbox_ok (is_outboxSeq s') (is_outbox s')"
      using numbered_ok [of "is_outboxSeq s" "is_outbox s" "OutboxFor m (tx_subject tx) old"] assms(1) parts(3-5)
      by (simp add: id_inv_def)
  qed
  then show thesis using that a(1,2) fits clean e parts c(2) a(4) same(3) by simp
qed

end
