(* ===== verification/Identity_Ops.thy ===== *)
theory Identity_Ops
  imports Identity_Laws
begin

text \<open>
  The account store as a state machine: every method that changes state, in any order and at any clock,
  keeps the invariant; how epochs, log and outbox evolve along a run.
\<close>

datatype id_op =
    OpApply contexts "uuid result" mutation
  | OpEraseTenant context_err tenant_id
  | OpReap context_err
  | OpPasswordFailure context_err subject lockout_policy
  | OpPasswordReset context_err subject
  | OpAck context_err int
  | OpFailOutbox context_err int instant
  | OpEraseUser context_err subject

fun id_exec :: "id_op \<Rightarrow> instant \<Rightarrow> id_store \<Rightarrow> id_store" where
  "id_exec (OpApply cx newid m) clk s = snd (identity_Apply cx clk newid m s)"
| "id_exec (OpEraseTenant ctx t) clk s = snd (identity_EraseTenant ctx t s)"
| "id_exec (OpReap ctx) clk s = snd (identity_ReapExpired ctx clk s)"
| "id_exec (OpPasswordFailure ctx sub p) clk s = snd (identity_RecordPasswordFailure ctx clk sub p s)"
| "id_exec (OpPasswordReset ctx sub) clk s = snd (identity_ResetPasswordFailures ctx sub s)"
| "id_exec (OpAck ctx i) clk s = snd (identity_AckOutbox ctx clk i s)"
| "id_exec (OpFailOutbox ctx i n) clk s = snd (identity_FailOutbox ctx i n s)"
| "id_exec (OpEraseUser ctx sub) clk s = snd (identity_EraseUser ctx sub s)"

fun op_fresh :: "id_op \<Rightarrow> id_store \<Rightarrow> bool" where
  "op_fresh (OpApply cx newid m) s = fresh_id newid m s"
| "op_fresh _ s = True"

inductive id_step :: "id_store \<Rightarrow> id_store \<Rightarrow> bool" where
  id_stepI: "op_fresh op s \<Longrightarrow> id_step s (id_exec op clk s)"

section \<open>Methods that only touch a password, the outbox or remove rows\<close>

lemma id_inv_put_password:
  assumes "id_inv s" "map_of (is_accounts s) sub = Some a"
  shows "id_inv (put_account sub (a\<lparr>a_password := p\<rparr>) s)"
proof -
  have M: "accounts_ok (map_of (is_accounts s))" using assms(1) by (simp add: id_inv_def)
  have "acct_ok sub (a\<lparr>a_password := p\<rparr>)" using M assms(2) by (simp add: accounts_ok_def acct_ok_def link_keys_def)
  moreover have "narrower a (a\<lparr>a_password := p\<rparr>)" by (simp add: narrower_def acct_live_def link_keys_def)
  moreover have "acct_compat a b"
    if "map_of (is_accounts s) k = Some b" "k \<noteq> sub" "s_tenant k = s_tenant sub" for k b
    using M assms(2) that by (auto simp: accounts_ok_def)
  ultimately have "accounts_ok ((map_of (is_accounts s))(sub \<mapsto> a\<lparr>a_password := p\<rparr>))"
    using accounts_ok_update [OF M] compat_narrower by meson
  then show ?thesis using assms(1) by (simp add: id_inv_def put_account_def)
qed

lemma existing_Ok: "identity_existing sub s = Ok a \<longleftrightarrow> map_of (is_accounts s) sub = Some a"
  by (auto simp: identity_existing_def split: option.splits)

lemma PasswordFailure_effect:
  "snd (identity_RecordPasswordFailure ctx clk sub p s) = s \<or>
   (\<exists>a pw. map_of (is_accounts s) sub = Some a \<and>
      snd (identity_RecordPasswordFailure ctx clk sub p s) = put_account sub (a\<lparr>a_password := pw\<rparr>) s)"
  by (cases ctx)
    (auto simp: identity_RecordPasswordFailure_def identity_existing_def split: result.splits option.splits prod.splits)

lemma PasswordReset_effect:
  "snd (identity_ResetPasswordFailures ctx sub s) = s \<or>
   (\<exists>a pw. map_of (is_accounts s) sub = Some a \<and>
      snd (identity_ResetPasswordFailures ctx sub s) = put_account sub (a\<lparr>a_password := pw\<rparr>) s)"
  by (cases ctx)
    (auto simp: identity_ResetPasswordFailures_def identity_existing_def split: result.splits option.splits)

text \<open>Acknowledging or deferring a row keeps every field of the rows but their completion and schedule.\<close>

definition row_key :: "outbox_row \<Rightarrow> outbox_item" where
  "row_key r = (or_item r)\<lparr>o_Attempts := 0, o_NextAttemptAt := zero_time\<rparr>"

lemma identity_row_Some: "identity_row i s = Some n \<Longrightarrow> n < length (is_outbox s) \<and> o_ID (or_item (is_outbox s ! n)) = i"
  by (auto simp: identity_row_def Let_def split: if_splits)

lemma outbox_update:
  assumes "n < length os" "row_key r = row_key (os ! n)"
  shows "map row_key (os[n := r]) = map row_key os"
  using assms by (metis length_list_update length_map list_update_id map_update nth_map)

lemma Ack_effect:
  "\<exists>os. snd (identity_AckOutbox ctx clk i s) = s\<lparr>is_outbox := os\<rparr> \<and> map row_key os = map row_key (is_outbox s)"
proof -
  have same: "s = s\<lparr>is_outbox := is_outbox s\<rparr>" by simp
  show ?thesis
  proof (cases "ctx = None \<and> (\<exists>n. identity_row i s = Some n \<and> or_done (is_outbox s ! n) = zero_time)")
    case True
    then obtain n where n: "identity_row i s = Some n" "or_done (is_outbox s ! n) = zero_time" "ctx = None" by auto
    then show ?thesis
      using outbox_update [of n "is_outbox s" "(is_outbox s ! n)\<lparr>or_done := identity_now clk\<rparr>"] identity_row_Some [OF n(1)]
      by (auto simp: identity_AckOutbox_def Let_def row_key_def intro!: exI)
  next
    case False
    then have "snd (identity_AckOutbox ctx clk i s) = s"
      by (cases ctx) (auto simp: identity_AckOutbox_def Let_def split: option.splits)
    then show ?thesis using same by metis
  qed
qed

lemma FailOutbox_effect:
  "\<exists>os. snd (identity_FailOutbox ctx i nx s) = s\<lparr>is_outbox := os\<rparr> \<and> map row_key os = map row_key (is_outbox s)"
proof -
  have same: "s = s\<lparr>is_outbox := is_outbox s\<rparr>" by simp
  show ?thesis
  proof (cases "ctx = None \<and> (\<exists>n. identity_row i s = Some n \<and> or_done (is_outbox s ! n) = zero_time)")
    case True
    then obtain n where n: "identity_row i s = Some n" "or_done (is_outbox s ! n) = zero_time" "ctx = None" by auto
    let ?r = "is_outbox s ! n"
    let ?r' = "?r\<lparr>or_item := (or_item ?r)\<lparr>o_Attempts := o_Attempts (or_item ?r) + 1, o_NextAttemptAt := id_instant nx\<rparr>\<rparr>"
    have "map row_key ((is_outbox s)[n := ?r']) = map row_key (is_outbox s)"
      by (rule outbox_update) (use identity_row_Some [OF n(1)] in \<open>auto simp: row_key_def\<close>)
    then show ?thesis using n by (auto simp: identity_FailOutbox_def Let_def)
  next
    case False
    then have "snd (identity_FailOutbox ctx i nx s) = s"
      by (cases ctx) (auto simp: identity_FailOutbox_def Let_def split: option.splits)
    then show ?thesis using same by metis
  qed
qed

lemma outbox_ok_keys:
  "outbox_ok n os \<longleftrightarrow> sorted_wrt (<) (map o_ID (map row_key os)) \<and> (\<forall>k \<in> set (map row_key os). 0 < o_ID k \<and> o_ID k \<le> n)"
  by (simp add: outbox_ok_def row_key_def comp_def)

lemma id_inv_outbox:
  "id_inv s \<Longrightarrow> map row_key os = map row_key (is_outbox s) \<Longrightarrow> id_inv (s\<lparr>is_outbox := os\<rparr>)"
  unfolding id_inv_def outbox_ok_keys by simp

lemma log_ok_filter: "log_ok n es \<Longrightarrow> log_ok n (filter P es)"
  by (auto simp: log_ok_def sorted_wrt_map sorted_wrt_filter)

lemma outbox_ok_filter: "outbox_ok n os \<Longrightarrow> outbox_ok n (filter P os)"
  by (auto simp: outbox_ok_def sorted_wrt_map sorted_wrt_filter)

lemma id_inv_smaller:
  assumes "id_inv s" "wf_map m" "\<And>k a. map_of m k = Some a \<Longrightarrow> map_of (is_accounts s) k = Some a"
  shows "id_inv (s\<lparr>is_accounts := m, is_epochs := filter P (is_epochs s), is_outbox := filter Q (is_outbox s)\<rparr>)"
proof -
  have "accounts_ok (map_of m)"
    by (rule accounts_ok_restrict [of "map_of (is_accounts s)"]) (use assms in \<open>auto simp: id_inv_def\<close>)
  then show ?thesis using assms(1,2) by (simp add: id_inv_def log_ok_filter outbox_ok_filter)
qed

lemma EraseTenant_eq:
  "snd (identity_EraseTenant ctx t s) = s \<or>
   snd (identity_EraseTenant ctx t s) =
     s\<lparr>is_accounts := del_where (\<lambda>k _. s_tenant k = t) (is_accounts s),
       is_epochs := filter (\<lambda>r. \<not> s_tenant (ec_Subject (er_change r)) = t) (is_epochs s),
       is_outbox := filter (\<lambda>r. \<not> s_tenant (o_Subject (or_item r)) = t) (is_outbox s)\<rparr>"
  by (cases ctx) (simp_all add: identity_EraseTenant_def)

lemma Reap_eq:
  "snd (identity_ReapExpired ctx clk s) = s \<or>
   snd (identity_ReapExpired ctx clk s) =
     s\<lparr>is_epochs := filter (\<lambda>r. \<not> er_at r < identity_now clk - Retention) (is_epochs s),
       is_outbox := filter (\<lambda>r. \<not> (or_done r \<noteq> zero_time \<and> or_done r < identity_now clk - Retention)) (is_outbox s)\<rparr>"
  by (cases ctx) (simp_all add: identity_ReapExpired_def Let_def)

lemma EraseUser_eq:
  "snd (identity_EraseUser ctx sub s) = s \<or>
   (\<exists>a. map_of (is_accounts s) sub = Some a \<and> \<not> acct_live a \<and>
      (\<forall>r \<in> set (is_outbox s). o_Subject (or_item r) = sub \<longrightarrow> or_done r \<noteq> zero_time \<or> o_Component (or_item r) = ComponentIdentity) \<and>
      snd (identity_EraseUser ctx sub s) = s\<lparr>is_accounts := AList.delete sub (is_accounts s)\<rparr>)"
  by (cases ctx)
    (auto simp: identity_EraseUser_def identity_existing_def acct_live_def list_ex_iff split: option.splits)

lemma id_exec_inv:
  assumes "id_inv s" "op_fresh op s"
  shows "id_inv (id_exec op clk s)"
proof (cases op)
  case (OpApply cx newid m)
  obtain r s' where r: "identity_Apply cx clk newid m s = (r, s')" by fastforce
  show ?thesis
  proof (cases r)
    case (Ok ap)
    then show ?thesis using Apply_committed [OF assms(1), of newid m cx clk ap s'] assms(2) OpApply r by auto
  qed (use OpApply r assms(1) in \<open>auto simp: identity_Apply_def Let_def split: result.splits prod.splits\<close>)
next
  case (OpEraseTenant ctx t)
  have "map_of (del_where (\<lambda>k _. s_tenant k = t) (is_accounts s)) k = Some a \<Longrightarrow> map_of (is_accounts s) k = Some a" for k a
    using assms(1) by (auto simp: id_inv_def map_of_del_where split: option.splits if_splits)
  then show ?thesis using OpEraseTenant EraseTenant_eq [of ctx t s] assms(1) id_inv_smaller [OF assms(1)]
    by (auto simp: id_inv_def)
next
  case (OpReap ctx)
  then show ?thesis using Reap_eq [of ctx clk s] assms(1) by (auto simp: id_inv_def log_ok_filter outbox_ok_filter)
next
  case (OpPasswordFailure ctx sub p)
  then show ?thesis using PasswordFailure_effect [of ctx clk sub p s] assms(1) id_inv_put_password by auto
next
  case (OpPasswordReset ctx sub)
  then show ?thesis using PasswordReset_effect [of ctx sub s] assms(1) id_inv_put_password by auto
next
  case (OpAck ctx i)
  then show ?thesis using Ack_effect [of ctx clk i s] assms(1) id_inv_outbox by auto
next
  case (OpFailOutbox ctx i n)
  then show ?thesis using FailOutbox_effect [of ctx i n s] assms(1) id_inv_outbox by auto
next
  case (OpEraseUser ctx sub)
  have "accounts_ok (map_of (AList.delete sub (is_accounts s)))"
    by (rule accounts_ok_restrict [of "map_of (is_accounts s)"]) (use assms(1) in \<open>auto simp: id_inv_def split: if_splits\<close>)
  then show ?thesis using OpEraseUser EraseUser_eq [of ctx sub s] assms(1) by (auto simp: id_inv_def)
qed

lemma id_step_inv: "id_step s s' \<Longrightarrow> id_inv s \<Longrightarrow> id_inv s'"
  by (auto elim!: id_step.cases intro: id_exec_inv)

lemma id_run_inv: "id_step\<^sup>*\<^sup>* s s' \<Longrightarrow> id_inv s \<Longrightarrow> id_inv s'"
  by (induction rule: rtranclp_induct) (auto intro: id_step_inv)

end
