(* ===== verification/Identity_Lockout.thy ===== *)
theory Identity_Lockout
  imports Identity_Store
begin

text \<open>
  The password lockout bounds guessing: however failures are timed, at most \<open>Threshold\<close> of those recorded
  within one \<open>Window\<close> find the credential unlocked.
\<close>

section \<open>Counting open guesses\<close>

definition open_at :: "instant \<Rightarrow> password \<Rightarrow> bool" where
  "open_at now pw \<longleftrightarrow> \<not> pw_lockedUntil pw > now"

fun open_guesses :: "lockout_policy \<Rightarrow> instant list \<Rightarrow> password \<Rightarrow> int" where
  "open_guesses p [] pw = 0"
| "open_guesses p (now # ts) pw =
     (if open_at now pw then 1 else 0) + open_guesses p ts (snd (record_failure p now pw))"

text \<open>A clock reading and a window kept to the microsecond.\<close>

definition whole :: "int \<Rightarrow> bool" where
  "whole x \<longleftrightarrow> x mod Microsecond = 0"

lemma locked_stays:
  assumes "\<forall>x \<in> set ts. x < u" "u \<le> pw_lockedUntil pw" "pw_lockedUntil pw \<noteq> zero_time"
  shows "open_guesses p ts pw = 0"
  using assms
proof (induction ts arbitrary: pw)
  case (Cons now ts)
  then have "pw_lockedUntil pw > now" by auto
  then have "pw_lockedUntil (snd (record_failure p now pw)) = pw_lockedUntil pw" "\<not> open_at now pw"
    using Cons.prems(3) by (simp_all add: record_failure_def fail_decay_def Let_def open_at_def)
  then show ?case using Cons.IH [of "snd (record_failure p now pw)"] Cons.prems by simp
qed simp

lemma lock_set:
  assumes "whole (now - zero_time)" "whole (lp_Window p)" "0 < lp_Window p" "zero_time \<le> now"
  shows "id_instant (now + lp_Window p) = now + lp_Window p"
proof -
  have "(now + lp_Window p - zero_time) mod Microsecond = ((now - zero_time) + lp_Window p) mod Microsecond"
    by (simp add: algebra_simps)
  also have "\<dots> = 0" using assms(1,2) by (simp add: whole_def mod_add_eq [symmetric] del: mod_add_eq)
  finally show ?thesis using assms(3,4) by (simp add: id_instant_def time_Truncate_def)
qed

text \<open>Readings of the store's clock from \<open>t\<close> on, before \<open>t + Window\<close>, in order.\<close>

definition timed :: "lockout_policy \<Rightarrow> instant \<Rightarrow> instant list \<Rightarrow> bool" where
  "timed p t ts \<longleftrightarrow>
     sorted ts \<and> (\<forall>x \<in> set ts. t \<le> x \<and> x < t + lp_Window p \<and> whole (x - zero_time) \<and> zero_time \<le> x)"

definition policy_ok :: "lockout_policy \<Rightarrow> bool" where
  "policy_ok p \<longleftrightarrow> 0 < lp_Threshold p \<and> 0 < lp_Window p \<and> whole (lp_Window p)"

lemma timed_Cons [simp]:
  "timed p t (x # ts) \<longleftrightarrow> timed p t ts \<and> (\<forall>y \<in> set ts. x \<le> y) \<and> t \<le> x \<and> x < t + lp_Window p \<and>
     whole (x - zero_time) \<and> zero_time \<le> x"
  by (auto simp: timed_def)

text \<open>After a failure inside the window, what is left of the threshold bounds the rest.\<close>

lemma counted_failure:
  assumes "policy_ok p" "timed p t (now # ts)" "pw_lockedUntil pw = zero_time" "0 \<le> pw_failed pw"
    and "pw_failed pw < lp_Threshold p" "fail_decay p now pw = pw"
    and IH: "\<And>pw'. pw_lockedUntil pw' = zero_time \<Longrightarrow> t \<le> pw_lastFailure pw' \<Longrightarrow> 0 \<le> pw_failed pw' \<Longrightarrow>
      pw_failed pw' < lp_Threshold p \<Longrightarrow> open_guesses p ts pw' \<le> lp_Threshold p - pw_failed pw'"
  shows "open_guesses p (now # ts) pw \<le> lp_Threshold p - pw_failed pw"
proof -
  let ?pw = "pw\<lparr>pw_failed := pw_failed pw + 1, pw_lastFailure := now\<rparr>"
  have after: "snd (record_failure p now pw) =
      (if pw_failed pw + 1 \<ge> lp_Threshold p then ?pw\<lparr>pw_lockedUntil := now + lp_Window p\<rparr> else ?pw)"
    using assms(1-3,6) lock_set [of now p] by (simp add: record_failure_def Let_def policy_ok_def)
  show ?thesis
  proof (cases "pw_failed pw + 1 \<ge> lp_Threshold p")
    case True
    have "open_guesses p ts (?pw\<lparr>pw_lockedUntil := now + lp_Window p\<rparr>) = 0"
      by (rule locked_stays [of _ "t + lp_Window p"]) (use assms(1,2) in \<open>auto simp: timed_def policy_ok_def\<close>)
    then show ?thesis using True after assms(5) by simp
  next
    case False
    then show ?thesis using after IH [of ?pw] assms(2-4) by (auto simp: open_at_def)
  qed
qed

lemma window_open:
  assumes "policy_ok p" "timed p t ts" "pw_lockedUntil pw = zero_time" "t \<le> pw_lastFailure pw"
    "0 \<le> pw_failed pw" "pw_failed pw < lp_Threshold p"
  shows "open_guesses p ts pw \<le> lp_Threshold p - pw_failed pw"
  using assms
proof (induction ts arbitrary: pw)
  case (Cons now ts)
  have "fail_decay p now pw = pw" using Cons.prems by (simp add: fail_decay_def)
  then show ?case using Cons counted_failure [of p t now ts pw] by simp
qed simp

text \<open>The counters a credential can reach.\<close>

definition counter_ok :: "lockout_policy \<Rightarrow> password \<Rightarrow> bool" where
  "counter_ok p pw \<longleftrightarrow> 0 \<le> pw_failed pw \<and> (pw_lockedUntil pw = zero_time \<longrightarrow> pw_failed pw < lp_Threshold p)"

lemma open_guesses_bounded:
  assumes "policy_ok p" "timed p t ts" "counter_ok p pw"
  shows "open_guesses p ts pw \<le> lp_Threshold p"
  using assms
proof (induction ts arbitrary: pw)
  case Nil
  then show ?case by (simp add: policy_ok_def)
next
  case (Cons now ts)
  show ?case
  proof (cases "pw_lockedUntil pw > now")
    case True
    then have "snd (record_failure p now pw) = pw\<lparr>pw_failed := pw_failed pw + 1, pw_lastFailure := now\<rparr>"
      "pw_lockedUntil pw \<noteq> zero_time"
      using Cons.prems(2) by (auto simp: record_failure_def fail_decay_def Let_def)
    moreover have "timed p t ts" using Cons.prems(2) by simp
    ultimately show ?thesis
      using Cons.IH [of "pw\<lparr>pw_failed := pw_failed pw + 1, pw_lastFailure := now\<rparr>"] Cons.prems True
      by (simp add: counter_ok_def open_at_def)
  next
    case False
    let ?pw = "fail_decay p now pw"
    have d: "pw_lockedUntil ?pw = zero_time" "0 \<le> pw_failed ?pw" "pw_failed ?pw < lp_Threshold p"
      using False Cons.prems(1,3) by (auto simp: fail_decay_def counter_ok_def policy_ok_def)
    have again: "fail_decay p now ?pw = ?pw" by (auto simp: fail_decay_def)
    have "open_guesses p (now # ts) pw = open_guesses p (now # ts) ?pw"
      using False d(1) again Cons.prems(2) by (simp add: open_at_def record_failure_def Let_def)
    also have "\<dots> \<le> lp_Threshold p - pw_failed ?pw"
      by (rule counted_failure [OF Cons.prems(1,2) d again]) (use Cons.prems window_open in auto)
    finally show ?thesis using d(2) by simp
  qed
qed

lemma counter_ok_new: "policy_ok p \<Longrightarrow> counter_ok p (new_password phc at must)"
  by (simp add: counter_ok_def new_password_def policy_ok_def)

lemma counter_ok_step: "policy_ok p \<Longrightarrow> zero_time \<le> now \<Longrightarrow> whole (now - zero_time) \<Longrightarrow> counter_ok p pw \<Longrightarrow>
    counter_ok p (snd (record_failure p now pw))"
  using lock_set [of now p] by (auto simp: counter_ok_def record_failure_def fail_decay_def Let_def policy_ok_def)

section \<open>On the store\<close>

text \<open>Failures recorded one after the other for a subject, with the number that found it unlocked.\<close>

fun failures :: "lockout_policy \<Rightarrow> subject \<Rightarrow> instant list \<Rightarrow> id_store \<Rightarrow> int" where
  "failures p sub [] s = 0"
| "failures p sub (clk # clks) s =
     (case identity_GetPassword None sub s of
        (Ok pc, _) \<Rightarrow> if pc_LockedUntil pc > identity_now clk then 0 else 1
      | _ \<Rightarrow> 0) +
     failures p sub clks (snd (identity_RecordPasswordFailure None clk sub p s))"

lemma failures_open:
  assumes "map_of (is_accounts s) sub = Some a" "a_password a = Some pw" "policy_ok p"
  shows "failures p sub clks s = open_guesses p (map identity_now clks) pw"
  using assms
proof (induction clks arbitrary: s a pw)
  case (Cons clk clks)
  let ?pw' = "snd (record_failure p (identity_now clk) pw)"
  have "snd (identity_RecordPasswordFailure None clk sub p s) = put_account sub (a\<lparr>a_password := Some ?pw'\<rparr>) s"
    using Cons.prems by (cases "record_failure p (identity_now clk) pw")
      (simp add: identity_RecordPasswordFailure_def identity_existing_def checkPolicy_def policy_ok_def)
  moreover have "failures p sub clks (put_account sub (a\<lparr>a_password := Some ?pw'\<rparr>) s) =
      open_guesses p (map identity_now clks) ?pw'"
    using Cons.IH [of "put_account sub (a\<lparr>a_password := Some ?pw'\<rparr>) s" "a\<lparr>a_password := Some ?pw'\<rparr>" ?pw'] Cons.prems(3)
    by (simp add: put_account_def)
  ultimately show ?case
    using Cons.prems by (simp add: identity_GetPassword_def identity_existing_def open_at_def)
qed simp

lemma now_whole: "zero_time \<le> clk \<Longrightarrow> whole (identity_now clk - zero_time) \<and> zero_time \<le> identity_now clk"
proof -
  assume "zero_time \<le> clk"
  moreover have "0 < Microsecond" by (simp add: Microsecond_def)
  ultimately show ?thesis
    by (auto simp: identity_now_def id_instant_def whole_def time_Truncate_alt pos_imp_zdiv_nonneg_iff)
qed

lemma now_mono: "a \<le> b \<Longrightarrow> zero_time \<le> a \<Longrightarrow> identity_now a \<le> identity_now b"
  using time_Truncate_mono [of Microsecond a b] time_Truncate_mono [of Microsecond zero_time b]
  by (auto simp: identity_now_def id_instant_def Microsecond_def time_Truncate_def)

text \<open>
  C19. The lockout bounds guessing. Let a credential have been reached by its counters (a new password, or
  any sequence of recorded failures under the policy). Among the failures recorded at clock readings that
  fall within one window of the policy, in any number and at any spacing, at most \<open>Threshold\<close> find the
  credential unlocked; every other one finds \<open>LockedUntil\<close> in the future. The window is a whole number of
  microseconds, the precision the store keeps.
\<close>

theorem lockout_bounds_guesses:
  assumes "map_of (is_accounts s) sub = Some a" "a_password a = Some pw" "counter_ok p pw" "policy_ok p"
    and "sorted clks" "\<And>c. c \<in> set clks \<Longrightarrow> zero_time \<le> c \<and> t \<le> identity_now c \<and> identity_now c < t + lp_Window p"
  shows "failures p sub clks s \<le> lp_Threshold p"
proof -
  have "sorted (map identity_now clks)"
    using assms(5,6) by (induction clks) (auto simp: now_mono)
  then have "timed p t (map identity_now clks)" using assms(6) now_whole by (auto simp: timed_def)
  then show ?thesis using failures_open [OF assms(1,2,4)] open_guesses_bounded [OF assms(4) _ assms(3)] by simp
qed

section \<open>A concrete account\<close>

definition demo_tenant :: tenant_id where "demo_tenant = TenantID ''acme''"
definition demo_sub :: subject where "demo_sub = \<lparr>s_tenant = demo_tenant, s_user = 1\<rparr>"
definition demo_email :: ident where "demo_email = \<lparr>i_kind = IdentifierEmail, i_value = ''a@b.c''\<rparr>"

definition demo_account :: account where
  "demo_account =
     \<lparr>a_user = \<lparr>u_Subject = demo_sub, u_Email = demo_email, u_EmailVerifiedAt = 1000, u_Phone = zero_identifier,
        u_PhoneVerifiedAt = zero_time, u_RecoveryEmail = zero_identifier, u_RecoveryEmailVerifiedAt = zero_time,
        u_DisabledAt = zero_time, u_DeletedAt = zero_time, u_MustChange = False, u_SecurityEpoch = 0, u_CreatedAt = 1000\<rparr>,
      a_password = Some (new_password (NewPasswordHash ''$h'') 1000 False), a_links = []\<rparr>"

definition demo_id_store :: id_store where
  "demo_id_store = identity_New\<lparr>is_accounts := [(demo_sub, demo_account)]\<rparr>"

theorem lockout_bounds_guesses_witness:
  "failures \<lparr>lp_Threshold = 3, lp_Window = 5000\<rparr> demo_sub [10000, 11000, 11000, 12500, 14000] demo_id_store \<le> 3"
proof -
  have m: "0 < Microsecond" "Microsecond = 1000" by (simp_all add: Microsecond_def)
  have "failures \<lparr>lp_Threshold = 3, lp_Window = 5000\<rparr> demo_sub [10000, 11000, 11000, 12500, 14000] demo_id_store
      \<le> lp_Threshold \<lparr>lp_Threshold = 3, lp_Window = 5000\<rparr>"
  proof (rule lockout_bounds_guesses [where a = demo_account and pw = "new_password (NewPasswordHash ''$h'') 1000 False" and t = 10000])
    show "map_of (is_accounts demo_id_store) demo_sub = Some demo_account" by (simp add: demo_id_store_def)
    show "a_password demo_account = Some (new_password (NewPasswordHash ''$h'') 1000 False)" by (simp add: demo_account_def)
    show p: "policy_ok \<lparr>lp_Threshold = 3, lp_Window = 5000\<rparr>" by (simp add: policy_ok_def whole_def m)
    show "counter_ok \<lparr>lp_Threshold = 3, lp_Window = 5000\<rparr> (new_password (NewPasswordHash ''$h'') 1000 False)"
      by (rule counter_ok_new [OF p])
    fix c :: int
    assume "c \<in> set [10000, 11000, 11000, 12500, 14000]"
    then show "zero_time \<le> c \<and> 10000 \<le> identity_now c \<and> identity_now c < 10000 + lp_Window \<lparr>lp_Threshold = 3, lp_Window = 5000\<rparr>"
      by (auto simp: identity_now_def id_instant_def time_Truncate_def m zero_time_def)
  qed simp
  then show ?thesis by simp
qed

end
