(* ===== verification/Identity_Properties.thy ===== *)
theory Identity_Properties
  imports Identity_Ops Identity_Lockout
begin

text \<open>The guarantees of the account store, stated for every store a run of its methods can reach.\<close>

section \<open>Supporting facts\<close>

lemma owner_exact:
  assumes "id_inv s" "i_kind i = IdentifierEmail \<or> i_kind i = IdentifierPhone"
  shows "identity_owner t i uuid_Nil s = Some a \<longleftrightarrow>
    (\<exists>k. map_of (is_accounts s) k = Some a \<and> s_tenant k = t \<and> acct_live a \<and>
       (if i_kind i = IdentifierEmail then u_Email (a_user a) = i else u_Phone (a_user a) = i))"
proof -
  have wf: "wf_map (is_accounts s)" and M: "accounts_ok (map_of (is_accounts s))" using assms(1) by (auto simp: id_inv_def)
  have owns: "owns t i uuid_Nil k b \<longleftrightarrow> s_tenant k = t \<and> acct_live b \<and>
      (if i_kind i = IdentifierEmail then u_Email (a_user b) = i else u_Phone (a_user b) = i)"
    if "map_of (is_accounts s) k = Some b" for k b
  proof -
    have "s_user k \<noteq> uuid_Nil" using M that by (auto simp: accounts_ok_def acct_ok_def)
    then show ?thesis using assms(2) by (auto simp: owns_def acct_live_def)
  qed
  show ?thesis
  proof
    assume "identity_owner t i uuid_Nil s = Some a"
    then obtain k where "(k, a) \<in> set (is_accounts s)" "owns t i uuid_Nil k a"
      by (auto simp: identity_owner_def dest: find_SomeD)
    then show "\<exists>k. map_of (is_accounts s) k = Some a \<and> s_tenant k = t \<and> acct_live a \<and>
       (if i_kind i = IdentifierEmail then u_Email (a_user a) = i else u_Phone (a_user a) = i)"
      using owns map_of_is_SomeI [OF wf] by blast
  next
    assume "\<exists>k. map_of (is_accounts s) k = Some a \<and> s_tenant k = t \<and> acct_live a \<and>
       (if i_kind i = IdentifierEmail then u_Email (a_user a) = i else u_Phone (a_user a) = i)"
    then obtain k where k: "map_of (is_accounts s) k = Some a" "owns t i uuid_Nil k a" using owns by blast
    then obtain b where b: "identity_owner t i uuid_Nil s = Some b"
      using owner_None [of t i uuid_Nil s k a] by (cases "identity_owner t i uuid_Nil s") auto
    then obtain k' where k': "map_of (is_accounts s) k' = Some b" "owns t i uuid_Nil k' b"
      using map_of_is_SomeI [OF wf] by (auto simp: identity_owner_def dest!: find_SomeD)
    have "k' = k"
    proof (rule ccontr)
      assume "k' \<noteq> k"
      moreover have "s_tenant k' = s_tenant k" using owns k k' by simp
      ultimately have "acct_compat a b" using M k(1) k'(1) by (auto simp: accounts_ok_def)
      moreover have "identifier_IsZero i \<longrightarrow> False" using assms(2) by (auto simp: identifier_IsZero_def identifier_kind_defs)
      ultimately show False
        using owns [OF k(1)] owns [OF k'(1)] k(2) k'(2) by (auto simp: acct_compat_def split: if_splits)
    qed
    then show "identity_owner t i uuid_Nil s = Some a" using b k(1) k'(1) by simp
  qed
qed

lemma numbered_fields:
  "map o_Component (numbered q now its) = map o_Component its"
  "it \<in> set (numbered q now its) \<Longrightarrow> \<exists>it0 \<in> set its. \<exists>i. it = it0\<lparr>o_ID := i, o_NextAttemptAt := now, o_CreatedAt := now\<rparr>"
  by (induction its arbitrary: q) auto

lemma numbered_ids: "map o_ID (numbered q now its) = [q + 1 .. q + int (length its)]"
proof (induction its arbitrary: q)
  case (Cons it its)
  then show ?case by (simp add: upto_rec1 algebra_simps)
qed simp

lemma OutboxFor_fields:
  "map o_Component (OutboxFor m s old) = (if ef_Event (EffectsOf m) = 0 then [] else Components)"
  "it \<in> set (OutboxFor m s old) \<Longrightarrow> o_Subject it = s \<and> o_Event it = ef_Event (EffectsOf m)"
proof -
  have "o_Subject (outbox_fields m old t) = o_Subject t \<and> o_Event (outbox_fields m old t) = o_Event t" for t
    by (cases m) simp_all
  then show "it \<in> set (OutboxFor m s old) \<Longrightarrow> o_Subject it = s \<and> o_Event it = ef_Event (EffectsOf m)"
    by (auto simp: OutboxFor_def Let_def outbox_blank_def split: if_splits)
qed (simp add: OutboxFor_def Let_def comp_def)

text \<open>No step of the transaction panics.\<close>

lemma tx_step_Panic: "tx_step cx n r = Panic \<longleftrightarrow> cx n = None \<and> r = Panic"
  by (auto simp: tx_step_def split: option.splits)

lemma checkFederated_no_panic: "checkFederatedKey p q \<noteq> Panic" "checkFederated f \<noteq> Panic"
  by (auto simp: checkFederated_def checkFederatedKey_def split: result.splits)

lemma validate_no_panic: "mutation_validate m \<noteq> Panic"
  by (cases m) (auto simp: no_subject_def checkFederated_no_panic)

lemma link_no_panic: "tx_link f s tx \<noteq> Panic"
  by (auto simp: tx_link_def tx_rebind_def Let_def split: option.splits)

lemma change_no_panic: "tx_change m s tx \<noteq> Panic"
  by (cases m) (auto simp: tx_change_def Let_def result_bind_Panic link_no_panic split: option.splits)

lemma queue_no_panic: "tx_queue cx n its items tx \<noteq> Panic"
  by (induction its arbitrary: n items tx) (auto simp: tx_step_Panic Let_def)

lemma mutate_Panic: "tx_mutate cx now newid m s = Panic \<Longrightarrow> newid = Panic"
  by (cases m)
    (auto simp: tx_mutate_def tx_create_def tx_load_def result_bind_Panic tx_step_Panic change_no_panic link_no_panic Let_def
      split: if_splits option.splits result.splits)

lemma Apply_Panic:
  assumes "identity_Apply cx clk newid m s = (Panic, s')"
  shows "newid = Panic"
proof -
  have "reserved m \<noteq> Panic" by (auto simp: reserved_def Let_def split: mutation.splits)
  moreover have "identity_Validate m \<noteq> Panic"
    using validate_no_panic [of m] by (auto simp: identity_Validate_def split: result.splits)
  moreover have "tx_effects cx m old tx \<noteq> Panic" for old tx
    by (auto simp: tx_effects_def Let_def result_bind_Panic tx_step_Panic queue_no_panic split: prod.splits)
  ultimately show ?thesis
    using assms mutate_Panic unfolding identity_Apply_def Let_def
    by (auto simp: result_bind_Panic tx_step_Panic split: result.splits prod.splits)
qed

section \<open>Identifiers have one owner\<close>

text \<open>
  C20. Identifiers have one owner. In every store a run of its methods can reach, two live accounts of one
  tenant never share an email or a phone, and no two accounts of a tenant, deleted or not, hold the same
  provider account; every account is filed under its own subject.
\<close>

theorem identity_identifiers_unique:
  assumes "id_step\<^sup>*\<^sup>* identity_New s" "map_of (is_accounts s) k = Some a" "map_of (is_accounts s) k' = Some b"
    and "s_tenant k = s_tenant k'"
  shows "u_Subject (a_user a) = k \<and>
    (acct_live a \<and> acct_live b \<and>
       (u_Email (a_user a) = u_Email (a_user b) \<or>
        u_Phone (a_user a) = u_Phone (a_user b) \<and> \<not> identifier_IsZero (u_Phone (a_user a))) \<longrightarrow> k = k') \<and>
    (set (link_keys a) \<inter> set (link_keys b) \<noteq> {} \<longrightarrow> k = k')"
proof -
  have "accounts_ok (map_of (is_accounts s))"
    using id_run_inv [OF assms(1) id_inv_New] by (simp add: id_inv_def)
  then have "acct_ok k a" "k \<noteq> k' \<longrightarrow> acct_compat a b" using assms(2-4) by (auto simp: accounts_ok_def)
  then show ?thesis by (auto simp: acct_ok_def acct_compat_def)
qed

section \<open>Lookups are exact\<close>

definition holds :: "id_store \<Rightarrow> tenant_id \<Rightarrow> ident \<Rightarrow> subject \<Rightarrow> account \<Rightarrow> bool" where
  "holds s t i k a \<longleftrightarrow>
     map_of (is_accounts s) k = Some a \<and> s_tenant k = t \<and> acct_live a \<and>
     (if i_kind i = IdentifierEmail then u_Email (a_user a) = i else u_Phone (a_user a) = i)"

text \<open>
  C21. \<^verbatim>\<open>FindUser\<close> is exact. In every reachable store, for an email or a phone, it returns the view of the one
  live account of the tenant that holds it, and \<open>ErrNotFound\<close> exactly when no live account does; it changes
  nothing.
\<close>

theorem identity_find_exact:
  assumes "id_step\<^sup>*\<^sup>* identity_New s" "i_kind i = IdentifierEmail \<or> i_kind i = IdentifierPhone"
  shows "case identity_FindUser None t i s of
      (Ok u, s') \<Rightarrow> s' = s \<and> (\<exists>k a. holds s t i k a \<and> u = account_view a \<and> (\<forall>k' b. holds s t i k' b \<longrightarrow> b = a))
    | (Err e, s') \<Rightarrow> s' = s \<and> e = [StoreErr ErrNotFound] \<and> (\<forall>k a. \<not> holds s t i k a)
    | (Panic, s') \<Rightarrow> False"
proof -
  have ex: "identity_owner t i uuid_Nil s = Some a \<longleftrightarrow> (\<exists>k. holds s t i k a)" for a
    using owner_exact [OF id_run_inv [OF assms(1) id_inv_New] assms(2)] by (simp add: holds_def)
  show ?thesis
  proof (cases "identity_owner t i uuid_Nil s")
    case None
    then have "identity_FindUser None t i s = (Err [StoreErr ErrNotFound], s)"
      using assms(2) by (auto simp: identity_FindUser_def)
    moreover have "\<forall>k a. \<not> holds s t i k a" using None ex by (metis option.distinct(1))
    ultimately show ?thesis by simp
  next
    case (Some a)
    then have only: "\<forall>k b. holds s t i k b \<longrightarrow> b = a" using ex by (metis option.inject)
    obtain k where k: "holds s t i k a" using Some ex by blast
    have fu: "identity_FindUser None t i s = (Ok (account_view a), s)"
      using Some assms(2) by (auto simp: identity_FindUser_def)
    show ?thesis unfolding fu prod.case result.case using only k by blast
  qed
qed

section \<open>Apply\<close>

text \<open>The rest of the store is untouched: another account changes only by losing links after its deletion.\<close>

definition others_kept :: "subject \<Rightarrow> id_store \<Rightarrow> id_store \<Rightarrow> bool" where
  "others_kept k s s' \<longleftrightarrow>
     (\<forall>k' a. k' \<noteq> k \<longrightarrow> map_of (is_accounts s) k' = Some a \<longrightarrow>
        (\<exists>ls. map_of (is_accounts s') k' = Some (a\<lparr>a_links := ls\<rparr>) \<and> set ls \<subseteq> set (a_links a) \<and>
              (acct_live a \<longrightarrow> ls = a_links a))) \<and>
     (\<forall>k'. k' \<noteq> k \<longrightarrow> map_of (is_accounts s) k' = None \<longrightarrow> map_of (is_accounts s') k' = None)"

lemma committed_others:
  assumes "tx_fits s tx" "map_of (is_accounts s') = (tables s tx)(tx_subject tx \<mapsto> a')"
  shows "others_kept (tx_subject tx) s s'"
proof (cases "tx_evicted tx")
  case None
  then show ?thesis
    using assms(2) by (auto simp: others_kept_def tables_def intro!: exI [where x = "a_links a" for a])
next
  case (Some e)
  then obtain k a P where e: "k \<noteq> tx_subject tx" "map_of (is_accounts s) k = Some a" "u_Subject (a_user e) = k"
    "e = a\<lparr>a_links := filter P (a_links a)\<rparr>" "\<not> acct_live a"
    using assms(1) by (fastforce simp: tx_fits_def evicts_def)
  have "\<exists>ls. map_of (is_accounts s') k' = Some (b\<lparr>a_links := ls\<rparr>) \<and> set ls \<subseteq> set (a_links b) \<and> (acct_live b \<longrightarrow> ls = a_links b)"
    if "k' \<noteq> tx_subject tx" "map_of (is_accounts s) k' = Some b" for k' b
  proof (cases "k' = k")
    case True
    then show ?thesis using that assms(2) Some e by (intro exI [of _ "filter P (a_links a)"]) (simp add: tables_def)
  next
    case False
    then show ?thesis using that assms(2) Some e(3) by (intro exI [of _ "a_links b"]) (simp add: tables_def)
  qed
  then show ?thesis using assms(2) Some e(2,3) by (auto simp: others_kept_def tables_def)
qed

definition epoch_of :: "id_store \<Rightarrow> subject \<Rightarrow> u64" where
  "epoch_of s k = (case map_of (is_accounts s) k of None \<Rightarrow> 0 | Some a \<Rightarrow> u_SecurityEpoch (a_user a))"

text \<open>What a successful \<^verbatim>\<open>Apply\<close> of \<open>m\<close> at \<open>now\<close> must have written.\<close>

definition applied_exactly :: "instant \<Rightarrow> mutation \<Rightarrow> applied \<Rightarrow> id_store \<Rightarrow> id_store \<Rightarrow> bool" where
  "applied_exactly now m ap s s' \<longleftrightarrow>
     (let k = ap_Subject ap; fx = EffectsOf m in
      map_of (is_accounts s') k \<noteq> None \<and> epoch_of s' k = ap_NewEpoch ap \<and>
      ap_NewEpoch ap = epoch_of s k + (if ef_BumpsEpoch fx then 1 else 0) \<and>
      is_epochs s' = is_epochs s @
        (if ef_BumpsEpoch fx
         then [\<lparr>er_seq = is_epochSeq s + 1,
                er_change = \<lparr>ec_Subject = k, ec_NewEpoch = ap_NewEpoch ap, ec_Reason = ef_Event fx\<rparr>, er_at = now\<rparr>]
         else []) \<and>
      is_outbox s' = is_outbox s @ map fresh_row (ap_Outbox ap) \<and>
      map o_Component (ap_Outbox ap) = (if ef_Event fx = 0 then [] else Components) \<and>
      map o_ID (ap_Outbox ap) = [is_outboxSeq s + 1 .. is_outboxSeq s'] \<and>
      list_all (\<lambda>it. o_Subject it = k \<and> o_Event it = ef_Event fx \<and> o_NextAttemptAt it = now) (ap_Outbox ap) \<and>
      others_kept k s s')"

lemma apply_exact:
  assumes inv: "id_inv s" and fresh: "fresh_id newid m s"
  shows "case identity_Apply cx clk newid m s of
      (Ok ap, s') \<Rightarrow> applied_exactly (identity_now clk) m ap s s'
    | (Err e, s') \<Rightarrow> s' = s
    | (Panic, s') \<Rightarrow> newid = Panic"
proof (cases "identity_Apply cx clk newid m s")
  case (Pair r s')
  show ?thesis
  proof (cases r)
    case (Ok ap)
    from Apply_committed [OF inv assms(2), of cx clk ap s'] Pair Ok obtain old tx where c:
      "tx_fits s tx" "tx_clean (identity_now clk) s tx" "ap_Subject ap = tx_subject tx"
      "ap_NewEpoch ap = u_SecurityEpoch (a_user (tx_acc (bumped m tx)))"
      "ap_Outbox ap = numbered (is_outboxSeq s) (identity_now clk) (OutboxFor m (tx_subject tx) old)"
      "is_epochs s' = is_epochs s @ epoch_rows m tx" "is_outbox s' = is_outbox s @ map fresh_row (ap_Outbox ap)"
      "is_outboxSeq s' = is_outboxSeq s + int (length (ap_Outbox ap))"
      "map_of (is_accounts s') = (tables s tx)(tx_subject tx \<mapsto> tx_acc (bumped m tx))" by metis
    have rows: "list_all (\<lambda>it. o_Subject it = tx_subject tx \<and> o_Event it = ef_Event (EffectsOf m) \<and>
        o_NextAttemptAt it = identity_now clk) (ap_Outbox ap)"
      unfolding c(5) list_all_iff using numbered_fields(2) OutboxFor_fields(2) by fastforce
    have ep: "u_SecurityEpoch (a_user (tx_acc tx)) = epoch_of s (tx_subject tx)"
      using c(2) by (simp add: tx_clean_def epoch_of_def)
    show ?thesis
      unfolding Pair Ok applied_exactly_def Let_def prod.case result.case
    proof (intro conjI)
      show "map o_ID (ap_Outbox ap) = [is_outboxSeq s + 1 .. is_outboxSeq s']"
        using c(5,8) numbered_ids by simp
      show "map o_Component (ap_Outbox ap) = (if ef_Event (EffectsOf m) = 0 then [] else Components)"
        using c(5) numbered_fields(1) OutboxFor_fields(1) by metis
      show "others_kept (ap_Subject ap) s s'" using committed_others [OF c(1,9)] c(3) by simp
    qed (use c(2-4,6,7,9) ep rows in \<open>simp_all add: epoch_of_def epoch_rows_def bumped_acc tx_clean_def\<close>)
  next
    case (Err e)
    then show ?thesis using Pair Apply_fails by auto
  next
    case Panic
    then show ?thesis using Pair Apply_Panic by auto
  qed
qed

text \<open>
  C22. \<^verbatim>\<open>Apply\<close> is all or nothing. On any error, at whatever point of the transaction the context is
  cancelled, the store is unchanged. On success the subject's epoch moves by exactly the declared bump,
  the epoch log gains exactly one row for a bump, the outbox gains exactly one row per component, numbered
  consecutively and due at once, when the mutation queues an event, and no other account changes except a
  deleted one that loses a link claimed by a live account.
\<close>

theorem identity_apply_exact:
  assumes "id_step\<^sup>*\<^sup>* identity_New s" "fresh_id newid m s"
  shows "case identity_Apply cx clk newid m s of
      (Ok ap, s') \<Rightarrow> applied_exactly (identity_now clk) m ap s s'
    | (Err e, s') \<Rightarrow> s' = s
    | (Panic, s') \<Rightarrow> newid = Panic"
  by (rule apply_exact [OF id_run_inv [OF assms(1) id_inv_New] assms(2)])

text \<open>
  C23. First proof of an email wipes what was set before it. In every store that satisfies the invariant, a successful \<open>MarkEmailVerified\<close> finds a live
  account whose email was unverified and leaves it with no federated link and with no password but the one
  it brings, its lockout and forced change cleared, the epoch bumped and every other field as it was; on a
  clock past the zero time, no later \<open>MarkEmailVerified\<close> on the result succeeds.
\<close>

theorem mark_email_verified_wipes:
  assumes "id_inv s" "identity_Apply cx clk newid (MarkEmailVerified sub phc) s = (Ok ap, s')"
    and "zero_time < identity_now clk"
  shows "\<exists>a. map_of (is_accounts s) sub = Some a \<and> acct_live a \<and> u_EmailVerifiedAt (a_user a) = zero_time \<and>
    map_of (is_accounts s') sub = Some
      \<lparr>a_user = (a_user a)\<lparr>u_EmailVerifiedAt := identity_now clk, u_SecurityEpoch := u_SecurityEpoch (a_user a) + 1\<rparr>,
       a_password = (if hash_IsZero phc then None else Some (new_password phc (identity_now clk) False)), a_links = []\<rparr> \<and>
    (\<forall>cx' clk' newid' phc' ap' s''. identity_Apply cx' clk' newid' (MarkEmailVerified sub phc') s' \<noteq> (Ok ap', s''))"
proof -
  let ?m = "MarkEmailVerified sub phc"
  have fresh: "fresh_id newid ?m s" by (simp add: fresh_id_def)
  from Apply_committed [OF assms(1) fresh assms(2)] obtain old tx where c:
    "tx_mutate cx (identity_now clk) newid ?m s = Ok (old, tx)"
    "map_of (is_accounts s') = (tables s tx)(tx_subject tx \<mapsto> tx_acc (bumped ?m tx))" by metis
  from tx_mutate_load [OF _ c(1)] obtain a where a: "map_of (is_accounts s) sub = Some a" "acct_live a"
    "tx_change ?m s (tx_begin (identity_now clk) sub a s) = Ok (old, tx)" by auto
  then have u: "u_EmailVerifiedAt (a_user a) = zero_time" and tx: "tx_subject tx = sub"
    "tx_acc tx = a\<lparr>a_user := (a_user a)\<lparr>u_EmailVerifiedAt := identity_now clk\<rparr>, a_links := [],
        a_password := (if \<not> hash_IsZero phc then Some (new_password phc (identity_now clk) False) else None)\<rparr>"
    by (auto simp: tx_change_def Let_def tx_begin_def split: if_splits)
  have new: "map_of (is_accounts s') sub = Some
      \<lparr>a_user = (a_user a)\<lparr>u_EmailVerifiedAt := identity_now clk, u_SecurityEpoch := u_SecurityEpoch (a_user a) + 1\<rparr>,
       a_password = (if hash_IsZero phc then None else Some (new_password phc (identity_now clk) False)), a_links = []\<rparr>"
    unfolding c(2) tx(1) bumped_acc tx(2) by (cases a) simp
  have "identity_Apply cx' clk' newid' (MarkEmailVerified sub phc') s' \<noteq> (Ok ap', s'')" for cx' clk' newid' phc' ap' s''
  proof
    assume "identity_Apply cx' clk' newid' (MarkEmailVerified sub phc') s' = (Ok ap', s'')"
    then obtain old' tx' where "tx_mutate cx' (identity_now clk') newid' (MarkEmailVerified sub phc') s' = Ok (old', tx')"
      by (elim Apply_Ok)
    from tx_mutate_load [OF _ this] obtain b where "map_of (is_accounts s') sub = Some b"
      "tx_change (MarkEmailVerified sub phc') s' (tx_begin (identity_now clk') sub b s') = Ok (old', tx')" by auto
    then have "u_EmailVerifiedAt (a_user b) = zero_time" "map_of (is_accounts s') sub = Some b"
      by (auto simp: tx_change_def Let_def tx_begin_def split: if_splits)
    then show False using new assms(3) by auto
  qed
  then show ?thesis using a(1,2) u new by blast
qed

section \<open>Outbox\<close>

lemma due_rows_eq:
  "due_rows limit now rs out = out @ take (nat (limit - int (length out)))
     (map or_item (filter (\<lambda>r. or_done r = zero_time \<and> \<not> o_NextAttemptAt (or_item r) > now) rs))"
proof (induction rs arbitrary: out)
  case (Cons r rs)
  have "nat (limit - int (length out)) = Suc (nat (limit - int (length (out @ [or_item r]))))" if "int (length out) < limit"
    using that by simp
  then show ?case using Cons by (cases "int (length out) < limit") (auto simp del: length_append)
qed simp

lemma row_updated:
  assumes "r \<in> set os" "n < length os" "row_key r' = row_key (os ! n)"
  shows "\<exists>q \<in> set (os[n := r']). row_key q = row_key r \<and> (q = r \<or> r = os ! n \<and> q = r')"
proof -
  have "r \<in> set (os[n := r']) \<or> r = os ! n \<and> r' \<in> set (os[n := r'])"
    using assms by (metis in_set_conv_nth length_list_update nth_list_update_eq nth_list_update_neq)
  then show ?thesis using assms(3) by metis
qed

lemma pending_kept:
  assumes inv: "id_inv s" and fresh: "op_fresh op s" and r: "r \<in> set (is_outbox s)" "or_done r = zero_time"
  shows "(\<exists>r' \<in> set (is_outbox (id_exec op clk s)). row_key r' = row_key r \<and>
      (or_done r' = zero_time \<or> op = OpAck None (o_ID (or_item r)))) \<or>
    op = OpEraseTenant None (s_tenant (o_Subject (or_item r)))"
proof (cases op)
  case (OpApply cx newid m)
  obtain res s' where a: "identity_Apply cx clk newid m s = (res, s')" by fastforce
  show ?thesis
  proof (cases res)
    case (Ok ap)
    with a have ok: "identity_Apply cx clk newid m s = (Ok ap, s')" by simp
    have "fresh_id newid m s" using fresh OpApply by simp
    then obtain its where "is_outbox s' = is_outbox s @ its" using Apply_committed [OF inv _ ok] by metis
    then have "r \<in> set (is_outbox (id_exec op clk s))" using r(1) a OpApply by simp
    then show ?thesis using r(2) by blast
  next
    case (Err e)
    then have "s' = s" using Apply_fails a by blast
    then show ?thesis using a OpApply r by auto
  next
    case Panic
    then have "s' = s" using a by (auto simp: identity_Apply_def Let_def split: result.splits prod.splits)
    then show ?thesis using a OpApply r by auto
  qed
next
  case (OpEraseTenant ctx t)
  then show ?thesis using r by (cases ctx) (auto simp: identity_EraseTenant_def)
next
  case (OpReap ctx)
  then show ?thesis using r Reap_eq [of ctx clk s] by auto
next
  case (OpPasswordFailure ctx sub p)
  then show ?thesis using r PasswordFailure_effect [of ctx clk sub p s] by (auto simp: put_account_def)
next
  case (OpPasswordReset ctx sub)
  then show ?thesis using r PasswordReset_effect [of ctx sub s] by (auto simp: put_account_def)
next
  case (OpEraseUser ctx sub)
  then show ?thesis using r EraseUser_eq [of ctx sub s] by auto
next
  case (OpAck ctx i)
  show ?thesis
  proof (cases "snd (identity_AckOutbox ctx clk i s) = s")
    case False
    then obtain n where n: "identity_row i s = Some n" "ctx = None" and
      s': "snd (identity_AckOutbox ctx clk i s) =
        s\<lparr>is_outbox := (is_outbox s)[n := (is_outbox s ! n)\<lparr>or_done := identity_now clk\<rparr>]\<rparr>"
      by (cases ctx) (auto simp: identity_AckOutbox_def Let_def split: option.splits if_splits)
    have "row_key ((is_outbox s ! n)\<lparr>or_done := identity_now clk\<rparr>) = row_key (is_outbox s ! n)" by (simp add: row_key_def)
    from row_updated [OF r(1) _ this] identity_row_Some [OF n(1)] obtain q where
      "q \<in> set (is_outbox (id_exec op clk s))" "row_key q = row_key r" "q = r \<or> o_ID (or_item r) = i"
      using s' OpAck by auto
    then show ?thesis using r(2) OpAck n(2) by blast
  qed (use r OpAck in auto)
next
  case (OpFailOutbox ctx i nx)
  show ?thesis
  proof (cases "snd (identity_FailOutbox ctx i nx s) = s")
    case False
    let ?f = "\<lambda>q. q\<lparr>or_item := (or_item q)\<lparr>o_Attempts := o_Attempts (or_item q) + 1, o_NextAttemptAt := id_instant nx\<rparr>\<rparr>"
    from False obtain n where n: "identity_row i s = Some n" and
      s': "snd (identity_FailOutbox ctx i nx s) = s\<lparr>is_outbox := (is_outbox s)[n := ?f (is_outbox s ! n)]\<rparr>"
      by (cases ctx) (auto simp: identity_FailOutbox_def Let_def split: option.splits if_splits)
    have "row_key (?f (is_outbox s ! n)) = row_key (is_outbox s ! n)" by (simp add: row_key_def)
    from row_updated [OF r(1) _ this] identity_row_Some [OF n] obtain q where
      "q \<in> set (is_outbox (id_exec op clk s))" "row_key q = row_key r" "q = r \<or> q = ?f r"
      using s' OpFailOutbox by auto
    then show ?thesis using r(2) by (auto intro: bexI [of _ q])
  qed (use r OpFailOutbox in auto)
qed

text \<open>
  C24. No queued effect is lost. In every reachable store a pending outbox row stays in the outbox with all
  its content, and pending, through every operation except its own acknowledgement, which keeps the row,
  and the erasure of its tenant; while a row of another component is pending, erasing its user leaves
  the account in place; and \<^verbatim>\<open>PendingOutbox\<close> returns exactly the first \<open>limit\<close> pending rows that are due,
  oldest first.
\<close>

theorem outbox_effects_kept:
  assumes "id_step\<^sup>*\<^sup>* identity_New s" "op_fresh op s" "r \<in> set (is_outbox s)" "or_done r = zero_time"
  shows "((\<exists>r' \<in> set (is_outbox (id_exec op clk s)). row_key r' = row_key r \<and>
        (or_done r' = zero_time \<or> op = OpAck None (o_ID (or_item r)))) \<or>
      op = OpEraseTenant None (s_tenant (o_Subject (or_item r)))) \<and>
    (o_Component (or_item r) \<noteq> ComponentIdentity \<longrightarrow>
       fst (identity_EraseUser None (o_Subject (or_item r)) s) \<noteq> Ok ()) \<and>
    identity_PendingOutbox None clk limit s =
      (Ok (take (nat limit) (map or_item (filter (\<lambda>r. or_done r = zero_time \<and>
         \<not> o_NextAttemptAt (or_item r) > identity_now clk) (is_outbox s)))), s)"
proof (intro conjI impI)
  show "(\<exists>r' \<in> set (is_outbox (id_exec op clk s)). row_key r' = row_key r \<and>
      (or_done r' = zero_time \<or> op = OpAck None (o_ID (or_item r)))) \<or>
    op = OpEraseTenant None (s_tenant (o_Subject (or_item r)))"
    using pending_kept [OF id_run_inv [OF assms(1) id_inv_New] assms(2-4)] .
  assume "o_Component (or_item r) \<noteq> ComponentIdentity"
  then show "fst (identity_EraseUser None (o_Subject (or_item r)) s) \<noteq> Ok ()" using assms(3,4)
    by (auto simp: identity_EraseUser_def identity_existing_def list_ex_iff split: option.splits if_splits)
qed (simp add: identity_PendingOutbox_def due_rows_eq)

section \<open>A concrete run\<close>

lemma tx_queue_total: "(\<And>n. cx n = None) \<Longrightarrow> \<exists>items' tx'. tx_queue cx n its items tx = Ok (items', tx')"
  by (induction its arbitrary: n items tx) (auto simp: tx_step_def Let_def)

text \<open>Without a cancellation, a transaction whose mutation goes through commits.\<close>

lemma Apply_total:
  assumes cx: "\<And>n. cx n = None" and "mutation_validate m = Ok ()" "reserved m = Ok ()"
    and mut: "tx_mutate cx (identity_now clk) newid m s = Ok (old, tx)"
  shows "\<exists>ap s'. identity_Apply cx clk newid m s = (Ok ap, s')"
proof -
  have "\<exists>ap tx'. tx_effects cx m old tx = Ok (ap, tx')"
  proof -
    have "\<exists>tx1. (if ef_BumpsEpoch (EffectsOf m) then tx_step cx 3 (Ok (tx_bump (ef_Event (EffectsOf m)) tx)) else Ok tx) = Ok tx1"
      using cx by simp
    then obtain tx1 where 1: "(if ef_BumpsEpoch (EffectsOf m) then tx_step cx 3 (Ok (tx_bump (ef_Event (EffectsOf m)) tx)) else Ok tx) = Ok tx1" ..
    obtain its tx2 where "tx_queue cx 4 (OutboxFor m (tx_subject tx1) old) [] tx1 = Ok (its, tx2)"
      using tx_queue_total cx by blast
    with 1 show ?thesis unfolding tx_effects_def Let_def by auto
  qed
  then obtain ap tx' where "tx_effects cx m old tx = Ok (ap, tx')" by blast
  then show ?thesis
    using assms by (simp add: identity_Apply_def Let_def identity_Validate_def result_bind_def tx_step_def)
qed

definition demo_sub2 :: subject where "demo_sub2 = \<lparr>s_tenant = demo_tenant, s_user = 2\<rparr>"
definition demo_email2 :: ident where "demo_email2 = \<lparr>i_kind = IdentifierEmail, i_value = ''x@y.z''\<rparr>"

definition demo_create :: "ident \<Rightarrow> mutation" where
  "demo_create e = CreateVerified demo_tenant e (NewPasswordHash ''$h'') False zero_federated"

definition demo_s1 :: id_store where
  "demo_s1 = id_exec (OpApply (\<lambda>_. None) (Ok 1) (demo_create demo_email)) 5000 identity_New"

definition demo_s2 :: id_store where
  "demo_s2 = id_exec (OpApply (\<lambda>_. None) (Ok 2) (demo_create demo_email2)) 7000 demo_s1"

definition demo_s3 :: id_store where
  "demo_s3 = id_exec (OpApply (\<lambda>_. None) Panic (Tombstone demo_sub)) 9000 demo_s2"

lemma demo_s1_none: "map_of (is_accounts demo_s1) \<lparr>s_tenant = demo_tenant, s_user = 2\<rparr> = None"
  by code_simp

lemma demo_accounts_reach: "id_step\<^sup>*\<^sup>* identity_New demo_s2"
proof -
  have "id_step identity_New demo_s1"
    unfolding demo_s1_def by (rule id_stepI) (simp add: fresh_id_def demo_create_def identity_New_def uuid_Nil_def)
  moreover have "id_step demo_s1 demo_s2"
    unfolding demo_s2_def using demo_s1_none by (intro id_stepI) (simp add: fresh_id_def demo_create_def uuid_Nil_def)
  ultimately show ?thesis by simp
qed

lemma demo_accounts_reach3: "id_step\<^sup>*\<^sup>* identity_New demo_s3"
proof -
  have "id_step demo_s2 demo_s3" unfolding demo_s3_def by (rule id_stepI) (simp add: fresh_id_def)
  with demo_accounts_reach show ?thesis by simp
qed

lemma demo_Some:
  "map_of (is_accounts demo_s2) demo_sub = Some (the (map_of (is_accounts demo_s2) demo_sub))"
  "map_of (is_accounts demo_s2) demo_sub2 = Some (the (map_of (is_accounts demo_s2) demo_sub2))"
  by code_simp+

theorem identity_identifiers_unique_witness:
  "\<exists>a b. map_of (is_accounts demo_s2) demo_sub = Some a \<and> map_of (is_accounts demo_s2) demo_sub2 = Some b \<and>
     u_Subject (a_user a) = demo_sub \<and> \<not> (acct_live a \<and> acct_live b \<and> u_Email (a_user a) = u_Email (a_user b))"
  using identity_identifiers_unique [OF demo_accounts_reach demo_Some] demo_Some by (auto simp: demo_sub_def demo_sub2_def)

theorem identity_find_exact_witness:
  "\<exists>u. identity_FindUser None demo_tenant demo_email2 demo_s2 = (Ok u, demo_s2) \<and> u_Subject u = demo_sub2"
proof -
  have "case identity_FindUser None demo_tenant demo_email2 demo_s2 of (Ok u, s') \<Rightarrow> u_Subject u = demo_sub2 | _ \<Rightarrow> False"
    by code_simp
  with identity_find_exact [OF demo_accounts_reach, of demo_email2 demo_tenant] show ?thesis
    by (auto simp: demo_email2_def split: prod.splits result.splits)
qed

lemma demo_tombstone:
  "\<exists>ap. identity_Apply (\<lambda>_. None) 9000 Panic (Tombstone demo_sub) demo_s2 = (Ok ap, demo_s3) \<and> ap_Subject ap = demo_sub"
proof -
  have "case tx_mutate (\<lambda>_. None) (identity_now 9000) Panic (Tombstone demo_sub) demo_s2 of Ok _ \<Rightarrow> True | _ \<Rightarrow> False"
    by code_simp
  then obtain old tx where "tx_mutate (\<lambda>_. None) (identity_now 9000) Panic (Tombstone demo_sub) demo_s2 = Ok (old, tx)"
    by (auto split: result.splits)
  moreover have "mutation_validate (Tombstone demo_sub) = Ok ()" "reserved (Tombstone demo_sub) = Ok ()" by code_simp+
  ultimately obtain ap s' where ok: "identity_Apply (\<lambda>_. None) 9000 Panic (Tombstone demo_sub) demo_s2 = (Ok ap, s')"
    using Apply_total [of "\<lambda>_. None"] by blast
  then have "s' = demo_s3" by (simp add: demo_s3_def)
  moreover have "ap_Subject ap = demo_sub"
  proof -
    have "fresh_id Panic (Tombstone demo_sub) demo_s2" by (simp add: fresh_id_def)
    from Apply_committed [OF id_run_inv [OF demo_accounts_reach id_inv_New] this ok] obtain old tx where
      "tx_mutate (\<lambda>_. None) (identity_now 9000) Panic (Tombstone demo_sub) demo_s2 = Ok (old, tx)" "ap_Subject ap = tx_subject tx"
      by metis
    moreover from this(1) obtain a where
      "tx_change (Tombstone demo_sub) demo_s2 (tx_begin (identity_now 9000) demo_sub a demo_s2) = Ok (old, tx)"
      by (rule tx_mutate_load [rotated]) simp_all
    ultimately show ?thesis by (auto simp: tx_change_def Let_def upd_user_def tx_begin_def)
  qed
  ultimately show ?thesis using ok by blast
qed

theorem identity_apply_exact_witness:
  "\<exists>ap. identity_Apply (\<lambda>_. None) 9000 Panic (Tombstone demo_sub) demo_s2 = (Ok ap, demo_s3) \<and>
     applied_exactly (identity_now 9000) (Tombstone demo_sub) ap demo_s2 demo_s3"
proof -
  have fresh: "fresh_id Panic (Tombstone demo_sub) demo_s2" by (simp add: fresh_id_def)
  show ?thesis
    using identity_apply_exact [OF demo_accounts_reach fresh, where cx = "\<lambda>_. None" and clk = 9000] demo_tombstone by auto
qed

definition demo_unverified :: id_store where
  "demo_unverified = demo_id_store\<lparr>is_accounts := [(demo_sub,
     demo_account\<lparr>a_user := (a_user demo_account)\<lparr>u_EmailVerifiedAt := zero_time\<rparr>\<rparr>)]\<rparr>"

lemma demo_unverified_inv: "id_inv demo_unverified"
  by (auto simp: id_inv_def demo_unverified_def demo_id_store_def identity_New_def accounts_ok_def acct_ok_def log_ok_def
      outbox_ok_def demo_account_def demo_sub_def uuid_Nil_def demo_email_def link_keys_def split: if_splits)

theorem mark_email_verified_wipes_witness:
  "\<exists>ap s' a'. identity_Apply (\<lambda>_. None) 5000 Panic (MarkEmailVerified demo_sub zero_hash) demo_unverified = (Ok ap, s') \<and>
     map_of (is_accounts s') demo_sub = Some a' \<and> a_password a' = None \<and> a_links a' = []"
proof -
  let ?m = "MarkEmailVerified demo_sub zero_hash"
  have "case tx_mutate (\<lambda>_. None) (identity_now 5000) Panic ?m demo_unverified of Ok _ \<Rightarrow> True | _ \<Rightarrow> False"
    by code_simp
  then obtain old tx where "tx_mutate (\<lambda>_. None) (identity_now 5000) Panic ?m demo_unverified = Ok (old, tx)"
    by (auto split: result.splits)
  moreover have "mutation_validate ?m = Ok ()" "reserved ?m = Ok ()" by code_simp+
  ultimately obtain ap s' where ok: "identity_Apply (\<lambda>_. None) 5000 Panic ?m demo_unverified = (Ok ap, s')"
    using Apply_total [of "\<lambda>_. None"] by blast
  have "zero_time < identity_now 5000" by code_simp
  from mark_email_verified_wipes [OF demo_unverified_inv ok this] ok
  show ?thesis by (auto simp: zero_hash_def hash_IsZero_def)
qed

theorem outbox_effects_kept_witness:
  "fst (identity_EraseUser None demo_sub demo_s3) \<noteq> Ok ()"
proof -
  obtain ap where ap: "identity_Apply (\<lambda>_. None) 9000 Panic (Tombstone demo_sub) demo_s2 = (Ok ap, demo_s3)"
    "ap_Subject ap = demo_sub" using demo_tombstone by blast
  have "fresh_id Panic (Tombstone demo_sub) demo_s2" by (simp add: fresh_id_def)
  from apply_exact [OF id_run_inv [OF demo_accounts_reach id_inv_New] this, where cx = "\<lambda>_. None" and clk = 9000] ap(1)
  have ex: "applied_exactly (identity_now 9000) (Tombstone demo_sub) ap demo_s2 demo_s3" by simp
  then have c: "is_outbox demo_s3 = is_outbox demo_s2 @ map fresh_row (ap_Outbox ap)"
    "map o_Component (ap_Outbox ap) = (if ef_Event (EffectsOf (Tombstone demo_sub)) = 0 then [] else Components)"
    "list_all (\<lambda>it. o_Subject it = ap_Subject ap \<and> o_Event it = ef_Event (EffectsOf (Tombstone demo_sub)) \<and>
       o_NextAttemptAt it = identity_now 9000) (ap_Outbox ap)"
    unfolding applied_exactly_def Let_def by blast+
  have "map o_Component (ap_Outbox ap) = 1 # [2, 3, 4, 5, 6, 7, 8, 9, 10]"
    unfolding c(2) by (simp add: Components_eq event_defs)
  then obtain it rest where it: "ap_Outbox ap = it # rest" "o_Component it = 1" by (auto simp: map_eq_Cons_conv)
  have "o_Subject it = demo_sub" using c(3) it(1) ap(2) by simp
  from it have "fresh_row it \<in> set (is_outbox demo_s3)" using c(1) by simp
  moreover have "op_fresh (OpReap None) demo_s3" "or_done (fresh_row it) = zero_time" by simp_all
  ultimately have "o_Component (or_item (fresh_row it)) \<noteq> ComponentIdentity \<longrightarrow>
      fst (identity_EraseUser None (o_Subject (or_item (fresh_row it))) demo_s3) \<noteq> Ok ()"
    using outbox_effects_kept [OF demo_accounts_reach3] by blast
  then show ?thesis using it(2) \<open>o_Subject it = demo_sub\<close> by (simp add: ComponentIdentity_def)
qed

end
