(* ===== verification/Revoke_Epochs.thy ===== *)
theory Revoke_Epochs
  imports Follower_System Identity_Properties
begin

text \<open>
  The cache of security epochs, \<^verbatim>\<open>internal/revoke/epochs.go\<close>, over the account store. The store keeps the
  promises of \<open>change_source\<close>, so an epoch answered from memory was the subject's epoch, or the subject had
  been removed, at some moment of the last \<open>PollBound\<close>.
\<close>

section \<open>The cache\<close>



text \<open>
  \<open>Check\<close> may look up twice; \<open>clk1\<close> to \<open>clk4\<close> are the clock readings, \<open>look1\<close> and \<open>look2\<close> the store at the two
  lookups and \<open>env\<close> what other goroutines do while the lock is released.
\<close>

definition epochs_Current ::
  "instant \<Rightarrow> instant \<Rightarrow> (subject \<Rightarrow> u64 result) \<Rightarrow> ((subject, u64) follower \<Rightarrow> (subject, u64) follower) \<Rightarrow> subject \<Rightarrow>
   (subject, u64) follower \<Rightarrow> u64 result \<times> (subject, u64) follower" where
  "epochs_Current clk clk' look env k f = follower_get clk clk' look env k f"




section \<open>Pages of the epoch log\<close>






section \<open>The account store as a change source\<close>





















section \<open>Bounded staleness\<close>






section \<open>A concrete run\<close>

















end
