(* ===== verification/Identity_Canonical.thy ===== *)
theory Identity_Canonical
  imports Identity_Record
begin

text \<open>Only canonical values become identifiers.\<close>

section \<open>Runes and bytes\<close>

lemma cont_high: "cont lo hi c \<Longrightarrow> 128 \<le> lo \<Longrightarrow> 128 \<le> octet c"
  by (simp add: cont_def)

lemma decodeRune_bytes:
  assumes "decodeRune s = (c, n, True)" "b \<in> set (take n s)" "octet b < 128"
  shows "c = octet b"
proof -
  have hi: "\<not> cont 128 u b" "\<not> cont 160 u b" "\<not> cont 144 u b" for u
    using assms(3) by (auto simp: cont_def)
  show ?thesis
    using assms hi
    by (auto simp: decodeRune_def Let_def split: list.splits if_splits)
qed

lemma ascii_rune:
  "list_all snd (runes s) \<Longrightarrow> b \<in> set s \<Longrightarrow> octet b < 128 \<Longrightarrow> octet b \<in> fst ` set (runes s)"
proof (induction s rule: runes.induct)
  case (1 s)
  obtain c n ok where d: "decodeRune s = (c, n, ok)" by (cases "decodeRune s") auto
  have s: "s \<noteq> []" using 1(3) by auto
  then have r: "runes s = (c, ok) # runes (drop (max 1 n) s)" using d by (subst runes.simps) simp
  have n: "1 \<le> n" using s d by (auto simp: decodeRune_def Let_def split: list.splits if_splits)
  consider "b \<in> set (take n s)" | "b \<in> set (drop (max 1 n) s)"
    using 1(3) n by (metis UnE append_take_drop_id max_absorb2 set_append)
  then show ?case
  proof cases
    case 1
    then show ?thesis using decodeRune_bytes [of s c n b] d r "1.prems" by auto
  next
    case 2
    then show ?thesis using "1.IH" [OF s d [symmetric] refl] r "1.prems" by auto
  qed
qed

lemma Cut_at:
  assumes "strings_Cut s x = (l, d, True)"
  shows "s = l @ x # d \<and> x \<notin> set l"
proof -
  let ?b = "takeWhile (\<lambda>y. y \<noteq> x) s"
  have l: "l = ?b" "d = drop (length ?b + 1) s" "length ?b \<noteq> length s"
    using assms by (auto simp: strings_Cut_def Let_def split: if_splits)
  have w: "takeWhile (\<lambda>y. y \<noteq> x) s @ dropWhile (\<lambda>y. y \<noteq> x) s = s" by (rule takeWhile_dropWhile_id)
  have ne: "dropWhile (\<lambda>y. y \<noteq> x) s \<noteq> []"
  proof
    assume "dropWhile (\<lambda>y. y \<noteq> x) s = []"
    with w have "?b = s" by simp
    with l(3) show False by simp
  qed
  obtain h r where r: "dropWhile (\<lambda>y. y \<noteq> x) s = h # r" using ne by (cases "dropWhile (\<lambda>y. y \<noteq> x) s") auto
  have h: "h = x" using hd_dropWhile [OF ne] r by simp
  have s: "s = ?b @ x # r" using w r h by simp
  have "d = drop (length ?b + 1) (?b @ x # r)" using l(2) s by simp
  then have "d = r" by simp
  moreover have "x \<notin> set ?b" by (auto dest: set_takeWhileD)
  ultimately show ?thesis using s l(1) by simp
qed

definition plain :: "char \<Rightarrow> bool" where
  "plain c \<longleftrightarrow> \<not> (octet c \<le> 32 \<or> octet c = 127 \<or> 65 \<le> octet c \<and> octet c \<le> 90)"

text \<open>
  C26. Only canonical values become identifiers. When \<^verbatim>\<open>NewIdentifier\<close> accepts a value it keeps it unchanged
  with its kind, and the value is valid UTF-8 of at most 320 bytes that is: for a phone, a plus sign followed
  by 8 to 15 digits of which the first is not 0; for an email or recovery email, a non-empty local part and
  domain around its only at-sign, with no ASCII space, control character or upper-case letter, whatever the
  Unicode table of upper-case letters beyond Latin-1.
\<close>

theorem identifier_canonical:
  assumes "NewIdentifier lu k v = Ok i"
  shows "i = \<lparr>i_kind = k, i_value = v\<rparr> \<and> identifier_kind_Valid k \<and> \<not> identifier_IsZero i \<and> length v \<le> 320 \<and> utf8_ValidString v \<and>
    (if k = IdentifierPhone
     then \<exists>ds. v = CHR ''+'' # ds \<and> 8 \<le> length ds \<and> length ds \<le> 15 \<and> hd ds \<noteq> CHR ''0'' \<and> list_all digit ds
     else (\<exists>l d. v = l @ CHR ''@'' # d \<and> l \<noteq> [] \<and> d \<noteq> [] \<and> CHR ''@'' \<notin> set l \<union> set d) \<and> list_all plain v)"
proof -
  have ok: "identifier_kind_Valid k" "length v \<le> 320" "utf8_ValidString v" "i = \<lparr>i_kind = k, i_value = v\<rparr>"
    and c: "if k = IdentifierPhone then canonicalPhone v else canonicalEmail lu v"
    using assms by (auto simp: NewIdentifier_def MaxIdentifierLen_def split: if_splits)
  have nz: "\<not> identifier_IsZero i"
    using ok(1,4) by (auto simp: identifier_kind_Valid_def identifier_IsZero_def identifier_kind_defs)
  show ?thesis
  proof (cases "k = IdentifierPhone")
    case True
    then show ?thesis using ok nz c by (auto simp: canonicalPhone_def split: list.splits if_splits)
  next
    case False
    then obtain l d where cut: "strings_Cut v CHR ''@'' = (l, d, True)" "l \<noteq> []" "d \<noteq> []" "CHR ''@'' \<notin> set d"
      and all: "list_all (\<lambda>(c, _). \<not> (unicode_IsSpace c \<or> unicode_IsControl c \<or> unicode_IsUpper lu c)) (runes v)"
      using c by (auto simp: canonicalEmail_def split: prod.splits if_splits)
    have "plain b" if "b \<in> set v" for b
    proof (cases "octet b < 128")
      case True
      then have "octet b \<in> fst ` set (runes v)" using ascii_rune [OF _ that] ok(3) by (simp add: utf8_ValidString_def)
      then have "\<not> (unicode_IsSpace (octet b) \<or> unicode_IsControl (octet b) \<or> unicode_IsUpper lu (octet b))"
        using all by (fastforce simp: list_all_iff)
      then have "\<not> unicode_IsSpace (octet b)" "\<not> unicode_IsControl (octet b)" "\<not> unicode_IsUpper lu (octet b)" by auto
      then show ?thesis
        using True by (auto simp: plain_def unicode_IsSpace_def unicode_IsControl_def unicode_IsUpper_def split: if_splits)
    qed (simp add: plain_def)
    then show ?thesis using ok nz False cut Cut_at [OF cut(1)] by (auto simp: list_all_iff)
  qed
qed

theorem identifier_canonical_witness:
  "NewIdentifier (\<lambda>_. False) IdentifierEmail ''a@b.c'' = Ok \<lparr>i_kind = IdentifierEmail, i_value = ''a@b.c''\<rparr> \<and>
   list_all plain ''a@b.c''"
proof -
  have "NewIdentifier (\<lambda>_. False) IdentifierEmail ''a@b.c'' = Ok \<lparr>i_kind = IdentifierEmail, i_value = ''a@b.c''\<rparr>"
    by (simp add: NewIdentifier_def identifier_kind_Valid_def identifier_kind_defs MaxIdentifierLen_def utf8_ValidString_def
        runes.simps decodeRune_def canonicalEmail_def strings_Cut_def unicode_IsSpace_def unicode_IsControl_def unicode_IsUpper_def)
  from identifier_canonical [OF this] this show ?thesis by (simp add: identifier_kind_defs)
qed

end
