(* ===== verification/Tokens_Record.thy ===== *)
theory Tokens_Record
  imports Core_Codec Feed
begin

text \<open>
  Rows of the refresh-token and API-key store: \<^verbatim>\<open>store/tokens/record.go\<close>, \<^verbatim>\<open>store/tokens/apikey.go\<close> and the
  request and state types of \<^verbatim>\<open>store/tokens/store.go\<close>. A \<^verbatim>\<open>RefreshRecord\<close> carries the fields of a
  \<^verbatim>\<open>RefreshRow\<close> under unexported names, so it is modelled as a row that went through
  \<^verbatim>\<open>RestoreRefreshRecord\<close>.
\<close>

definition tokens_maxClockSkew :: duration where "tokens_maxClockSkew = Minute"
definition tokens_HashLen :: nat where "tokens_HashLen = 32"
definition tokens_MaxFingerprintLen :: nat where "tokens_MaxFingerprintLen = 64"
definition tokens_MaxAppClaimsLen :: nat where "tokens_MaxAppClaimsLen = 16384"
definition MaxAPIKeyLabelLen :: nat where "MaxAPIKeyLabelLen = 128"
definition ReuseGrace :: duration where "ReuseGrace = 10 * Second"

record refresh_row =
  f_TokenHash :: bytes
  f_Family :: uuid
  f_Subject :: subject
  f_Lineage :: uuid
  f_Sealed :: sealed
  f_AppClaims :: bytes
  f_SecurityEpoch :: u64
  f_ClientFingerprint :: bytes
  f_IdleExpiresAt :: instant
  f_FamilyExpiresAt :: instant
  f_CreatedAt :: instant

datatype refresh_record = RefreshRecord (frec: refresh_row)

record refresh_spec =
  rs_TokenHash :: bytes
  rs_Family :: uuid
  rs_Attrs :: session_attrs
  rs_AppClaims :: bytes
  rs_ClientFingerprint :: bytes
  rs_IdleTTL :: duration
  rs_MaxLifetime :: duration
  rs_Now :: instant

definition refresh_IsZero :: "refresh_record \<Rightarrow> bool" where
  "refresh_IsZero r \<longleftrightarrow> f_TokenHash (frec r) = []"

definition refresh_Tenant :: "refresh_record \<Rightarrow> tenant_id" where
  "refresh_Tenant r = s_tenant (f_Subject (frec r))"

definition checkRefreshRow :: "refresh_row \<Rightarrow> unit result" where
  "checkRefreshRow r =
     (if length (f_TokenHash r) \<noteq> tokens_HashLen then Err (errors_New ''token hash must be a SHA-256 digest'')
      else if f_Family r = uuid_Nil \<or> f_Lineage r = uuid_Nil then Err (errors_New ''family and lineage are required'')
      else if subject_IsZero (f_Subject r) then Err (errors_New ''subject is required'')
      else if sealed_IsZero (f_Sealed r) then Err (errors_New ''sealed session attributes are required'')
      else if length (f_AppClaims r) > tokens_MaxAppClaimsLen
      then Err (errors_New ''application claims are too large'')
      else if length (f_ClientFingerprint r) > tokens_MaxFingerprintLen
      then Err (errors_New ''client fingerprint is too long'')
      else if time_IsZero (f_CreatedAt r) \<or> time_IsZero (f_IdleExpiresAt r) \<or> time_IsZero (f_FamilyExpiresAt r)
      then Err (errors_New ''creation and expiry times are required'')
      else if \<not> f_IdleExpiresAt r > f_CreatedAt r \<or> f_IdleExpiresAt r > f_FamilyExpiresAt r
      then Err (errors_New ''idle expiry must fall after creation and within the family lifetime'')
      else Ok ())"

definition RestoreRefreshRecord :: "refresh_row \<Rightarrow> refresh_record result" where
  "RestoreRefreshRecord r =
     (case checkRefreshRow r of
        Err e \<Rightarrow> Err (errors_Join [TokensRecordErr ErrInvalidRecord] e)
      | Panic \<Rightarrow> Panic
      | Ok _ \<Rightarrow> Ok (RefreshRecord r))"

text \<open>The sealer is an argument of the code; \<open>None\<close> is the nil function.\<close>

definition NewRefreshRecord :: "refresh_spec \<Rightarrow> (session_attrs \<Rightarrow> sealed result) option \<Rightarrow> refresh_record result" where
  "NewRefreshRecord s seal =
     (if attrs_IsZero (rs_Attrs s) \<or> time_IsZero (a_createdAt (rs_Attrs s))
      then Err (errors_Join [TokensRecordErr ErrInvalidRecord] (errors_New ''session attributes are not set''))
      else case seal of
        None \<Rightarrow> Err (errors_Join [TokensRecordErr ErrInvalidRecord] (errors_New ''a sealer is required''))
      | Some f \<Rightarrow>
         (if rs_IdleTTL s \<le> 0 \<or> rs_MaxLifetime s \<le> 0 \<or> time_IsZero (rs_Now s)
          then Err (errors_Join [TokensRecordErr ErrInvalidRecord]
                      (errors_New ''lifetimes and issuing time are required''))
          else if rs_Now s < a_createdAt (rs_Attrs s) - tokens_maxClockSkew
          then Err (errors_Join [TokensRecordErr ErrInvalidRecord]
                      (errors_New ''issuing time precedes the lineage admission''))
          else
            (let familyEnd = a_createdAt (rs_Attrs s) + rs_MaxLifetime s in
             if \<not> rs_Now s < familyEnd then Err [TokensRecordErr ErrLifetimeExceeded]
             else
               (let idle0 = rs_Now s + rs_IdleTTL s;
                    idleEnd = (if idle0 > familyEnd then familyEnd else idle0)
                in case f (rs_Attrs s) of
                     Err e \<Rightarrow> Err (errors_Join [TokensRecordErr ErrInvalidRecord] e)
                   | Panic \<Rightarrow> Panic
                   | Ok sealed \<Rightarrow>
                       RestoreRefreshRecord
                         \<lparr>f_TokenHash = rs_TokenHash s, f_Family = rs_Family s,
                          f_Subject = a_subject (rs_Attrs s), f_Lineage = a_lineage (rs_Attrs s),
                          f_Sealed = sealed, f_AppClaims = rs_AppClaims s,
                          f_SecurityEpoch = a_epoch (rs_Attrs s),
                          f_ClientFingerprint = rs_ClientFingerprint s,
                          f_IdleExpiresAt = idleEnd, f_FamilyExpiresAt = familyEnd,
                          f_CreatedAt = rs_Now s\<rparr>))))"

record rotation_request =
  rr_Presented :: bytes
  rr_Next :: refresh_record

record rotation =
  ro_Family :: uuid
  ro_ConsumedAt :: instant

record reissue_request =
  ri_Family :: uuid
  ri_Next :: refresh_record

record family_state =
  fs_Subject :: subject
  fs_Lineage :: uuid
  fs_Revoked :: bool
  fs_ExpiresAt :: instant

definition family_Live :: "family_state \<Rightarrow> instant \<Rightarrow> bool" where
  "family_Live f now \<longleftrightarrow> \<not> fs_Revoked f \<and> now < fs_ExpiresAt f"

record trevocation =
  tv_Tenant :: tenant_id
  tv_Family :: uuid
  tv_At :: instant

record api_key =
  k_ID :: uuid
  k_Owner :: subject
  k_Kind :: string
  k_Name :: string
  k_KeyHash :: bytes
  k_AppClaims :: bytes
  k_CreatedEpoch :: u64
  k_CreatedAt :: instant
  k_ExpiresAt :: instant
  k_RevokedAt :: instant

definition api_key_Validate :: "api_key \<Rightarrow> unit result" where
  "api_key_Validate k =
     (let fail = (\<lambda>problem. Err (errors_Join [TokensRecordErr ErrInvalidRecord] (errors_New problem))) in
      if k_ID k = uuid_Nil then fail ''id is required''
      else if subject_IsZero (k_Owner k) then fail ''owner is required''
      else if k_Kind k = '''' \<or> length (k_Kind k) > MaxAPIKeyLabelLen \<or> length (k_Name k) > MaxAPIKeyLabelLen
      then fail ''kind is required and labels are bounded''
      else if length (k_KeyHash k) \<noteq> tokens_HashLen then fail ''key hash must be a SHA-256 digest''
      else if length (k_AppClaims k) > tokens_MaxAppClaimsLen then fail ''application claims are too large''
      else if time_IsZero (k_CreatedAt k) then fail ''creation time is required''
      else if \<not> time_IsZero (k_ExpiresAt k) \<and> \<not> k_ExpiresAt k > k_CreatedAt k
      then fail ''expiry must fall after creation''
      else Ok ())"

section \<open>Laws\<close>

lemma checkRefreshRow_not_Panic [simp]: "checkRefreshRow r \<noteq> Panic"
  by (simp add: checkRefreshRow_def)

lemma RestoreRefreshRecord_Ok: "RestoreRefreshRecord r = Ok x \<longleftrightarrow> checkRefreshRow r = Ok () \<and> x = RefreshRecord r"
  by (auto simp: RestoreRefreshRecord_def split: result.splits)

lemma RestoreRefreshRecord_not_Panic [simp]: "RestoreRefreshRecord r \<noteq> Panic"
  by (auto simp: RestoreRefreshRecord_def split: result.splits)

lemma checkRefreshRow_Ok:
  "checkRefreshRow r = Ok u \<longleftrightarrow>
     length (f_TokenHash r) = tokens_HashLen \<and> f_Family r \<noteq> uuid_Nil \<and> f_Lineage r \<noteq> uuid_Nil \<and>
     \<not> subject_IsZero (f_Subject r) \<and> \<not> sealed_IsZero (f_Sealed r) \<and>
     length (f_AppClaims r) \<le> tokens_MaxAppClaimsLen \<and>
     length (f_ClientFingerprint r) \<le> tokens_MaxFingerprintLen \<and>
     \<not> time_IsZero (f_CreatedAt r) \<and> \<not> time_IsZero (f_IdleExpiresAt r) \<and> \<not> time_IsZero (f_FamilyExpiresAt r) \<and>
     f_CreatedAt r < f_IdleExpiresAt r \<and> f_IdleExpiresAt r \<le> f_FamilyExpiresAt r"
  by (auto simp: checkRefreshRow_def)

lemma api_key_Validate_not_Panic [simp]: "api_key_Validate k \<noteq> Panic"
  by (simp add: api_key_Validate_def Let_def)

end
