(* ===== verification/Tokens_Store.thy ===== *)
theory Tokens_Store
  imports Tokens_Record
begin

text \<open>
  The in-process store of refresh-token families and API keys, \<^verbatim>\<open>store/tokens/memory/store.go\<close>. Every method
  runs under the store's mutex, so it is one step on the whole state; \<open>clk\<close> is what the store's clock
  returns when the method reads it. The code keeps \<^verbatim>\<open>*refresh\<close> pointers in the map by digest and mutates
  them in place; nothing else holds them, so they are the values of the map. A digest that a family lists
  but the map lacks would be a nil pointer: dereferencing it is \<open>Panic\<close>.
\<close>

record family_key =
  fk_tenant :: tenant_id
  fk_family :: uuid

record key_ref =
  kr_tenant :: tenant_id
  kr_hash :: bytes

record refresh =
  rt_row :: refresh_row
  rt_consumedAt :: instant
  rt_consumedBy :: bytes
  rt_revoked :: bool

record tok_store =
  ts_tokens :: "(bytes, refresh) gomap"
  ts_families :: "(family_key, bytes list) gomap"
  ts_feed :: "trevocation feed_entry list"
  ts_seq :: nat
  ts_keys :: "(key_ref, api_key) gomap"
  ts_keyIDs :: "(uuid, key_ref) gomap"

definition tokens_New :: tok_store where
  "tokens_New = \<lparr>ts_tokens = [], ts_families = [], ts_feed = [], ts_seq = 0, ts_keys = [], ts_keyIDs = []\<rparr>"

definition tokens_now :: "instant \<Rightarrow> instant" where
  "tokens_now clk = time_Truncate clk Microsecond"

definition tokens_Ping :: "context_err \<Rightarrow> tok_store \<Rightarrow> unit result \<times> tok_store" where
  "tokens_Ping ctx s = with_ctx ctx s (Ok (), s)"

text \<open>The family of a row, and the digests listed for a family: indexing a map without the key gives nil.\<close>

definition row_key :: "refresh_row \<Rightarrow> family_key" where
  "row_key r = \<lparr>fk_tenant = s_tenant (f_Subject r), fk_family = f_Family r\<rparr>"

definition family_hashes :: "family_key \<Rightarrow> tok_store \<Rightarrow> bytes list" where
  "family_hashes fk s = (case map_of (ts_families s) fk of None \<Rightarrow> [] | Some hs \<Rightarrow> hs)"

section \<open>Dropping and revoking\<close>

definition tokens_dropToken :: "bytes \<Rightarrow> tok_store \<Rightarrow> tok_store" where
  "tokens_dropToken h s =
     (case map_of (ts_tokens s) h of
        None \<Rightarrow> s
      | Some r \<Rightarrow>
          (let fk = row_key (rt_row r);
               hs = filter (\<lambda>x. x \<noteq> h) (family_hashes fk s)
           in s\<lparr>ts_tokens := AList.delete h (ts_tokens s),
                ts_families := (if length hs = 0 then AList.delete fk (ts_families s)
                                else AList.update fk hs (ts_families s))\<rparr>))"

definition tokens_dropFamily :: "family_key \<Rightarrow> tok_store \<Rightarrow> tok_store" where
  "tokens_dropFamily fk s = foldl (\<lambda>s h. tokens_dropToken h s) s (family_hashes fk s)"

definition tokens_dropKey :: "key_ref \<Rightarrow> uuid \<Rightarrow> tok_store \<Rightarrow> tok_store" where
  "tokens_dropKey ref i s =
     s\<lparr>ts_keys := AList.delete ref (ts_keys s), ts_keyIDs := AList.delete i (ts_keyIDs s)\<rparr>"

definition maxTime :: "instant \<Rightarrow> instant \<Rightarrow> instant" where
  "maxTime a b = (if b > a then b else a)"

fun revoke_loop ::
  "bytes list \<Rightarrow> instant \<Rightarrow> bool \<Rightarrow> (bytes, refresh) gomap \<Rightarrow> (instant \<times> bool \<times> (bytes, refresh) gomap) result" where
  "revoke_loop [] expires appended m = Ok (expires, appended, m)"
| "revoke_loop (h # hs) expires appended m =
     (case map_of m h of
        None \<Rightarrow> Panic
      | Some r \<Rightarrow>
          (let expires = maxTime expires (f_FamilyExpiresAt (rt_row r)) in
           if rt_revoked r then revoke_loop hs expires appended m
           else revoke_loop hs expires True (AList.update h (r\<lparr>rt_revoked := True\<rparr>) m)))"

definition tokens_revoke :: "family_key \<Rightarrow> instant \<Rightarrow> tok_store \<Rightarrow> tok_store result" where
  "tokens_revoke fk now s =
     result_bind (revoke_loop (family_hashes fk s) zero_time False (ts_tokens s)) (\<lambda>(expires, appended, m).
       Ok (if \<not> appended then s\<lparr>ts_tokens := m\<rparr>
           else s\<lparr>ts_tokens := m, ts_seq := ts_seq s + 1,
                  ts_feed := ts_feed s @
                    [\<lparr>fe_seq = ts_seq s + 1,
                      fe_rev = \<lparr>tv_Tenant = fk_tenant fk, tv_Family = fk_family fk, tv_At = now\<rparr>,
                      fe_expires = expires\<rparr>]\<rparr>))"

text \<open>A method body that may panic; the state after a panic is the state before.\<close>

definition finish :: "tok_store \<Rightarrow> tok_store result \<Rightarrow> unit result \<times> tok_store" where
  "finish s r = (case r of Ok s' \<Rightarrow> (Ok (), s') | Err e \<Rightarrow> (Err e, s) | Panic \<Rightarrow> (Panic, s))"

primrec each :: "('a \<Rightarrow> 's \<Rightarrow> 's result) \<Rightarrow> 'a list \<Rightarrow> 's \<Rightarrow> 's result" where
  "each f [] s = Ok s"
| "each f (x # xs) s = result_bind (f x s) (each f xs)"

definition drop_keys :: "(api_key \<Rightarrow> bool) \<Rightarrow> tok_store \<Rightarrow> tok_store" where
  "drop_keys P s = foldl (\<lambda>s (ref, k). tokens_dropKey ref (k_ID k) s) s (filter (\<lambda>(ref, k). P k) (ts_keys s))"

definition revoke_drop :: "instant \<Rightarrow> family_key \<Rightarrow> tok_store \<Rightarrow> tok_store result" where
  "revoke_drop now fk s = result_bind (tokens_revoke fk now s) (\<lambda>s. Ok (tokens_dropFamily fk s))"

definition tokens_EraseTenant ::
  "context_err \<Rightarrow> instant \<Rightarrow> tenant_id \<Rightarrow> tok_store \<Rightarrow> unit result \<times> tok_store" where
  "tokens_EraseTenant ctx clk t s =
     with_ctx ctx s
       (finish s
         (result_bind
           (each (revoke_drop (tokens_now clk)) (filter (\<lambda>fk. fk_tenant fk = t) (keys_of (ts_families s))) s)
           (\<lambda>s. Ok (foldl (\<lambda>s (ref, k). tokens_dropKey ref (k_ID k) s) s
                      (filter (\<lambda>(ref, k). kr_tenant ref = t) (ts_keys s))))))"

definition token_expired :: "instant \<Rightarrow> refresh \<Rightarrow> bool" where
  "token_expired now r \<longleftrightarrow> \<not> now < f_IdleExpiresAt (rt_row r) \<or> \<not> now < f_FamilyExpiresAt (rt_row r)"

definition key_expired :: "instant \<Rightarrow> api_key \<Rightarrow> bool" where
  "key_expired now k \<longleftrightarrow> \<not> time_IsZero (k_ExpiresAt k) \<and> \<not> now < k_ExpiresAt k"

definition tokens_ReapExpired :: "context_err \<Rightarrow> instant \<Rightarrow> tok_store \<Rightarrow> nat result \<times> tok_store" where
  "tokens_ReapExpired ctx clk s =
     with_ctx ctx s
       (let now = tokens_now clk;
            dead = filter (\<lambda>(h, r). token_expired now r) (ts_tokens s);
            deadKeys = filter (\<lambda>(ref, k). key_expired now k) (ts_keys s);
            kept = feed_keep now (ts_feed s);
            s1 = foldl (\<lambda>s (h, r). tokens_dropToken h s) s dead;
            s2 = foldl (\<lambda>s (ref, k). tokens_dropKey ref (k_ID k) s) s1 deadKeys
        in (Ok (length dead + length deadKeys + (length (ts_feed s) - length kept)), s2\<lparr>ts_feed := kept\<rparr>))"

section \<open>Refresh families\<close>

definition tokens_rowOf :: "refresh_record \<Rightarrow> refresh_row" where
  "tokens_rowOf r =
     (frec r)\<lparr>f_IdleExpiresAt := time_Truncate (f_IdleExpiresAt (frec r)) Microsecond,
             f_FamilyExpiresAt := time_Truncate (f_FamilyExpiresAt (frec r)) Microsecond,
             f_CreatedAt := time_Truncate (f_CreatedAt (frec r)) Microsecond\<rparr>"

definition tokens_insert :: "refresh_record \<Rightarrow> tok_store \<Rightarrow> tok_store result" where
  "tokens_insert r s =
     (let row = tokens_rowOf r in
      result_bind (RestoreRefreshRecord row) (\<lambda>_.
        if map_of (ts_tokens s) (f_TokenHash row) \<noteq> None then Err [StoreErr ErrConflict]
        else Ok (s\<lparr>ts_tokens := AList.update (f_TokenHash row)
                     \<lparr>rt_row = row, rt_consumedAt = zero_time, rt_consumedBy = [], rt_revoked = False\<rparr> (ts_tokens s),
                   ts_families := AList.update (row_key row) (family_hashes (row_key row) s @ [f_TokenHash row])
                     (ts_families s)\<rparr>)))"

definition record_key :: "refresh_record \<Rightarrow> family_key" where
  "record_key r = \<lparr>fk_tenant = refresh_Tenant r, fk_family = f_Family (frec r)\<rparr>"

definition tokens_Create :: "context_err \<Rightarrow> refresh_record \<Rightarrow> tok_store \<Rightarrow> unit result \<times> tok_store" where
  "tokens_Create ctx r s =
     with_ctx ctx s
       (if refresh_IsZero r then (Err [TokensRecordErr ErrInvalidRecord], s)
        else if map_of (ts_families s) (record_key r) \<noteq> None then (Err [StoreErr ErrConflict], s)
        else finish s (tokens_insert r s))"

definition tokens_lookup :: "tenant_id \<Rightarrow> bytes \<Rightarrow> tok_store \<Rightarrow> refresh option" where
  "tokens_lookup t h s =
     (case map_of (ts_tokens s) h of
        None \<Rightarrow> None
      | Some r \<Rightarrow> if s_tenant (f_Subject (rt_row r)) \<noteq> t then None else Some r)"

definition usable :: "refresh \<Rightarrow> instant \<Rightarrow> unit result" where
  "usable r now =
     (if rt_revoked r \<or> \<not> now < f_FamilyExpiresAt (rt_row r) then Err [TokensErr ErrRevoked]
      else if \<not> now < f_IdleExpiresAt (rt_row r) then Err [StoreErr ErrNotFound]
      else Ok ())"

definition replayable :: "refresh \<Rightarrow> instant \<Rightarrow> unit result" where
  "replayable r now =
     (case usable r now of
        Err e \<Rightarrow> if time_IsZero (rt_consumedAt r) \<or> \<not> errors_Is e (StoreErr ErrNotFound) then Err e else Ok ()
      | x \<Rightarrow> x)"

definition tokens_Get ::
  "context_err \<Rightarrow> instant \<Rightarrow> tenant_id \<Rightarrow> bytes \<Rightarrow> tok_store \<Rightarrow> refresh_record result \<times> tok_store" where
  "tokens_Get ctx clk t h s =
     with_ctx ctx s
       (case tokens_lookup t h s of
          None \<Rightarrow> (Err [StoreErr ErrNotFound], s)
        | Some r \<Rightarrow>
            (result_bind (replayable r (tokens_now clk)) (\<lambda>_. RestoreRefreshRecord (rt_row r)), s))"

definition continues :: "refresh_row \<Rightarrow> refresh_record \<Rightarrow> bool" where
  "continues r next' \<longleftrightarrow>
     f_Subject r = f_Subject (frec next') \<and> f_Lineage r = f_Lineage (frec next') \<and> f_Family r = f_Family (frec next')"

definition same_client :: "refresh \<Rightarrow> refresh_record \<Rightarrow> instant \<Rightarrow> bool" where
  "same_client r next' now \<longleftrightarrow>
     time_Sub now (rt_consumedAt r) < ReuseGrace \<and> length (rt_consumedBy r) > 0 \<and>
     rt_consumedBy r = f_ClientFingerprint (frec next')"

definition tokens_ConsumeForRotation ::
  "context_err \<Rightarrow> instant \<Rightarrow> rotation_request \<Rightarrow> tok_store \<Rightarrow> rotation result \<times> tok_store" where
  "tokens_ConsumeForRotation ctx clk req s =
     with_ctx ctx s
       (if refresh_IsZero (rr_Next req) \<or> length (rr_Presented req) \<noteq> tokens_HashLen
        then (Err (errors_Join [TokensRecordErr ErrInvalidRecord]
                     (errors_New ''a presented digest and a next record are required'')), s)
        else
          (let now = tokens_now clk in
           case tokens_lookup (refresh_Tenant (rr_Next req)) (rr_Presented req) s of
             None \<Rightarrow> (Err [StoreErr ErrNotFound], s)
           | Some r \<Rightarrow>
              (case replayable r now of
                 Err e \<Rightarrow> (Err e, s)
               | Panic \<Rightarrow> (Panic, s)
               | Ok _ \<Rightarrow>
                  (if \<not> continues (rt_row r) (rr_Next req) then (Err [StoreErr ErrConflict], s)
                   else if \<not> time_IsZero (rt_consumedAt r) then
                     (if same_client r (rr_Next req) now then (Err [TokensErr ErrConcurrent], s)
                      else
                        (case tokens_revoke (row_key (rt_row r)) now s of
                           Ok s' \<Rightarrow> (Err [TokensErr ErrReused], s')
                         | _ \<Rightarrow> (Panic, s)))
                   else if time_Truncate (f_FamilyExpiresAt (frec (rr_Next req))) Microsecond > f_FamilyExpiresAt (rt_row r)
                   then (Err [StoreErr ErrConflict], s)
                   else
                     (case tokens_insert (rr_Next req) s of
                        Err e \<Rightarrow> (Err e, s)
                      | Panic \<Rightarrow> (Panic, s)
                      | Ok s' \<Rightarrow>
                          (Ok \<lparr>ro_Family = f_Family (rt_row r), ro_ConsumedAt = now\<rparr>,
                           s'\<lparr>ts_tokens := AList.update (rr_Presented req)
                                (r\<lparr>rt_consumedAt := now, rt_consumedBy := f_ClientFingerprint (frec (rr_Next req))\<rparr>)
                                (ts_tokens s')\<rparr>))))))"

text \<open>The rows of a family; \<open>None\<close> in the list is a nil pointer.\<close>

definition familyRows :: "family_key \<Rightarrow> tok_store \<Rightarrow> refresh option list" where
  "familyRows fk s = map (map_of (ts_tokens s)) (family_hashes fk s)"

fun state_loop :: "refresh option list \<Rightarrow> family_state \<Rightarrow> family_state result" where
  "state_loop [] st = Ok st"
| "state_loop (None # rs) st = Panic"
| "state_loop (Some r # rs) st =
     state_loop rs (st\<lparr>fs_Revoked := fs_Revoked st \<or> rt_revoked r,
                       fs_ExpiresAt := maxTime (fs_ExpiresAt st) (f_FamilyExpiresAt (rt_row r))\<rparr>)"

fun tokens_state :: "refresh option list \<Rightarrow> family_state result" where
  "tokens_state (Some r # rs) =
     state_loop (Some r # rs) \<lparr>fs_Subject = f_Subject (rt_row r), fs_Lineage = f_Lineage (rt_row r),
                               fs_Revoked = False, fs_ExpiresAt = zero_time\<rparr>"
| "tokens_state _ = Panic"

definition tokens_Reissue ::
  "context_err \<Rightarrow> instant \<Rightarrow> reissue_request \<Rightarrow> tok_store \<Rightarrow> unit result \<times> tok_store" where
  "tokens_Reissue ctx clk req s =
     with_ctx ctx s
       (if refresh_IsZero (ri_Next req) then (Err [TokensRecordErr ErrInvalidRecord], s)
        else
          (let now = tokens_now clk;
               fk = \<lparr>fk_tenant = refresh_Tenant (ri_Next req), fk_family = ri_Family req\<rparr>;
               rows = familyRows fk s
           in if length rows = 0 \<or> f_Family (frec (ri_Next req)) = ri_Family req then (Err [StoreErr ErrConflict], s)
              else if map_of (ts_families s) (record_key (ri_Next req)) \<noteq> None then (Err [StoreErr ErrConflict], s)
              else if map_of (ts_tokens s) (f_TokenHash (frec (ri_Next req))) \<noteq> None then (Err [StoreErr ErrConflict], s)
              else
                (case tokens_state rows of
                   Ok st \<Rightarrow>
                    (if fs_Revoked st \<or> \<not> family_Live st now \<or> fs_Subject st \<noteq> f_Subject (frec (ri_Next req)) \<or>
                        fs_Lineage st \<noteq> f_Lineage (frec (ri_Next req))
                     then (Err [StoreErr ErrConflict], s)
                     else if list_ex (\<lambda>r. f_Subject (rt_row (the r)) \<noteq> fs_Subject st \<or>
                                          f_Lineage (rt_row (the r)) \<noteq> fs_Lineage st) rows
                     then (Err [StoreErr ErrConflict], s)
                     else finish s (result_bind (tokens_insert (ri_Next req) s) (tokens_revoke fk now)))
                 | _ \<Rightarrow> (Panic, s))))"

definition tokens_FamilyState ::
  "context_err \<Rightarrow> tenant_id \<Rightarrow> uuid \<Rightarrow> tok_store \<Rightarrow> family_state result \<times> tok_store" where
  "tokens_FamilyState ctx t family s =
     with_ctx ctx s
       (let rows = familyRows \<lparr>fk_tenant = t, fk_family = family\<rparr> s in
        if length rows = 0 then (Err [StoreErr ErrNotFound], s) else (tokens_state rows, s))"

definition tokens_RevokeFamily ::
  "context_err \<Rightarrow> instant \<Rightarrow> tenant_id \<Rightarrow> uuid \<Rightarrow> tok_store \<Rightarrow> unit result \<times> tok_store" where
  "tokens_RevokeFamily ctx clk t family s =
     with_ctx ctx s (finish s (tokens_revoke \<lparr>fk_tenant = t, fk_family = family\<rparr> (tokens_now clk) s))"

text \<open>\<^verbatim>\<open>s.tokens[hs[0]].row\<close> of every listed family of the tenant: a missing token panics.\<close>

fun select_families ::
  "subject \<Rightarrow> (refresh_row \<Rightarrow> bool) \<Rightarrow> (bytes, refresh) gomap \<Rightarrow> (family_key, bytes list) gomap \<Rightarrow> family_key list result" where
  "select_families sub keep m [] = Ok []"
| "select_families sub keep m ((fk, hs) # fs) =
     (if fk_tenant fk \<noteq> s_tenant sub \<or> length hs = 0 then select_families sub keep m fs
      else
        (case map_of m (hd hs) of
           None \<Rightarrow> Panic
         | Some r \<Rightarrow>
            result_bind (select_families sub keep m fs) (\<lambda>out.
              Ok (if f_Subject (rt_row r) = sub \<and> \<not> keep (rt_row r) then fk # out else out))))"

definition subjectFamilies :: "subject \<Rightarrow> (refresh_row \<Rightarrow> bool) \<Rightarrow> tok_store \<Rightarrow> family_key list result" where
  "subjectFamilies sub keep s =
     result_bind (select_families sub keep (ts_tokens s) (ts_families s)) (\<lambda>out. Ok (sort_key fk_family out))"

definition tokens_RevokeForSubject ::
  "context_err \<Rightarrow> instant \<Rightarrow> subject \<Rightarrow> uuid \<Rightarrow> tok_store \<Rightarrow> unit result \<times> tok_store" where
  "tokens_RevokeForSubject ctx clk sub exceptLineage s =
     with_ctx ctx s
       (finish s
         (result_bind (subjectFamilies sub (\<lambda>r. exceptLineage \<noteq> uuid_Nil \<and> f_Lineage r = exceptLineage) s) (\<lambda>fks.
            each (\<lambda>fk. tokens_revoke fk (tokens_now clk)) fks s)))"

definition tokens_RevocationsSince ::
  "context_err \<Rightarrow> cursor \<Rightarrow> tok_store \<Rightarrow> (trevocation list \<times> cursor) result \<times> tok_store" where
  "tokens_RevocationsSince ctx c s = with_ctx ctx s (Ok (feed_Since (ts_feed s) c), s)"

definition tokens_DeleteForSubject ::
  "context_err \<Rightarrow> instant \<Rightarrow> subject \<Rightarrow> tok_store \<Rightarrow> unit result \<times> tok_store" where
  "tokens_DeleteForSubject ctx clk sub s =
     with_ctx ctx s
       (finish s
         (result_bind (subjectFamilies sub (\<lambda>_. False) s) (\<lambda>fks.
            result_bind (each (revoke_drop (tokens_now clk)) fks s) (\<lambda>s. Ok (drop_keys (\<lambda>k. k_Owner k = sub) s)))))"

section \<open>API keys\<close>

definition cloneKey :: "api_key \<Rightarrow> api_key" where
  "cloneKey k =
     k\<lparr>k_CreatedAt := time_Truncate (k_CreatedAt k) Microsecond,
       k_ExpiresAt := (if \<not> time_IsZero (k_ExpiresAt k) then time_Truncate (k_ExpiresAt k) Microsecond else k_ExpiresAt k),
       k_RevokedAt := (if \<not> time_IsZero (k_RevokedAt k) then time_Truncate (k_RevokedAt k) Microsecond else k_RevokedAt k)\<rparr>"

definition tokens_CreateAPIKey :: "context_err \<Rightarrow> api_key \<Rightarrow> tok_store \<Rightarrow> unit result \<times> tok_store" where
  "tokens_CreateAPIKey ctx k s =
     with_ctx ctx s
       (case api_key_Validate k of
          Err e \<Rightarrow> (Err e, s)
        | Panic \<Rightarrow> (Panic, s)
        | Ok _ \<Rightarrow>
           (let ref = \<lparr>kr_tenant = s_tenant (k_Owner k), kr_hash = k_KeyHash k\<rparr> in
            if map_of (ts_keys s) ref \<noteq> None then (Err [StoreErr ErrConflict], s)
            else if map_of (ts_keyIDs s) (k_ID k) \<noteq> None then (Err [StoreErr ErrConflict], s)
            else (Ok (), s\<lparr>ts_keys := AList.update ref (cloneKey k) (ts_keys s),
                           ts_keyIDs := AList.update (k_ID k) ref (ts_keyIDs s)\<rparr>)))"

definition tokens_GetAPIKey ::
  "context_err \<Rightarrow> instant \<Rightarrow> tenant_id \<Rightarrow> bytes \<Rightarrow> tok_store \<Rightarrow> api_key result \<times> tok_store" where
  "tokens_GetAPIKey ctx clk t h s =
     with_ctx ctx s
       (case map_of (ts_keys s) \<lparr>kr_tenant = t, kr_hash = h\<rparr> of
          None \<Rightarrow> (Err [StoreErr ErrNotFound], s)
        | Some k \<Rightarrow> (if key_expired (tokens_now clk) k then (Err [StoreErr ErrNotFound], s) else (Ok (cloneKey k), s)))"

definition tokens_ListAPIKeys :: "context_err \<Rightarrow> subject \<Rightarrow> tok_store \<Rightarrow> api_key list result \<times> tok_store" where
  "tokens_ListAPIKeys ctx owner s =
     with_ctx ctx s
       (Ok (sort_key (\<lambda>k. (k_CreatedAt k, k_ID k))
              (map (\<lambda>(ref, k). cloneKey k) (filter (\<lambda>(ref, k). k_Owner k = owner) (ts_keys s)))), s)"

definition tokens_RevokeAPIKey ::
  "context_err \<Rightarrow> instant \<Rightarrow> subject \<Rightarrow> uuid \<Rightarrow> tok_store \<Rightarrow> unit result \<times> tok_store" where
  "tokens_RevokeAPIKey ctx clk owner i s =
     with_ctx ctx s
       (case map_of (ts_keyIDs s) i of
          None \<Rightarrow> (Err [StoreErr ErrNotFound], s)
        | Some ref \<Rightarrow>
           (case map_of (ts_keys s) ref of
              None \<Rightarrow> (Panic, s)
            | Some k \<Rightarrow>
               (if k_Owner k \<noteq> owner then (Err [StoreErr ErrNotFound], s)
                else (Ok (), if time_IsZero (k_RevokedAt k)
                             then s\<lparr>ts_keys := AList.update ref (k\<lparr>k_RevokedAt := tokens_now clk\<rparr>) (ts_keys s)\<rparr>
                             else s))))"

end
