(* ===== verification/Tokens_Laws.thy ===== *)
theory Tokens_Laws
  imports Tokens_Store
begin

text \<open>
  Laws of the token store. The invariant ties the tokens to the families that list them; every operation is
  a sequence of a few small moves (revoke a family, drop tokens, start a family, rotate, change keys, reap
  the feed), each of which keeps the invariant, so the facts about all operations are proved once per move.
\<close>

abbreviation toks :: "tok_store \<Rightarrow> bytes \<rightharpoonup> refresh" where
  "toks s \<equiv> map_of (ts_tokens s)"

abbreviation rt_key :: "refresh \<Rightarrow> family_key" where
  "rt_key r \<equiv> row_key (rt_row r)"

abbreviation rt_consumed :: "refresh \<Rightarrow> bool" where
  "rt_consumed r \<equiv> \<not> time_IsZero (rt_consumedAt r)"

section \<open>The invariant\<close>

definition listed_ok :: "(bytes \<rightharpoonup> refresh) \<Rightarrow> (family_key \<Rightarrow> bytes list) \<Rightarrow> bool" where
  "listed_ok T F \<longleftrightarrow>
     (\<forall>fk h. h \<in> set (F fk) \<longleftrightarrow> (\<exists>r. T h = Some r \<and> rt_key r = fk)) \<and>
     (\<forall>h r. T h = Some r \<longrightarrow> f_TokenHash (rt_row r) = h \<and> checkRefreshRow (rt_row r) = Ok ())"

text \<open>
  The tokens of a family have one subject, one lineage and one revocation state, and at most one of them
  is not consumed.
\<close>

definition kin_ok :: "(bytes \<rightharpoonup> refresh) \<Rightarrow> bool" where
  "kin_ok T \<longleftrightarrow>
     (\<forall>h r h' r'. T h = Some r \<longrightarrow> T h' = Some r' \<longrightarrow> rt_key r = rt_key r' \<longrightarrow>
        f_Subject (rt_row r) = f_Subject (rt_row r') \<and> f_Lineage (rt_row r) = f_Lineage (rt_row r') \<and>
        rt_revoked r = rt_revoked r' \<and> (h = h' \<or> rt_consumed r \<or> rt_consumed r'))"

text \<open>The feed still names every revoked family that has a token, until the family is past its end.\<close>

definition names :: "trevocation \<Rightarrow> family_key \<Rightarrow> bool" where
  "names v fk \<longleftrightarrow> \<lparr>fk_tenant = tv_Tenant v, fk_family = tv_Family v\<rparr> = fk"

definition told_ok :: "(bytes \<rightharpoonup> refresh) \<Rightarrow> trevocation feed_entry list \<Rightarrow> bool" where
  "told_ok T feed \<longleftrightarrow>
     (\<forall>h r. T h = Some r \<longrightarrow> rt_revoked r \<longrightarrow>
        (\<exists>e \<in> set feed. names (fe_rev e) (rt_key r) \<and> f_FamilyExpiresAt (rt_row r) \<le> fe_expires e))"

definition keys_ok :: "(key_ref \<rightharpoonup> api_key) \<Rightarrow> (uuid \<rightharpoonup> key_ref) \<Rightarrow> bool" where
  "keys_ok K I \<longleftrightarrow>
     (\<forall>ref k. K ref = Some k \<longrightarrow> I (k_ID k) = Some ref \<and> cloneKey k = k \<and>
        ref = \<lparr>kr_tenant = s_tenant (k_Owner k), kr_hash = k_KeyHash k\<rparr>) \<and>
     (\<forall>i ref. I i = Some ref \<longrightarrow> (\<exists>k. K ref = Some k \<and> k_ID k = i))"

definition tok_inv :: "tok_store \<Rightarrow> bool" where
  "tok_inv s \<longleftrightarrow>
     wf_map (ts_tokens s) \<and> wf_map (ts_families s) \<and> wf_map (ts_keys s) \<and> wf_map (ts_keyIDs s) \<and>
     (\<forall>fk. map_of (ts_families s) fk \<noteq> Some []) \<and>
     listed_ok (toks s) (\<lambda>fk. family_hashes fk s) \<and> kin_ok (toks s) \<and> told_ok (toks s) (ts_feed s) \<and>
     keys_ok (map_of (ts_keys s)) (map_of (ts_keyIDs s)) \<and> feed_ok (ts_feed s) (ts_seq s)"

lemma tok_inv_New [simp]: "tok_inv tokens_New"
  by (simp add: tok_inv_def tokens_New_def listed_ok_def kin_ok_def told_ok_def keys_ok_def family_hashes_def)

lemma tok_inv_listed: "tok_inv s \<Longrightarrow> h \<in> set (family_hashes fk s) \<longleftrightarrow> (\<exists>r. toks s h = Some r \<and> rt_key r = fk)"
  by (simp add: tok_inv_def listed_ok_def)

lemma tok_inv_row:
  assumes "tok_inv s" "toks s h = Some r"
  shows "f_TokenHash (rt_row r) = h" "checkRefreshRow (rt_row r) = Ok ()"
  using assms by (auto simp: tok_inv_def listed_ok_def)

lemma tok_inv_kin:
  assumes "tok_inv s" "toks s h = Some r" "toks s h' = Some r'" "rt_key r = rt_key r'"
  shows "f_Subject (rt_row r) = f_Subject (rt_row r')" "f_Lineage (rt_row r) = f_Lineage (rt_row r')"
    "rt_revoked r = rt_revoked r'" "h = h' \<or> rt_consumed r \<or> rt_consumed r'"
proof -
  have "kin_ok (toks s)" using assms(1) by (simp add: tok_inv_def)
  from this [unfolded kin_ok_def, rule_format, OF assms(2-4)]
  show "f_Subject (rt_row r) = f_Subject (rt_row r')" "f_Lineage (rt_row r) = f_Lineage (rt_row r')"
    "rt_revoked r = rt_revoked r'" "h = h' \<or> rt_consumed r \<or> rt_consumed r'" by blast+
qed

text \<open>Under the invariant a family is listed exactly when it has a token.\<close>

lemma family_listed:
  assumes "tok_inv s"
  shows "map_of (ts_families s) fk = None \<longleftrightarrow> (\<forall>h r. toks s h = Some r \<longrightarrow> rt_key r \<noteq> fk)"
proof -
  have "map_of (ts_families s) fk = None \<longleftrightarrow> family_hashes fk s = []"
    using assms by (auto simp: tok_inv_def family_hashes_def split: option.splits)
  also have "\<dots> \<longleftrightarrow> (\<forall>h. h \<notin> set (family_hashes fk s))" by (cases "family_hashes fk s") auto
  also have "\<dots> \<longleftrightarrow> (\<forall>h r. toks s h = Some r \<longrightarrow> rt_key r \<noteq> fk)" using tok_inv_listed [OF assms] by blast
  finally show ?thesis .
qed

section \<open>Revoking a family\<close>

definition mark :: "family_key \<Rightarrow> refresh \<Rightarrow> refresh" where
  "mark fk r = (if rt_key r = fk then r\<lparr>rt_revoked := True\<rparr> else r)"

lemma mark_simps [simp]:
  "rt_row (mark fk r) = rt_row r" "rt_consumedAt (mark fk r) = rt_consumedAt r"
  "rt_consumedBy (mark fk r) = rt_consumedBy r" "rt_revoked (mark fk r) \<longleftrightarrow> rt_revoked r \<or> rt_key r = fk"
  by (auto simp: mark_def)

lemma revoked_again: "rt_revoked r \<Longrightarrow> r\<lparr>rt_revoked := True\<rparr> = r"
  by (cases r) simp

lemma maxTime_max: "maxTime a b = max a b"
  by (simp add: maxTime_def)

text \<open>What the loop of \<^verbatim>\<open>revoke\<close> computes: every listed token is marked and the latest expiry is found.\<close>

definition loop_result ::
  "bytes list \<Rightarrow> instant \<Rightarrow> bool \<Rightarrow> (bytes, refresh) gomap \<Rightarrow> instant \<Rightarrow> bool \<Rightarrow> (bytes, refresh) gomap \<Rightarrow> bool" where
  "loop_result hs e a m e' a' m' \<longleftrightarrow>
     e \<le> e' \<and> (\<forall>h r. h \<in> set hs \<longrightarrow> map_of m h = Some r \<longrightarrow> f_FamilyExpiresAt (rt_row r) \<le> e') \<and>
     a' = (a \<or> (\<exists>h r. h \<in> set hs \<and> map_of m h = Some r \<and> \<not> rt_revoked r)) \<and>
     (wf_map m \<longrightarrow> wf_map m') \<and>
     (\<forall>h. map_of m' h = (if h \<in> set hs then map_option (rt_revoked_update (\<lambda>_. True)) (map_of m h) else map_of m h))"

lemma revoke_loop_Ok:
  assumes "\<And>h. h \<in> set hs \<Longrightarrow> map_of m h \<noteq> None"
  shows "\<exists>e' a' m'. revoke_loop hs e a m = Ok (e', a', m') \<and> loop_result hs e a m e' a' m'"
  using assms
proof (induction hs arbitrary: e a m)
  case Nil
  then show ?case by (simp add: loop_result_def)
next
  case (Cons h hs)
  obtain r where r: "map_of m h = Some r" using Cons.prems [of h] by auto
  define e1 where "e1 = maxTime e (f_FamilyExpiresAt (rt_row r))"
  define m1 where "m1 = (if rt_revoked r then m else AList.update h (r\<lparr>rt_revoked := True\<rparr>) m)"
  have m1: "map_of m1 = (map_of m)(h \<mapsto> r\<lparr>rt_revoked := True\<rparr>)" using r by (simp add: m1_def revoked_again fun_upd_idem)
  have "map_of m1 x \<noteq> None" if "x \<in> set hs" for x using Cons.prems that unfolding m1 by simp
  from Cons.IH [OF this] obtain e' a' m' where
    IH: "revoke_loop hs e1 (a \<or> \<not> rt_revoked r) m1 = Ok (e', a', m')" "loop_result hs e1 (a \<or> \<not> rt_revoked r) m1 e' a' m'"
    by blast
  have loop: "revoke_loop (h # hs) e a m = revoke_loop hs e1 (a \<or> \<not> rt_revoked r) m1"
    using r by (simp add: Let_def e1_def m1_def)
  note res = IH(2) [unfolded loop_result_def m1]
  have le: "e \<le> e'" "f_FamilyExpiresAt (rt_row r) \<le> e'" using res by (auto simp: e1_def maxTime_max)
  have lat: "f_FamilyExpiresAt (rt_row r') \<le> e'" if "x \<in> set (h # hs)" "map_of m x = Some r'" for x r'
  proof (cases "x = h \<and> x \<notin> set hs")
    case False
    with that(1) have "x \<in> set hs" by auto
    moreover have "map_of m1 x = Some (if x = h then r\<lparr>rt_revoked := True\<rparr> else r')" using that(2) unfolding m1 by simp
    ultimately show ?thesis using res that(2) r unfolding m1 [symmetric] by (fastforce split: if_splits)
  qed (use that le(2) r in simp)
  have "a' = (a \<or> (\<exists>x r. x \<in> set (h # hs) \<and> map_of m x = Some r \<and> \<not> rt_revoked r))"
  proof -
    have eq: "map_of m1 x = Some q \<and> \<not> rt_revoked q \<longleftrightarrow> x \<noteq> h \<and> map_of m x = Some q \<and> \<not> rt_revoked q" for x q
      unfolding m1 by (cases "x = h") auto
    have "a' = ((a \<or> \<not> rt_revoked r) \<or> (\<exists>x q. x \<in> set hs \<and> map_of m1 x = Some q \<and> \<not> rt_revoked q))"
      using IH(2) unfolding loop_result_def by blast
    then show ?thesis unfolding eq using r by (metis list.set_intros set_ConsD option.inject)
  qed
  moreover have "wf_map m \<longrightarrow> wf_map m'" using res by (simp add: m1_def)
  moreover have "map_of m' x = (if x \<in> set (h # hs) then map_option (rt_revoked_update (\<lambda>_. True)) (map_of m x) else map_of m x)" for x
    using res r by (simp add: fun_upd_def)
  ultimately have "loop_result (h # hs) e a m e' a' m'" using le(1) lat unfolding loop_result_def by blast
  then show ?case using IH(1) unfolding loop by blast
qed

definition family_open :: "family_key \<Rightarrow> tok_store \<Rightarrow> bool" where
  "family_open fk s \<longleftrightarrow> (\<exists>h r. toks s h = Some r \<and> rt_key r = fk \<and> \<not> rt_revoked r)"

definition revokes :: "family_key \<Rightarrow> instant \<Rightarrow> tok_store \<Rightarrow> tok_store \<Rightarrow> bool" where
  "revokes fk now s s' \<longleftrightarrow>
     toks s' = map_option (mark fk) \<circ> toks s \<and> wf_map (ts_tokens s') \<and>
     ts_families s' = ts_families s \<and> ts_keys s' = ts_keys s \<and> ts_keyIDs s' = ts_keyIDs s \<and>
     (if family_open fk s then
        ts_seq s' = ts_seq s + 1 \<and>
        (\<exists>expires. ts_feed s' = ts_feed s @
            [\<lparr>fe_seq = ts_seq s + 1, fe_rev = \<lparr>tv_Tenant = fk_tenant fk, tv_Family = fk_family fk, tv_At = now\<rparr>,
              fe_expires = expires\<rparr>] \<and>
          (\<forall>h r. toks s h = Some r \<longrightarrow> rt_key r = fk \<longrightarrow> f_FamilyExpiresAt (rt_row r) \<le> expires))
      else ts_seq s' = ts_seq s \<and> ts_feed s' = ts_feed s)"

lemma revoke_Ok:
  assumes inv: "tok_inv s"
  shows "\<exists>s'. tokens_revoke fk now s = Ok s' \<and> revokes fk now s s'"
proof -
  let ?hs = "family_hashes fk s"
  have dom: "\<And>h. h \<in> set ?hs \<Longrightarrow> toks s h \<noteq> None" using tok_inv_listed [OF inv] by auto
  have wf: "wf_map (ts_tokens s)" using inv by (simp add: tok_inv_def)
  obtain e a m where l: "revoke_loop ?hs zero_time False (ts_tokens s) = Ok (e, a, m)"
    and res: "loop_result ?hs zero_time False (ts_tokens s) e a m"
    using revoke_loop_Ok [OF dom] by blast
  have a: "a \<longleftrightarrow> family_open fk s"
  proof -
    have "a \<longleftrightarrow> (\<exists>h r. h \<in> set ?hs \<and> toks s h = Some r \<and> \<not> rt_revoked r)" using res by (simp add: loop_result_def)
    then show ?thesis unfolding family_open_def tok_inv_listed [OF inv] by (metis option.inject)
  qed
  have m: "map_of m h = (if h \<in> set ?hs then map_option (rt_revoked_update (\<lambda>_. True)) (toks s h) else toks s h)" for h
    using res by (simp add: loop_result_def)
  have mark: "map_of m = map_option (mark fk) \<circ> toks s"
  proof
    fix h show "map_of m h = (map_option (mark fk) \<circ> toks s) h"
      unfolding m by (cases "toks s h") (auto simp: tok_inv_listed [OF inv] mark_def)
  qed
  have lat: "\<forall>h r. toks s h = Some r \<longrightarrow> rt_key r = fk \<longrightarrow> f_FamilyExpiresAt (rt_row r) \<le> e"
    using res tok_inv_listed [OF inv] by (auto simp: loop_result_def)
  have "wf_map m" using res wf by (simp add: loop_result_def)
  then show ?thesis
    using mark lat unfolding tokens_revoke_def l a
    by (cases "family_open fk s") (auto simp: result_bind_def revokes_def)
qed

lemma revokes_inv:
  assumes inv: "tok_inv s" and r: "revokes fk now s s'"
  shows "tok_inv s'"
proof -
  have T: "toks s' h = map_option (mark fk) (toks s h)" for h using r by (simp add: revokes_def)
  have F: "family_hashes k s' = family_hashes k s" for k using r by (simp add: revokes_def family_hashes_def)
  have "listed_ok (toks s') (\<lambda>fk. family_hashes fk s')"
    using inv by (fastforce simp: tok_inv_def listed_ok_def T F)
  moreover have "kin_ok (toks s')"
    unfolding kin_ok_def
  proof (intro allI impI)
    fix h r h' r' assume "toks s' h = Some r" "toks s' h' = Some r'" and k: "rt_key r = rt_key r'"
    then obtain q q' where q: "toks s h = Some q" "r = mark fk q" "toks s h' = Some q'" "r' = mark fk q'"
      by (auto simp: T)
    then have "rt_key q = rt_key q'" using k by simp
    from tok_inv_kin [OF inv q(1,3) this] q(2,4) k
    show "f_Subject (rt_row r) = f_Subject (rt_row r') \<and> f_Lineage (rt_row r) = f_Lineage (rt_row r') \<and>
        rt_revoked r = rt_revoked r' \<and> (h = h' \<or> rt_consumed r \<or> rt_consumed r')" by simp
  qed
  moreover have "told_ok (toks s') (ts_feed s')"
    unfolding told_ok_def
  proof (intro allI impI)
    fix h r' assume "toks s' h = Some r'" and rv: "rt_revoked r'"
    then obtain q where q: "toks s h = Some q" "r' = mark fk q" by (auto simp: T)
    show "\<exists>e \<in> set (ts_feed s'). names (fe_rev e) (rt_key r') \<and> f_FamilyExpiresAt (rt_row r') \<le> fe_expires e"
    proof (cases "rt_revoked q")
      case True
      then obtain e where "e \<in> set (ts_feed s)" "names (fe_rev e) (rt_key q)" "f_FamilyExpiresAt (rt_row q) \<le> fe_expires e"
        using inv q(1) by (fastforce simp: tok_inv_def told_ok_def)
      then show ?thesis using r q(2) by (auto simp: revokes_def split: if_splits)
    next
      case False
      then have k: "rt_key q = fk" "family_open fk s" using rv q by (auto simp: family_open_def)
      then show ?thesis using r q by (auto simp: revokes_def names_def)
    qed
  qed
  moreover have "feed_ok (ts_feed s') (ts_seq s')"
    using inv r feed_ok_snoc [of "ts_feed s" "ts_seq s"] by (auto simp: tok_inv_def revokes_def split: if_splits)
  ultimately show ?thesis
    using inv r by (simp add: tok_inv_def revokes_def)
qed

section \<open>Dropping tokens\<close>

definition drops :: "bytes set \<Rightarrow> tok_store \<Rightarrow> tok_store \<Rightarrow> bool" where
  "drops D s s' \<longleftrightarrow>
     toks s' = toks s |` (- D) \<and> wf_map (ts_tokens s') \<and> wf_map (ts_families s') \<and>
     (\<forall>fk. map_of (ts_families s') fk \<noteq> Some []) \<and>
     (\<forall>fk. set (family_hashes fk s') = set (family_hashes fk s) - D) \<and>
     ts_feed s' = ts_feed s \<and> ts_seq s' = ts_seq s \<and> ts_keys s' = ts_keys s \<and> ts_keyIDs s' = ts_keyIDs s"

lemma drops_trans: "drops D s s1 \<Longrightarrow> drops E s1 s2 \<Longrightarrow> drops (D \<union> E) s s2"
  by (auto simp: drops_def)

lemma restrict_Some: "(m |` A) x = Some y \<longleftrightarrow> x \<in> A \<and> m x = Some y"
  by (simp add: restrict_map_def)

lemma drops_inv:
  assumes inv: "tok_inv s" and d: "drops D s s'"
  shows "tok_inv s'"
proof -
  have T: "toks s' h = Some r \<longleftrightarrow> h \<notin> D \<and> toks s h = Some r" for h r using d by (simp add: drops_def restrict_Some)
  have F: "h \<in> set (family_hashes fk s') \<longleftrightarrow> h \<notin> D \<and> h \<in> set (family_hashes fk s)" for h fk
    using d by (auto simp: drops_def)
  have "listed_ok (toks s') (\<lambda>fk. family_hashes fk s')"
    unfolding listed_ok_def T F tok_inv_listed [OF inv] using tok_inv_row [OF inv] by blast
  moreover have "kin_ok (toks s')"
    unfolding kin_ok_def T by (intro allI impI) (use tok_inv_kin [OF inv] in blast)
  moreover have "told_ok (toks s') (ts_feed s')"
  proof -
    have "told_ok (toks s) (ts_feed s)" "ts_feed s' = ts_feed s" using inv d by (simp_all add: tok_inv_def drops_def)
    then show ?thesis unfolding told_ok_def T by auto
  qed
  ultimately show ?thesis using inv d by (simp add: tok_inv_def drops_def)
qed

lemma dropToken_drops:
  assumes inv: "tok_inv s"
  shows "drops {h} s (tokens_dropToken h s)"
proof (cases "toks s h")
  case None
  then have "h \<notin> set (family_hashes fk s)" for fk using tok_inv_listed [OF inv] by simp
  moreover have "toks s |` (- {h}) = toks s" using None by (auto simp: restrict_map_def fun_eq_iff)
  ultimately show ?thesis using None inv by (simp add: tokens_dropToken_def drops_def tok_inv_def)
next
  case (Some r)
  let ?fk = "rt_key r" and ?s = "tokens_dropToken h s"
  let ?hs = "filter (\<lambda>x. x \<noteq> h) (family_hashes ?fk s)"
  have s': "ts_tokens ?s = AList.delete h (ts_tokens s)"
    "ts_families ?s = (if length ?hs = 0 then AList.delete ?fk (ts_families s) else AList.update ?fk ?hs (ts_families s))"
    "ts_feed ?s = ts_feed s" "ts_seq ?s = ts_seq s" "ts_keys ?s = ts_keys s" "ts_keyIDs ?s = ts_keyIDs s"
    using Some by (simp_all add: tokens_dropToken_def Let_def)
  have F: "family_hashes fk ?s = (if fk = ?fk then ?hs else family_hashes fk s)" for fk
    unfolding family_hashes_def [of fk ?s] s'(2) by (simp add: family_hashes_def)
  have other: "h \<notin> set (family_hashes fk s)" if "fk \<noteq> ?fk" for fk
    using that Some by (simp add: tok_inv_listed [OF inv])
  have "set (family_hashes fk ?s) = set (family_hashes fk s) - {h}" for fk
    using other unfolding F by auto
  moreover have "toks ?s = toks s |` (- {h})" unfolding s'(1) by (auto simp: restrict_map_def fun_eq_iff)
  moreover have "map_of (ts_families ?s) fk \<noteq> Some []" for fk
    using inv unfolding s'(2) by (simp add: tok_inv_def)
  moreover have "wf_map (ts_families ?s)" "wf_map (ts_tokens ?s)" using inv unfolding s'(1,2) by (simp_all add: tok_inv_def)
  ultimately show ?thesis using s'(3-6) unfolding drops_def by blast
qed

lemma drop_all:
  "tok_inv s \<Longrightarrow> drops (set hs) s (foldl (\<lambda>s h. tokens_dropToken h s) s hs)"
proof (induction hs arbitrary: s)
  case Nil
  then show ?case by (simp add: drops_def tok_inv_def restrict_map_def)
next
  case (Cons h hs)
  note d = dropToken_drops [OF Cons.prems, of h]
  from drops_trans [OF d Cons.IH [OF drops_inv [OF Cons.prems d]]] show ?case by simp
qed

section \<open>Starting and rotating\<close>

definition new_token :: "refresh_row \<Rightarrow> refresh" where
  "new_token row = \<lparr>rt_row = row, rt_consumedAt = zero_time, rt_consumedBy = [], rt_revoked = False\<rparr>"

lemma new_token_simps [simp]:
  "rt_row (new_token row) = row" "\<not> rt_consumed (new_token row)" "\<not> rt_revoked (new_token row)"
  by (simp_all add: new_token_def time_IsZero_def)

definition inserts :: "refresh_row \<Rightarrow> tok_store \<Rightarrow> tok_store \<Rightarrow> bool" where
  "inserts row s s' \<longleftrightarrow>
     toks s (f_TokenHash row) = None \<and> checkRefreshRow row = Ok () \<and>
     toks s' = (toks s)(f_TokenHash row \<mapsto> new_token row) \<and> wf_map (ts_tokens s') \<and> wf_map (ts_families s') \<and>
     (\<forall>fk. map_of (ts_families s') fk \<noteq> Some []) \<and>
     (\<forall>fk. set (family_hashes fk s') = set (family_hashes fk s) \<union> (if fk = row_key row then {f_TokenHash row} else {})) \<and>
     ts_feed s' = ts_feed s \<and> ts_seq s' = ts_seq s \<and> ts_keys s' = ts_keys s \<and> ts_keyIDs s' = ts_keyIDs s"

lemma insert_cases:
  assumes inv: "tok_inv s"
  shows "(\<exists>s'. tokens_insert r s = Ok s' \<and> inserts (tokens_rowOf r) s s') \<or> (\<exists>e. tokens_insert r s = Err e)"
proof (cases "checkRefreshRow (tokens_rowOf r) = Ok () \<and> toks s (f_TokenHash (tokens_rowOf r)) = None")
  case True
  let ?row = "tokens_rowOf r"
  let ?s = "s\<lparr>ts_tokens := AList.update (f_TokenHash ?row) (new_token ?row) (ts_tokens s),
      ts_families := AList.update (row_key ?row) (family_hashes (row_key ?row) s @ [f_TokenHash ?row]) (ts_families s)\<rparr>"
  have "tokens_insert r s = Ok ?s"
    using True by (simp add: tokens_insert_def Let_def result_bind_def RestoreRefreshRecord_def new_token_def)
  moreover have "family_hashes fk ?s =
      family_hashes fk s @ (if fk = row_key ?row then [f_TokenHash ?row] else [])" for fk
    by (simp add: family_hashes_def)
  ultimately show ?thesis using True inv by (auto simp: inserts_def tok_inv_def)
next
  case False
  then show ?thesis
    by (cases "checkRefreshRow (tokens_rowOf r)")
      (auto simp: tokens_insert_def Let_def result_bind_def RestoreRefreshRecord_def)
qed

lemma inserts_listed:
  assumes inv: "tok_inv s" and i: "inserts row s s'"
  shows "listed_ok (toks s') (\<lambda>fk. family_hashes fk s')"
proof -
  have T: "toks s' = (toks s)(f_TokenHash row \<mapsto> new_token row)" and fresh: "toks s (f_TokenHash row) = None"
    and ck: "checkRefreshRow row = Ok ()" using i by (simp_all add: inserts_def)
  have F: "h \<in> set (family_hashes fk s') \<longleftrightarrow> h \<in> set (family_hashes fk s) \<or> fk = row_key row \<and> h = f_TokenHash row" for h fk
    using i by (auto simp: inserts_def)
  show ?thesis
    unfolding listed_ok_def F tok_inv_listed [OF inv] T using fresh ck tok_inv_row [OF inv] by (auto split: if_splits)
qed

text \<open>A family is started: no token of it is stored.\<close>

definition begins :: "refresh_row \<Rightarrow> tok_store \<Rightarrow> tok_store \<Rightarrow> bool" where
  "begins row s s' \<longleftrightarrow> inserts row s s' \<and> (\<forall>h r. toks s h = Some r \<longrightarrow> rt_key r \<noteq> row_key row)"

lemma begins_inv:
  assumes inv: "tok_inv s" and b: "begins row s s'"
  shows "tok_inv s'"
proof -
  have i: "inserts row s s'" and new: "\<And>h r. toks s h = Some r \<Longrightarrow> rt_key r \<noteq> row_key row"
    using b by (simp_all add: begins_def)
  have T: "toks s' h = Some r \<longleftrightarrow> (if h = f_TokenHash row then r = new_token row else toks s h = Some r)" for h r
    using i by (auto simp: inserts_def)
  have "kin_ok (toks s')"
    unfolding kin_ok_def
  proof (intro allI impI)
    fix h r h' r' assume a: "toks s' h = Some r" "toks s' h' = Some r'" and k: "rt_key r = rt_key r'"
    show "f_Subject (rt_row r) = f_Subject (rt_row r') \<and> f_Lineage (rt_row r) = f_Lineage (rt_row r') \<and>
        rt_revoked r = rt_revoked r' \<and> (h = h' \<or> rt_consumed r \<or> rt_consumed r')"
    proof (cases "h = f_TokenHash row \<or> h' = f_TokenHash row")
      case True
      then have "h = h' \<and> r = r'" using a k new [of h r] new [of h' r'] unfolding T by (auto split: if_splits)
      then show ?thesis by simp
    next
      case False
      then have "toks s h = Some r" "toks s h' = Some r'" using a unfolding T by simp_all
      from tok_inv_kin [OF inv this k] show ?thesis by blast
    qed
  qed
  moreover have "told_ok (toks s') (ts_feed s')"
  proof -
    have "told_ok (toks s) (ts_feed s)" "ts_feed s' = ts_feed s" using inv i by (simp_all add: tok_inv_def inserts_def)
    then show ?thesis unfolding told_ok_def T by (auto split: if_splits)
  qed
  ultimately show ?thesis using inv i inserts_listed [OF inv i] by (simp add: tok_inv_def inserts_def)
qed

end
