(* ===== verification/Tokens_Moves.thy ===== *)
theory Tokens_Moves
  imports Tokens_Laws
begin

text \<open>
  Rotation as a move of the token store, and every operation of the store as a sequence of moves.
\<close>

text \<open>A rotation: the one unconsumed token of a family that is not revoked is consumed and its successor is stored.\<close>

definition rotated :: "refresh \<Rightarrow> refresh_row \<Rightarrow> instant \<Rightarrow> bytes \<Rightarrow> tok_store \<Rightarrow> tok_store \<Rightarrow> bool" where
  "rotated r0 row now fp s s' \<longleftrightarrow>
     (\<exists>s1. inserts row s s1 \<and> toks s (f_TokenHash (rt_row r0)) = Some r0 \<and> \<not> rt_consumed r0 \<and> \<not> rt_revoked r0 \<and>
        f_Subject row = f_Subject (rt_row r0) \<and> f_Lineage row = f_Lineage (rt_row r0) \<and>
        f_Family row = f_Family (rt_row r0) \<and> f_FamilyExpiresAt row \<le> f_FamilyExpiresAt (rt_row r0) \<and>
        \<not> time_IsZero now \<and>
        s' = s1\<lparr>ts_tokens := AList.update (f_TokenHash (rt_row r0)) (r0\<lparr>rt_consumedAt := now, rt_consumedBy := fp\<rparr>) (ts_tokens s1)\<rparr>)"

lemma rotated_toks:
  assumes "rotated r0 row now fp s s'"
  shows "toks s' = (toks s)(f_TokenHash row \<mapsto> new_token row,
      f_TokenHash (rt_row r0) \<mapsto> r0\<lparr>rt_consumedAt := now, rt_consumedBy := fp\<rparr>)"
    and "f_TokenHash row \<noteq> f_TokenHash (rt_row r0)" and "rt_key r0 = row_key row"
proof -
  obtain s1 where s1: "inserts row s s1" "toks s (f_TokenHash (rt_row r0)) = Some r0"
      "f_Subject row = f_Subject (rt_row r0)" "f_Family row = f_Family (rt_row r0)"
    and s': "s' = s1\<lparr>ts_tokens := AList.update (f_TokenHash (rt_row r0)) (r0\<lparr>rt_consumedAt := now, rt_consumedBy := fp\<rparr>) (ts_tokens s1)\<rparr>"
    using assms unfolding rotated_def by blast
  show "toks s' = (toks s)(f_TokenHash row \<mapsto> new_token row,
      f_TokenHash (rt_row r0) \<mapsto> r0\<lparr>rt_consumedAt := now, rt_consumedBy := fp\<rparr>)"
    using s1(1) unfolding s' inserts_def by simp
  show "f_TokenHash row \<noteq> f_TokenHash (rt_row r0)" using s1(1,2) unfolding inserts_def by auto
  show "rt_key r0 = row_key row" using s1 by (simp add: row_key_def)
qed

lemma listed_same_row:
  assumes "listed_ok T F" "T h0 = Some r0" "rt_row r1 = rt_row r0"
  shows "listed_ok (T(h0 \<mapsto> r1)) F"
proof -
  have eq: "(\<exists>r. (T(h0 \<mapsto> r1)) h = Some r \<and> rt_key r = fk) \<longleftrightarrow> (\<exists>r. T h = Some r \<and> rt_key r = fk)" for h fk
    using assms(2,3) by (cases "h = h0") simp_all
  have row: "f_TokenHash (rt_row r) = h \<and> checkRefreshRow (rt_row r) = Ok ()" if "(T(h0 \<mapsto> r1)) h = Some r" for h r
    using assms that by (cases "h = h0") (auto simp: listed_ok_def)
  show ?thesis using assms(1) row unfolding listed_ok_def eq by blast
qed

lemma rotated_inv:
  assumes inv: "tok_inv s" and rot: "rotated r0 row now fp s s'"
  shows "tok_inv s'"
proof -
  let ?h0 = "f_TokenHash (rt_row r0)" and ?h1 = "f_TokenHash row"
  let ?r0 = "r0\<lparr>rt_consumedAt := now, rt_consumedBy := fp\<rparr>"
  obtain s1 where i: "inserts row s s1" and r0: "toks s ?h0 = Some r0" "\<not> rt_consumed r0" "\<not> rt_revoked r0"
    and kin: "f_Subject row = f_Subject (rt_row r0)" "f_Lineage row = f_Lineage (rt_row r0)" and now: "\<not> time_IsZero now"
    and s': "s' = s1\<lparr>ts_tokens := AList.update ?h0 ?r0 (ts_tokens s1)\<rparr>"
    using rot unfolding rotated_def by blast
  note R = rotated_toks [OF rot]
  have T: "toks s' h = (if h = ?h0 then Some ?r0 else if h = ?h1 then Some (new_token row) else toks s h)" for h
    unfolding R(1) by simp
  have "listed_ok (toks s1) (\<lambda>fk. family_hashes fk s1)" by (rule inserts_listed [OF inv i])
  moreover have "toks s1 ?h0 = Some r0" using i r0(1) R(2) by (simp add: inserts_def)
  ultimately have "listed_ok (toks s') (\<lambda>fk. family_hashes fk s')"
    using listed_same_row [of "toks s1" _ ?h0 r0 ?r0] unfolding s' family_hashes_def by simp
  moreover have "kin_ok (toks s')"
    unfolding kin_ok_def
  proof (intro allI impI)
    fix h r h' r' assume a: "toks s' h = Some r" "toks s' h' = Some r'" and k: "rt_key r = rt_key r'"
    have mine: "\<not> rt_revoked q \<and> f_Subject (rt_row q) = f_Subject row \<and> f_Lineage (rt_row q) = f_Lineage row \<and>
        (x = ?h1 \<or> rt_consumed q)" if q: "toks s' x = Some q" "rt_key q = row_key row" for x q
    proof (cases "x = ?h0 \<or> x = ?h1")
      case True
      then show ?thesis using q(1) r0 kin now R(2) unfolding T by (auto split: if_splits)
    next
      case False
      then have "toks s x = Some q" using q(1) unfolding T by simp
      from tok_inv_kin [OF inv this r0(1)] show ?thesis using q(2) R(3) r0(2,3) kin False by simp
    qed
    show "f_Subject (rt_row r) = f_Subject (rt_row r') \<and> f_Lineage (rt_row r) = f_Lineage (rt_row r') \<and>
        rt_revoked r = rt_revoked r' \<and> (h = h' \<or> rt_consumed r \<or> rt_consumed r')"
    proof (cases "rt_key r = row_key row")
      case True
      then show ?thesis using mine [OF a(1)] mine [OF a(2)] k by auto
    next
      case False
      then have "toks s h = Some r" "toks s h' = Some r'" using a k R(3) unfolding T by (auto split: if_splits)
      from tok_inv_kin [OF inv this k] show ?thesis by blast
    qed
  qed
  moreover have "told_ok (toks s') (ts_feed s')"
  proof -
    have "told_ok (toks s) (ts_feed s)" "ts_feed s' = ts_feed s" using inv i s' by (simp_all add: tok_inv_def inserts_def)
    then show ?thesis unfolding told_ok_def T using r0(3) by (auto split: if_splits)
  qed
  ultimately show ?thesis using inv i s' by (simp add: tok_inv_def inserts_def)
qed

section \<open>Keys and the feed\<close>

definition keys_move :: "tok_store \<Rightarrow> tok_store \<Rightarrow> bool" where
  "keys_move s s' \<longleftrightarrow>
     ts_tokens s' = ts_tokens s \<and> ts_families s' = ts_families s \<and> ts_feed s' = ts_feed s \<and> ts_seq s' = ts_seq s \<and>
     wf_map (ts_keys s') \<and> wf_map (ts_keyIDs s') \<and> keys_ok (map_of (ts_keys s')) (map_of (ts_keyIDs s'))"

definition reaped :: "instant \<Rightarrow> tok_store \<Rightarrow> tok_store \<Rightarrow> bool" where
  "reaped now s s' \<longleftrightarrow>
     s' = s\<lparr>ts_feed := feed_keep now (ts_feed s)\<rparr> \<and>
     (\<forall>h r. toks s h = Some r \<longrightarrow> now < f_FamilyExpiresAt (rt_row r))"

lemma keys_move_refl: "tok_inv s \<Longrightarrow> keys_move s s"
  by (simp add: keys_move_def tok_inv_def)

lemma keys_move_inv: "tok_inv s \<Longrightarrow> keys_move s s' \<Longrightarrow> tok_inv s'"
  unfolding tok_inv_def keys_move_def family_hashes_def by simp

lemma keys_move_trans: "keys_move s s1 \<Longrightarrow> keys_move s1 s2 \<Longrightarrow> keys_move s s2"
  by (simp add: keys_move_def)

lemma reaped_inv:
  assumes inv: "tok_inv s" and r: "reaped now s s'"
  shows "tok_inv s'"
proof -
  have s': "s' = s\<lparr>ts_feed := feed_keep now (ts_feed s)\<rparr>"
    and left: "\<And>h r. toks s h = Some r \<Longrightarrow> now < f_FamilyExpiresAt (rt_row r)" using r by (simp_all add: reaped_def)
  have told: "told_ok (toks s) (ts_feed s)" using inv by (simp add: tok_inv_def)
  have "told_ok (toks s') (ts_feed s')"
    unfolding told_ok_def
  proof (intro allI impI)
    fix h q assume "toks s' h = Some q" "rt_revoked q"
    then have q: "toks s h = Some q" "rt_revoked q" unfolding s' by simp_all
    then obtain e where e: "e \<in> set (ts_feed s)" "names (fe_rev e) (rt_key q)" "f_FamilyExpiresAt (rt_row q) \<le> fe_expires e"
      using told unfolding told_ok_def by blast
    then have "e \<in> set (ts_feed s')" using left [OF q(1)] unfolding s' by (simp add: feed_keep_def)
    with e show "\<exists>e \<in> set (ts_feed s'). names (fe_rev e) (rt_key q) \<and> f_FamilyExpiresAt (rt_row q) \<le> fe_expires e" by blast
  qed
  then show ?thesis using inv unfolding tok_inv_def s' family_hashes_def by (simp add: feed_ok_keep)
qed

lemma keys_ok_drop:
  assumes k: "keys_ok K I" and r: "K ref = Some k"
  shows "keys_ok (K(ref := None)) (I(k_ID k := None))"
  unfolding keys_ok_def
proof (intro conjI allI impI)
  fix ref' k' assume "(K(ref := None)) ref' = Some k'"
  then have k': "K ref' = Some k'" "ref' \<noteq> ref" by (auto split: if_splits)
  note f = k [unfolded keys_ok_def, THEN conjunct1, rule_format]
  have "k_ID k' \<noteq> k_ID k" using f [OF k'(1)] f [OF r] k'(2) by auto
  then show "(I(k_ID k := None)) (k_ID k') = Some ref'" using f [OF k'(1)] by simp
  show "cloneKey k' = k'" "ref' = \<lparr>kr_tenant = s_tenant (k_Owner k'), kr_hash = k_KeyHash k'\<rparr>"
    using f [OF k'(1)] by blast+
next
  fix i ref' assume "(I(k_ID k := None)) i = Some ref'"
  then have i: "I i = Some ref'" "i \<noteq> k_ID k" by (auto split: if_splits)
  then obtain k' where k': "K ref' = Some k'" "k_ID k' = i" using k unfolding keys_ok_def by blast
  then have "ref' \<noteq> ref" using r i(2) by auto
  then show "\<exists>k'. (K(ref := None)) ref' = Some k' \<and> k_ID k' = i" using k' by simp
qed

abbreviation drop_refs :: "tok_store \<Rightarrow> (key_ref \<times> api_key) list \<Rightarrow> tok_store" where
  "drop_refs s xs \<equiv> foldl (\<lambda>s (ref, k). tokens_dropKey ref (k_ID k) s) s xs"

lemma drop_refs_keys:
  assumes "tok_inv s" "distinct (map fst xs)" "\<And>ref k. (ref, k) \<in> set xs \<Longrightarrow> map_of (ts_keys s) ref = Some k"
  shows "keys_move s (drop_refs s xs) \<and> map_of (ts_keys (drop_refs s xs)) = map_of (ts_keys s) |` (- fst ` set xs)"
  using assms
proof (induction xs arbitrary: s)
  case Nil
  then show ?case by (simp add: keys_move_refl restrict_map_def)
next
  case (Cons x xs)
  obtain ref k where x: "x = (ref, k)" by fastforce
  let ?s = "tokens_dropKey ref (k_ID k) s"
  have k: "map_of (ts_keys s) ref = Some k" using Cons.prems(3) x by simp
  have K: "map_of (ts_keys ?s) = (map_of (ts_keys s))(ref := None)" by (simp add: tokens_dropKey_def)
  have "keys_move s ?s"
    using keys_ok_drop [where K = "map_of (ts_keys s)", OF _ k] Cons.prems(1) by (simp add: keys_move_def tok_inv_def tokens_dropKey_def)
  moreover from this have inv: "tok_inv ?s" by (rule keys_move_inv [OF Cons.prems(1)])
  moreover have "map_of (ts_keys ?s) ref' = Some k'" if "(ref', k') \<in> set xs" for ref' k'
  proof -
    have "ref' \<noteq> ref" using Cons.prems(2) x that by (force simp: image_iff)
    then show ?thesis using Cons.prems(3) that unfolding K by simp
  qed
  ultimately have "keys_move s (drop_refs ?s xs)"
    and "map_of (ts_keys (drop_refs ?s xs)) = map_of (ts_keys ?s) |` (- fst ` set xs)"
    using Cons.IH [of ?s] Cons.prems(2) keys_move_trans by auto
  moreover have "map_of (ts_keys ?s) |` (- fst ` set xs) = map_of (ts_keys s) |` (- fst ` set (x # xs))"
    unfolding K x by (auto simp: restrict_map_def fun_eq_iff)
  ultimately show ?case using x by simp
qed

lemma drop_some_keys:
  assumes inv: "tok_inv s"
  shows "keys_move s (drop_refs s (filter P (ts_keys s)))"
    and "map_of (ts_keys (drop_refs s (filter P (ts_keys s)))) ref =
      (case map_of (ts_keys s) ref of None \<Rightarrow> None | Some k \<Rightarrow> if P (ref, k) then None else Some k)"
proof -
  have wf: "wf_map (ts_keys s)" using inv by (simp add: tok_inv_def)
  have d: "distinct (map fst (filter P (ts_keys s)))" using wf by (rule distinct_map_filter)
  have m: "map_of (ts_keys s) ref = Some k" if "(ref, k) \<in> set (filter P (ts_keys s))" for ref k
    using that wf by (simp add: map_of_eq_Some_iff)
  note r = drop_refs_keys [OF inv d m]
  show "keys_move s (drop_refs s (filter P (ts_keys s)))" using r by blast
  have "ref \<in> fst ` set (filter P (ts_keys s)) \<longleftrightarrow> (\<exists>k. map_of (ts_keys s) ref = Some k \<and> P (ref, k))"
    using wf by (force simp: map_of_eq_Some_iff)
  then show "map_of (ts_keys (drop_refs s (filter P (ts_keys s)))) ref =
      (case map_of (ts_keys s) ref of None \<Rightarrow> None | Some k \<Rightarrow> if P (ref, k) then None else Some k)"
    using r by (auto simp: restrict_map_def split: option.splits)
qed

section \<open>Moves\<close>

text \<open>\<open>N\<close> restricts which rows a move may store; its first argument says whether the row starts a family.\<close>

inductive move :: "(bool \<Rightarrow> refresh_row \<Rightarrow> bool) \<Rightarrow> tok_store \<Rightarrow> tok_store \<Rightarrow> bool" for N where
  revoke: "revokes fk now s s' \<Longrightarrow> move N s s'"
| drop: "drops D s s' \<Longrightarrow> move N s s'"
| start: "begins row s s' \<Longrightarrow> N True row \<Longrightarrow> move N s s'"
| rotate: "rotated r0 row now fp s s' \<Longrightarrow> N False row \<Longrightarrow> move N s s'"
| keys: "keys_move s s' \<Longrightarrow> move N s s'"
| reap: "reaped now s s' \<Longrightarrow> move N s s'"

abbreviation moves :: "(bool \<Rightarrow> refresh_row \<Rightarrow> bool) \<Rightarrow> tok_store \<Rightarrow> tok_store \<Rightarrow> bool" where
  "moves N \<equiv> (move N)\<^sup>*\<^sup>*"

lemma move_inv: "move N s s' \<Longrightarrow> tok_inv s \<Longrightarrow> tok_inv s'"
  by (induction rule: move.induct)
    (auto intro: revokes_inv drops_inv begins_inv rotated_inv keys_move_inv reaped_inv)

lemma moves_inv: "moves N s s' \<Longrightarrow> tok_inv s \<Longrightarrow> tok_inv s'"
  by (induction rule: rtranclp_induct) (auto intro: move_inv)

lemma move_grows: "move N s s' \<Longrightarrow> feed_grows (ts_feed s) (ts_seq s) (ts_feed s') (ts_seq s')"
proof (induction rule: move.induct)
  case (revoke fk now s s')
  then show ?case by (cases "family_open fk s") (auto simp: revokes_def feed_grows_def)
next
  case (rotate r0 row now fp s s')
  then have "ts_feed s' = ts_feed s" "ts_seq s' = ts_seq s" by (auto simp: rotated_def inserts_def)
  then show ?case by simp
next
  case (reap now s s')
  then show ?case using feed_grows_keep by (auto simp: reaped_def)
qed (simp_all add: drops_def begins_def inserts_def keys_move_def)

lemma moves_grows: "moves N s s' \<Longrightarrow> feed_grows (ts_feed s) (ts_seq s) (ts_feed s') (ts_seq s')"
  by (induction rule: rtranclp_induct) (auto intro: feed_grows_trans move_grows)

text \<open>What a move does to a token: it keeps its row, never undoes a revocation and never changes who consumed it.\<close>

definition evolves :: "refresh \<Rightarrow> refresh \<Rightarrow> bool" where
  "evolves r r' \<longleftrightarrow>
     rt_row r' = rt_row r \<and> (rt_revoked r \<longrightarrow> rt_revoked r') \<and>
     (rt_consumed r \<longrightarrow> rt_consumedAt r' = rt_consumedAt r \<and> rt_consumedBy r' = rt_consumedBy r)"

lemma evolves_refl [simp]: "evolves r r"
  by (simp add: evolves_def)

lemma evolves_trans: "evolves r r1 \<Longrightarrow> evolves r1 r2 \<Longrightarrow> evolves r r2"
  by (auto simp: evolves_def)

text \<open>A successor stays in the family, with the same subject and lineage, and does not outlive its predecessor's family.\<close>

definition succeeds :: "refresh_row \<Rightarrow> refresh_row \<Rightarrow> bool" where
  "succeeds row row' \<longleftrightarrow>
     row_key row' = row_key row \<and> f_Subject row' = f_Subject row \<and> f_Lineage row' = f_Lineage row \<and>
     f_FamilyExpiresAt row' \<le> f_FamilyExpiresAt row"

lemma succeeds_refl [simp]: "succeeds row row"
  by (simp add: succeeds_def)

lemma succeeds_trans: "succeeds a b \<Longrightarrow> succeeds b c \<Longrightarrow> succeeds a c"
  by (simp add: succeeds_def)

lemma move_token:
  assumes "move N s s'" "toks s' h = Some r'"
  shows "(\<exists>r. toks s h = Some r \<and> evolves r r') \<or>
    (\<exists>start. N start (rt_row r') \<and> r' = new_token (rt_row r') \<and> h = f_TokenHash (rt_row r') \<and>
       (start \<or> (\<exists>h0 r0. toks s h0 = Some r0 \<and> \<not> rt_revoked r0 \<and> succeeds (rt_row r0) (rt_row r'))))"
  using assms
proof (induction rule: move.induct)
  case (revoke fk now s s')
  then show ?case by (auto simp: revokes_def evolves_def)
next
  case (drop D s s')
  then show ?case by (auto simp: drops_def restrict_Some)
next
  case (start row s s')
  then have "(if h = f_TokenHash row then r' = new_token row else toks s h = Some r')"
    by (auto simp: begins_def inserts_def)
  then show ?case using start(2) by (cases "h = f_TokenHash row") auto
next
  case (rotate r0 row now fp s s')
  note R = rotated_toks [OF rotate(1)]
  have r0: "toks s (f_TokenHash (rt_row r0)) = Some r0" "\<not> rt_consumed r0" "\<not> rt_revoked r0"
    using rotate(1) by (auto simp: rotated_def)
  consider "h = f_TokenHash (rt_row r0)" | "h \<noteq> f_TokenHash (rt_row r0)" "h = f_TokenHash row"
    | "h \<noteq> f_TokenHash (rt_row r0)" "h \<noteq> f_TokenHash row" by blast
  then show ?case
  proof cases
    case 1
    then have "r' = r0\<lparr>rt_consumedAt := now, rt_consumedBy := fp\<rparr>" using rotate(3) unfolding R(1) by simp
    then have "evolves r0 r'" using r0 by (simp add: evolves_def)
    then show ?thesis using r0(1) 1 by blast
  next
    case 2
    then have r': "r' = new_token row" using rotate(3) unfolding R(1) by simp
    have "succeeds (rt_row r0) row" using rotate(1) R(3) by (auto simp: rotated_def succeeds_def)
    then show ?thesis using r' 2 rotate(2) r0(1,3) by auto
  next
    case 3
    then have "toks s h = Some r'" using rotate(3) unfolding R(1) by simp
    then show ?thesis by auto
  qed
next
  case (keys s s')
  then show ?case by (auto simp: keys_move_def)
next
  case (reap now s s')
  then show ?case by (auto simp: reaped_def)
qed

text \<open>Unless the family is started anew, a revoked family stays revoked.\<close>

definition family_dead :: "family_key \<Rightarrow> tok_store \<Rightarrow> bool" where
  "family_dead fk s \<longleftrightarrow> (\<forall>h r. toks s h = Some r \<longrightarrow> rt_key r = fk \<longrightarrow> rt_revoked r)"

lemma dead_not_open: "family_dead fk s \<longleftrightarrow> \<not> family_open fk s"
  by (auto simp: family_dead_def family_open_def)

lemma dead_move:
  assumes "move (\<lambda>start row. start \<longrightarrow> row_key row \<noteq> fk) s s'" "family_dead fk s"
  shows "family_dead fk s'"
  unfolding family_dead_def
proof (intro allI impI)
  fix h r' assume r': "toks s' h = Some r'" "rt_key r' = fk"
  from move_token [OF assms(1) r'(1)] consider r where "toks s h = Some r" "evolves r r'"
    | start where "start \<longrightarrow> rt_key r' \<noteq> fk" "start \<or> family_open (rt_key r') s"
    unfolding succeeds_def family_open_def by metis
  then show "rt_revoked r'"
  proof cases
    case 1
    then show ?thesis using assms(2) r'(2) by (auto simp: family_dead_def evolves_def)
  next
    case 2
    then show ?thesis using assms(2) r'(2) by (auto simp: dead_not_open)
  qed
qed

lemma dead_moves: "moves (\<lambda>start row. start \<longrightarrow> row_key row \<noteq> fk) s s' \<Longrightarrow> family_dead fk s \<Longrightarrow> family_dead fk s'"
  by (induction rule: rtranclp_induct) (auto intro: dead_move)

text \<open>Unless its digest is stored anew, a consumed token stays consumed, by the same client, until it is dropped.\<close>

definition spent :: "bytes \<Rightarrow> instant \<Rightarrow> bytes \<Rightarrow> tok_store \<Rightarrow> bool" where
  "spent h at fp s \<longleftrightarrow> (\<forall>r. toks s h = Some r \<longrightarrow> rt_consumed r \<and> rt_consumedAt r = at \<and> rt_consumedBy r = fp)"

lemma spent_move:
  assumes "move (\<lambda>start row. f_TokenHash row \<noteq> h) s s'" "spent h at fp s"
  shows "spent h at fp s'"
  unfolding spent_def
proof (intro allI impI)
  fix r' assume r': "toks s' h = Some r'"
  from move_token [OF assms(1) r'] obtain r where "toks s h = Some r" "evolves r r'" by blast
  then show "rt_consumed r' \<and> rt_consumedAt r' = at \<and> rt_consumedBy r' = fp"
    using assms(2) by (auto simp: spent_def evolves_def)
qed

lemma spent_moves: "moves (\<lambda>start row. f_TokenHash row \<noteq> h) s s' \<Longrightarrow> spent h at fp s \<Longrightarrow> spent h at fp s'"
  by (induction rule: rtranclp_induct) (auto intro: spent_move)

end
