(* ===== verification/Tokens_Ops.thy ===== *)
theory Tokens_Ops
  imports Tokens_Moves
begin

text \<open>
  The operations of the token store as one transition system. Each operation is shown to be a sequence of
  moves and not to panic, so the invariant and the run lemmas of the moves hold for every run of the store.
\<close>

section \<open>Revocation of several families\<close>

lemma each_moves:
  assumes "\<And>x s. tok_inv s \<Longrightarrow> \<exists>s'. f x s = Ok s' \<and> moves N s s'" "tok_inv s"
  shows "\<exists>s'. each f xs s = Ok s' \<and> moves N s s'"
  using assms(2)
proof (induction xs arbitrary: s)
  case (Cons x xs)
  obtain s1 where 1: "f x s = Ok s1" "moves N s s1" using assms(1) Cons.prems by blast
  then obtain s2 where "each f xs s1 = Ok s2" "moves N s1 s2" using Cons.IH moves_inv [OF 1(2) Cons.prems] by blast
  with 1 show ?case by (auto simp: result_bind_def)
qed simp

lemma revoke_moves: "tok_inv s \<Longrightarrow> \<exists>s'. tokens_revoke fk now s = Ok s' \<and> moves N s s'"
  using revoke_Ok move.revoke by blast

lemma revoke_drop_moves: "tok_inv s \<Longrightarrow> \<exists>s'. revoke_drop now fk s = Ok s' \<and> moves N s s'"
proof -
  assume inv: "tok_inv s"
  obtain s1 where 1: "tokens_revoke fk now s = Ok s1" "revokes fk now s s1" using revoke_Ok [OF inv] by blast
  have "drops (set (family_hashes fk s1)) s1 (tokens_dropFamily fk s1)"
    unfolding tokens_dropFamily_def by (rule drop_all [OF revokes_inv [OF inv 1(2)]])
  with 1 have "moves N s (tokens_dropFamily fk s1)"
    by (meson move.drop move.revoke r_into_rtranclp rtranclp.rtrancl_into_rtrancl)
  then show ?thesis using 1(1) by (simp add: revoke_drop_def result_bind_def)
qed

lemma select_families_Ok:
  assumes "\<And>fk hs. (fk, hs) \<in> set fs \<Longrightarrow> hs \<noteq> [] \<and> map_of m (hd hs) \<noteq> None"
  shows "\<exists>out. select_families sub keep m fs = Ok out \<and>
    (\<forall>fk. fk \<in> set out \<longleftrightarrow> (\<exists>hs r. (fk, hs) \<in> set fs \<and> fk_tenant fk = s_tenant sub \<and> map_of m (hd hs) = Some r \<and>
       f_Subject (rt_row r) = sub \<and> \<not> keep (rt_row r)))"
  using assms
proof (induction fs)
  case (Cons x fs)
  obtain fk hs where x: "x = (fk, hs)" by fastforce
  obtain out where out: "select_families sub keep m fs = Ok out"
    "\<forall>fk. fk \<in> set out \<longleftrightarrow> (\<exists>hs r. (fk, hs) \<in> set fs \<and> fk_tenant fk = s_tenant sub \<and> map_of m (hd hs) = Some r \<and>
       f_Subject (rt_row r) = sub \<and> \<not> keep (rt_row r))"
    using Cons.IH Cons.prems by (metis list.set_intros(2))
  obtain r where r: "hs \<noteq> []" "map_of m (hd hs) = Some r" using Cons.prems [of fk hs] x by auto
  show ?case
    using out r x by (cases "fk_tenant fk = s_tenant sub") (auto simp: result_bind_def)
qed simp

text \<open>Under the invariant the selected families are those with a token of the subject that is not kept.\<close>

lemma subjectFamilies_Ok:
  assumes inv: "tok_inv s" and keep: "\<And>r r'. f_Lineage r = f_Lineage r' \<Longrightarrow> keep r = keep r'"
  shows "\<exists>out. subjectFamilies sub keep s = Ok out \<and>
    (\<forall>fk. fk \<in> set out \<longleftrightarrow> (\<exists>h r. toks s h = Some r \<and> rt_key r = fk \<and> f_Subject (rt_row r) = sub \<and> \<not> keep (rt_row r)))"
proof -
  have wf: "wf_map (ts_families s)" using inv by (simp add: tok_inv_def)
  have mem: "(fk, hs) \<in> set (ts_families s) \<longleftrightarrow> hs = family_hashes fk s \<and> hs \<noteq> []" for fk hs
  proof -
    have "map_of (ts_families s) fk \<noteq> Some []" using inv by (simp add: tok_inv_def)
    moreover have "(fk, hs) \<in> set (ts_families s) \<longleftrightarrow> map_of (ts_families s) fk = Some hs"
      using map_of_eq_Some_iff [OF wf] by simp
    ultimately show ?thesis unfolding family_hashes_def by (cases "map_of (ts_families s) fk") auto
  qed
  have hd: "hs \<noteq> [] \<and> toks s (hd hs) \<noteq> None" if "(fk, hs) \<in> set (ts_families s)" for fk hs
    using that hd_in_set [of hs] tok_inv_listed [OF inv, of "hd hs" fk] unfolding mem by auto
  have "\<exists>out. select_families sub keep (ts_tokens s) (ts_families s) = Ok out \<and>
    (\<forall>fk. fk \<in> set out \<longleftrightarrow> (\<exists>hs r. (fk, hs) \<in> set (ts_families s) \<and> fk_tenant fk = s_tenant sub \<and>
       toks s (hd hs) = Some r \<and> f_Subject (rt_row r) = sub \<and> \<not> keep (rt_row r)))"
    by (rule select_families_Ok) (erule hd)
  then obtain out where out: "select_families sub keep (ts_tokens s) (ts_families s) = Ok out"
    "\<And>fk. fk \<in> set out \<longleftrightarrow> (\<exists>hs r. (fk, hs) \<in> set (ts_families s) \<and> fk_tenant fk = s_tenant sub \<and>
       toks s (hd hs) = Some r \<and> f_Subject (rt_row r) = sub \<and> \<not> keep (rt_row r))"
    by blast
  have "fk \<in> set out \<longleftrightarrow> (\<exists>h r. toks s h = Some r \<and> rt_key r = fk \<and> f_Subject (rt_row r) = sub \<and> \<not> keep (rt_row r))" for fk
  proof
    assume "fk \<in> set out"
    then obtain r where r: "family_hashes fk s \<noteq> []" "toks s (hd (family_hashes fk s)) = Some r"
      "f_Subject (rt_row r) = sub" "\<not> keep (rt_row r)" unfolding out(2) mem by blast
    then have "rt_key r = fk" using hd_in_set [of "family_hashes fk s"] tok_inv_listed [OF inv, of _ fk] by fastforce
    then show "\<exists>h r. toks s h = Some r \<and> rt_key r = fk \<and> f_Subject (rt_row r) = sub \<and> \<not> keep (rt_row r)" using r by blast
  next
    assume "\<exists>h r. toks s h = Some r \<and> rt_key r = fk \<and> f_Subject (rt_row r) = sub \<and> \<not> keep (rt_row r)"
    then obtain h r where r: "toks s h = Some r" "rt_key r = fk" "f_Subject (rt_row r) = sub" "\<not> keep (rt_row r)" by blast
    then have "h \<in> set (family_hashes fk s)" using tok_inv_listed [OF inv] by blast
    then have ne: "family_hashes fk s \<noteq> []" by auto
    then obtain q where q: "toks s (hd (family_hashes fk s)) = Some q" "rt_key q = fk"
      using hd_in_set [of "family_hashes fk s"] tok_inv_listed [OF inv, of _ fk] by blast
    have "f_Subject (rt_row q) = sub" "f_Lineage (rt_row q) = f_Lineage (rt_row r)"
      using tok_inv_kin [OF inv q(1) r(1)] q(2) r(2,3) by simp_all
    moreover have "fk_tenant fk = s_tenant sub" using r(2,3) by (auto simp: row_key_def)
    ultimately show "fk \<in> set out" unfolding out(2) mem using ne q(1) r(4) keep by blast
  qed
  then show ?thesis using out(1) by (simp add: subjectFamilies_def result_bind_def)
qed

section \<open>The operations\<close>

datatype tok_op =
    TEraseTenant tenant_id | TReap | TCreate refresh_record | TGet tenant_id bytes | TRotate rotation_request
  | TReissue reissue_request | TFamilyState tenant_id uuid | TRevokeFamily tenant_id uuid
  | TRevokeForSubject subject uuid | TSince cursor | TDelete subject
  | TCreateKey api_key | TGetKey tenant_id bytes | TListKeys subject | TRevokeKey subject uuid

fun tok_exec :: "context_err \<Rightarrow> instant \<Rightarrow> tok_op \<Rightarrow> tok_store \<Rightarrow> unit result \<times> tok_store" where
  "tok_exec ctx clk (TEraseTenant t) s = tokens_EraseTenant ctx clk t s"
| "tok_exec ctx clk TReap s = map_prod result_void id (tokens_ReapExpired ctx clk s)"
| "tok_exec ctx clk (TCreate r) s = tokens_Create ctx r s"
| "tok_exec ctx clk (TGet t h) s = map_prod result_void id (tokens_Get ctx clk t h s)"
| "tok_exec ctx clk (TRotate q) s = map_prod result_void id (tokens_ConsumeForRotation ctx clk q s)"
| "tok_exec ctx clk (TReissue q) s = tokens_Reissue ctx clk q s"
| "tok_exec ctx clk (TFamilyState t f) s = map_prod result_void id (tokens_FamilyState ctx t f s)"
| "tok_exec ctx clk (TRevokeFamily t f) s = tokens_RevokeFamily ctx clk t f s"
| "tok_exec ctx clk (TRevokeForSubject sub l) s = tokens_RevokeForSubject ctx clk sub l s"
| "tok_exec ctx clk (TSince c) s = map_prod result_void id (tokens_RevocationsSince ctx c s)"
| "tok_exec ctx clk (TDelete sub) s = tokens_DeleteForSubject ctx clk sub s"
| "tok_exec ctx clk (TCreateKey k) s = tokens_CreateAPIKey ctx k s"
| "tok_exec ctx clk (TGetKey t h) s = map_prod result_void id (tokens_GetAPIKey ctx clk t h s)"
| "tok_exec ctx clk (TListKeys sub) s = map_prod result_void id (tokens_ListAPIKeys ctx sub s)"
| "tok_exec ctx clk (TRevokeKey sub i) s = tokens_RevokeAPIKey ctx clk sub i s"

text \<open>The row an operation may store, and whether it starts a family.\<close>

fun op_stores :: "tok_op \<Rightarrow> (bool \<Rightarrow> refresh_row \<Rightarrow> bool) \<Rightarrow> bool" where
  "op_stores (TCreate r) N \<longleftrightarrow> N True (tokens_rowOf r)"
| "op_stores (TReissue q) N \<longleftrightarrow> N True (tokens_rowOf (ri_Next q))"
| "op_stores (TRotate q) N \<longleftrightarrow> N False (tokens_rowOf (rr_Next q))"
| "op_stores _ N \<longleftrightarrow> True"

text \<open>A clock reads an instant after the first microsecond of year 1, as every clock does.\<close>

definition clock_ok :: "instant \<Rightarrow> bool" where
  "clock_ok clk \<longleftrightarrow> zero_time + Microsecond \<le> clk"

lemma clock_ok_now: "clock_ok clk \<Longrightarrow> \<not> time_IsZero (tokens_now clk)"
  using time_Truncate_mono [of Microsecond "zero_time + Microsecond" clk]
  by (simp add: clock_ok_def tokens_now_def time_IsZero_def time_Truncate_alt Microsecond_def)

definition runs_as :: "(bool \<Rightarrow> refresh_row \<Rightarrow> bool) \<Rightarrow> tok_store \<Rightarrow> unit result \<times> tok_store \<Rightarrow> bool" where
  "runs_as N s r \<longleftrightarrow> moves N s (snd r) \<and> fst r \<noteq> Panic"

lemma runs_as_stay [simp]: "r \<noteq> Panic \<Longrightarrow> runs_as N s (r, s)"
  by (simp add: runs_as_def)

lemma runs_as_finish: "(\<exists>s'. r = Ok s' \<and> moves N s s') \<or> (\<exists>e. r = Err e) \<Longrightarrow> runs_as N s (finish s r)"
  by (auto simp: runs_as_def finish_def)

lemma runs_as_ctx: "runs_as N s r \<Longrightarrow> runs_as N s (with_ctx ctx s r)"
  by (cases ctx) simp_all

lemma rowOf_simps [simp]:
  "f_TokenHash (tokens_rowOf r) = f_TokenHash (frec r)" "f_Family (tokens_rowOf r) = f_Family (frec r)"
  "f_Subject (tokens_rowOf r) = f_Subject (frec r)" "f_Lineage (tokens_rowOf r) = f_Lineage (frec r)"
  "row_key (tokens_rowOf r) = record_key r"
  "f_FamilyExpiresAt (tokens_rowOf r) = time_Truncate (f_FamilyExpiresAt (frec r)) Microsecond"
  by (simp_all add: tokens_rowOf_def row_key_def record_key_def refresh_Tenant_def)

lemma insert_begins:
  assumes inv: "tok_inv s" and new: "map_of (ts_families s) (record_key r) = None"
  shows "(\<exists>s'. tokens_insert r s = Ok s' \<and> begins (tokens_rowOf r) s s') \<or> (\<exists>e. tokens_insert r s = Err e)"
  using insert_cases [OF inv, of r] new family_listed [OF inv, of "record_key r"] by (auto simp: begins_def)

lemma Create_runs:
  assumes "tok_inv s" "N True (tokens_rowOf r)"
  shows "runs_as N s (tokens_Create ctx r s)"
proof (cases "refresh_IsZero r \<or> map_of (ts_families s) (record_key r) \<noteq> None")
  case False
  then have "runs_as N s (finish s (tokens_insert r s))"
    using insert_begins [OF assms(1), of r] assms(2) move.start by (intro runs_as_finish) blast
  then show ?thesis using False by (auto simp: tokens_Create_def intro!: runs_as_ctx)
qed (auto simp: tokens_Create_def intro!: runs_as_ctx)

lemma replayable_cases:
  "replayable r now = Ok () \<or> (\<exists>e. replayable r now = Err e)"
  by (auto simp: replayable_def usable_def)

lemma replayable_Ok_iff:
  "replayable r now = Ok () \<longleftrightarrow>
     \<not> rt_revoked r \<and> now < f_FamilyExpiresAt (rt_row r) \<and> (now < f_IdleExpiresAt (rt_row r) \<or> rt_consumed r)"
  by (auto simp: replayable_def usable_def)

lemma lookup_token: "tokens_lookup t h s = Some r \<longleftrightarrow> toks s h = Some r \<and> s_tenant (f_Subject (rt_row r)) = t"
  by (auto simp: tokens_lookup_def split: option.splits)

text \<open>The branches of a rotation.\<close>

definition rotation_ok :: "instant \<Rightarrow> rotation_request \<Rightarrow> refresh \<Rightarrow> tok_store \<Rightarrow> bool" where
  "rotation_ok now req r s \<longleftrightarrow>
     \<not> refresh_IsZero (rr_Next req) \<and> length (rr_Presented req) = tokens_HashLen \<and>
     tokens_lookup (refresh_Tenant (rr_Next req)) (rr_Presented req) s = Some r \<and>
     replayable r now = Ok () \<and> continues (rt_row r) (rr_Next req)"

lemma Rotate_reuse:
  assumes "rotation_ok (tokens_now clk) req r s" "rt_consumed r" "\<not> same_client r (rr_Next req) (tokens_now clk)"
    and "tokens_revoke (rt_key r) (tokens_now clk) s = Ok s'"
  shows "tokens_ConsumeForRotation None clk req s = (Err [TokensErr ErrReused], s')"
  using assms by (simp add: tokens_ConsumeForRotation_def rotation_ok_def Let_def)

lemma Rotate_rotated:
  assumes ok: "rotation_ok (tokens_now clk) req r s" "\<not> rt_consumed r"
    and fe: "f_FamilyExpiresAt (tokens_rowOf (rr_Next req)) \<le> f_FamilyExpiresAt (rt_row r)"
    and s1: "tokens_insert (rr_Next req) s = Ok s1" "inserts (tokens_rowOf (rr_Next req)) s s1"
    and inv: "tok_inv s" and clk: "clock_ok clk"
  shows "\<exists>s'. tokens_ConsumeForRotation None clk req s =
      (Ok \<lparr>ro_Family = f_Family (rt_row r), ro_ConsumedAt = tokens_now clk\<rparr>, s') \<and>
    rotated r (tokens_rowOf (rr_Next req)) (tokens_now clk) (f_ClientFingerprint (frec (rr_Next req))) s s'"
proof -
  let ?now = "tokens_now clk" and ?fp = "f_ClientFingerprint (frec (rr_Next req))"
  let ?s = "s1\<lparr>ts_tokens := AList.update (rr_Presented req) (r\<lparr>rt_consumedAt := ?now, rt_consumedBy := ?fp\<rparr>) (ts_tokens s1)\<rparr>"
  have T: "toks s (rr_Presented req) = Some r" using ok(1) by (simp add: rotation_ok_def lookup_token)
  then have h: "f_TokenHash (rt_row r) = rr_Presented req" using tok_inv_row [OF inv] by blast
  have "continues (rt_row r) (rr_Next req)" "\<not> rt_revoked r"
    using ok(1) by (simp_all add: rotation_ok_def replayable_Ok_iff)
  then have "rotated r (tokens_rowOf (rr_Next req)) ?now ?fp s ?s"
    unfolding rotated_def h using s1(2) T ok(2) fe clock_ok_now [OF clk]
    by (intro exI [of _ s1]) (simp add: continues_def)
  moreover have "tokens_ConsumeForRotation None clk req s =
      (Ok \<lparr>ro_Family = f_Family (rt_row r), ro_ConsumedAt = ?now\<rparr>, ?s)"
    using ok fe s1(1) by (simp add: tokens_ConsumeForRotation_def rotation_ok_def Let_def not_less)
  ultimately show ?thesis by blast
qed

lemma Rotate_cases:
  assumes inv: "tok_inv s" and clk: "clock_ok clk"
  shows "(\<exists>e. tokens_ConsumeForRotation None clk req s = (Err e, s)) \<or>
    (\<exists>r s'. rotation_ok (tokens_now clk) req r s \<and> rt_consumed r \<and> \<not> same_client r (rr_Next req) (tokens_now clk) \<and>
       tokens_ConsumeForRotation None clk req s = (Err [TokensErr ErrReused], s') \<and> revokes (rt_key r) (tokens_now clk) s s') \<or>
    (\<exists>r s'. rotation_ok (tokens_now clk) req r s \<and> \<not> rt_consumed r \<and>
       tokens_ConsumeForRotation None clk req s =
         (Ok \<lparr>ro_Family = f_Family (rt_row r), ro_ConsumedAt = tokens_now clk\<rparr>, s') \<and>
       rotated r (tokens_rowOf (rr_Next req)) (tokens_now clk) (f_ClientFingerprint (frec (rr_Next req))) s s')"
    (is "?A \<or> ?B \<or> ?C")
proof (cases "\<exists>r. rotation_ok (tokens_now clk) req r s")
  case False
  have ?A
  proof (cases "refresh_IsZero (rr_Next req) \<or> length (rr_Presented req) \<noteq> tokens_HashLen")
    case True
    then show ?thesis by (auto simp: tokens_ConsumeForRotation_def)
  next
    case ok: False
    show ?thesis
    proof (cases "tokens_lookup (refresh_Tenant (rr_Next req)) (rr_Presented req) s")
      case None
      then show ?thesis using ok by (simp add: tokens_ConsumeForRotation_def Let_def)
    next
      case (Some r)
      then show ?thesis using ok False replayable_cases [of r "tokens_now clk"]
        by (auto simp: tokens_ConsumeForRotation_def Let_def rotation_ok_def)
    qed
  qed
  then show ?thesis ..
next
  case True
  then obtain r where ok: "rotation_ok (tokens_now clk) req r s" ..
  note ok' = ok [unfolded rotation_ok_def]
  show ?thesis
  proof (cases "rt_consumed r")
    case True
    show ?thesis
    proof (cases "same_client r (rr_Next req) (tokens_now clk)")
      case same: True
      then have ?A using ok' True by (simp add: tokens_ConsumeForRotation_def Let_def)
      then show ?thesis ..
    next
      case other: False
      obtain s' where s': "tokens_revoke (rt_key r) (tokens_now clk) s = Ok s'" "revokes (rt_key r) (tokens_now clk) s s'"
        using revoke_Ok [OF inv] by blast
      then have ?B using Rotate_reuse [OF ok True other s'(1)] ok True other by blast
      then show ?thesis by blast
    qed
  next
    case new: False
    show ?thesis
    proof (cases "f_FamilyExpiresAt (tokens_rowOf (rr_Next req)) \<le> f_FamilyExpiresAt (rt_row r)")
      case True
      from insert_cases [OF inv, of "rr_Next req"] show ?thesis
      proof
        assume "\<exists>s1. tokens_insert (rr_Next req) s = Ok s1 \<and> inserts (tokens_rowOf (rr_Next req)) s s1"
        then obtain s1 where "tokens_insert (rr_Next req) s = Ok s1" "inserts (tokens_rowOf (rr_Next req)) s s1" by blast
        from Rotate_rotated [OF ok new True this inv clk] ok new have ?C by blast
        then show ?thesis by blast
      next
        assume "\<exists>e. tokens_insert (rr_Next req) s = Err e"
        then have ?A using ok' new True by (auto simp: tokens_ConsumeForRotation_def Let_def)
        then show ?thesis ..
      qed
    next
      case False
      then have ?A using ok' new by (simp add: tokens_ConsumeForRotation_def Let_def)
      then show ?thesis ..
    qed
  qed
qed

lemma Rotate_runs:
  assumes "tok_inv s" "clock_ok clk" "N False (tokens_rowOf (rr_Next q))"
  shows "runs_as N s (map_prod result_void id (tokens_ConsumeForRotation ctx clk q s))"
proof (cases ctx)
  case None
  then show ?thesis
    using Rotate_cases [OF assms(1,2), of q] assms(3) move.revoke move.rotate
    by (elim disjE exE conjE) (simp_all add: runs_as_def result_void_def, blast+)
qed (simp add: tokens_ConsumeForRotation_def result_void_def)

section \<open>The state of a family\<close>

lemma state_loop_Ok:
  assumes "None \<notin> set rs"
  shows "\<exists>st'. state_loop rs st = Ok st' \<and> fs_Subject st' = fs_Subject st \<and> fs_Lineage st' = fs_Lineage st \<and>
    fs_Revoked st' = (fs_Revoked st \<or> (\<exists>r. Some r \<in> set rs \<and> rt_revoked r)) \<and> fs_ExpiresAt st \<le> fs_ExpiresAt st' \<and>
    (\<forall>r. Some r \<in> set rs \<longrightarrow> f_FamilyExpiresAt (rt_row r) \<le> fs_ExpiresAt st') \<and>
    (fs_ExpiresAt st' = fs_ExpiresAt st \<or> (\<exists>r. Some r \<in> set rs \<and> fs_ExpiresAt st' = f_FamilyExpiresAt (rt_row r)))"
  using assms
proof (induction rs arbitrary: st)
  case (Cons x rs)
  obtain r where x: "x = Some r" using Cons.prems by (cases x) auto
  define e1 where "e1 = maxTime (fs_ExpiresAt st) (f_FamilyExpiresAt (rt_row r))"
  let ?st = "st\<lparr>fs_Revoked := fs_Revoked st \<or> rt_revoked r, fs_ExpiresAt := e1\<rparr>"
  obtain st' where "state_loop rs ?st = Ok st'" "fs_Subject st' = fs_Subject st" "fs_Lineage st' = fs_Lineage st"
    "fs_Revoked st' = (fs_Revoked st \<or> rt_revoked r \<or> (\<exists>r. Some r \<in> set rs \<and> rt_revoked r))"
    "e1 \<le> fs_ExpiresAt st'"
    "\<forall>r. Some r \<in> set rs \<longrightarrow> f_FamilyExpiresAt (rt_row r) \<le> fs_ExpiresAt st'"
    "fs_ExpiresAt st' = e1 \<or> (\<exists>r. Some r \<in> set rs \<and> fs_ExpiresAt st' = f_FamilyExpiresAt (rt_row r))"
    using Cons.IH [of ?st] Cons.prems by auto
  moreover have "state_loop (x # rs) st = state_loop rs ?st" by (simp add: x e1_def)
  moreover have "fs_ExpiresAt st \<le> e1" "f_FamilyExpiresAt (rt_row r) \<le> e1" "e1 = fs_ExpiresAt st \<or> e1 = f_FamilyExpiresAt (rt_row r)"
    by (auto simp: e1_def maxTime_def)
  ultimately show ?case unfolding x by (intro exI [of _ st']) (simp, fastforce)
qed simp

text \<open>Under the invariant the answer of \<^verbatim>\<open>FamilyState\<close> describes every token of the family.\<close>

definition describes :: "family_state \<Rightarrow> family_key \<Rightarrow> tok_store \<Rightarrow> bool" where
  "describes st fk s \<longleftrightarrow>
     (\<forall>h r. toks s h = Some r \<longrightarrow> rt_key r = fk \<longrightarrow>
        f_Subject (rt_row r) = fs_Subject st \<and> f_Lineage (rt_row r) = fs_Lineage st \<and> rt_revoked r = fs_Revoked st \<and>
        f_FamilyExpiresAt (rt_row r) \<le> fs_ExpiresAt st) \<and>
     (fs_ExpiresAt st = zero_time \<or>
        (\<exists>h r. toks s h = Some r \<and> rt_key r = fk \<and> fs_ExpiresAt st = f_FamilyExpiresAt (rt_row r)))"

lemma familyRows_mem:
  assumes "tok_inv s"
  shows "x \<in> set (familyRows fk s) \<longleftrightarrow> (\<exists>h r. x = Some r \<and> toks s h = Some r \<and> rt_key r = fk)"
proof
  assume "x \<in> set (familyRows fk s)"
  then obtain h where "h \<in> set (family_hashes fk s)" "x = toks s h" by (auto simp: familyRows_def)
  then show "\<exists>h r. x = Some r \<and> toks s h = Some r \<and> rt_key r = fk" using tok_inv_listed [OF assms] by auto
next
  assume "\<exists>h r. x = Some r \<and> toks s h = Some r \<and> rt_key r = fk"
  then obtain h r where hr: "x = Some r" "toks s h = Some r" "rt_key r = fk" by blast
  then have "h \<in> set (family_hashes fk s)" using tok_inv_listed [OF assms] by blast
  then show "x \<in> set (familyRows fk s)" unfolding familyRows_def using hr by force
qed

lemma tokens_state_Ok:
  assumes inv: "tok_inv s" and ne: "familyRows fk s \<noteq> []"
  shows "\<exists>st. tokens_state (familyRows fk s) = Ok st \<and> describes st fk s"
proof -
  let ?rows = "familyRows fk s"
  obtain x rs where rows: "?rows = x # rs" using ne by (cases ?rows) auto
  then have "x \<in> set ?rows" by simp
  then obtain h0 r0 where r0: "x = Some r0" "toks s h0 = Some r0" "rt_key r0 = fk" unfolding familyRows_mem [OF inv] by blast
  have none: "None \<notin> set ?rows" unfolding familyRows_mem [OF inv] by simp
  let ?st0 = "\<lparr>fs_Subject = f_Subject (rt_row r0), fs_Lineage = f_Lineage (rt_row r0), fs_Revoked = False, fs_ExpiresAt = zero_time\<rparr>"
  obtain st where st: "state_loop ?rows ?st0 = Ok st" "fs_Subject st = f_Subject (rt_row r0)" "fs_Lineage st = f_Lineage (rt_row r0)"
    "fs_Revoked st = (\<exists>r. Some r \<in> set ?rows \<and> rt_revoked r)"
    "\<forall>r. Some r \<in> set ?rows \<longrightarrow> f_FamilyExpiresAt (rt_row r) \<le> fs_ExpiresAt st"
    "fs_ExpiresAt st = zero_time \<or> (\<exists>r. Some r \<in> set ?rows \<and> fs_ExpiresAt st = f_FamilyExpiresAt (rt_row r))"
    using state_loop_Ok [OF none, of ?st0] by auto
  have "tokens_state ?rows = Ok st" using st(1) unfolding rows r0(1) by simp
  moreover have "describes st fk s"
    unfolding describes_def
  proof (intro conjI allI impI)
    fix h r assume r: "toks s h = Some r" "rt_key r = fk"
    note kin = tok_inv_kin [OF inv r(1)]
    show "f_Subject (rt_row r) = fs_Subject st" "f_Lineage (rt_row r) = fs_Lineage st"
      using kin(1,2) [OF r0(2)] r(2) r0(3) st(2,3) by simp_all
    have mem: "Some r \<in> set ?rows" unfolding familyRows_mem [OF inv] using r by blast
    then show "f_FamilyExpiresAt (rt_row r) \<le> fs_ExpiresAt st" using st(5) by blast
    show "rt_revoked r = fs_Revoked st"
      unfolding st(4) familyRows_mem [OF inv] using kin(3) r by (metis option.inject)
  next
    show "fs_ExpiresAt st = zero_time \<or>
        (\<exists>h r. toks s h = Some r \<and> rt_key r = fk \<and> fs_ExpiresAt st = f_FamilyExpiresAt (rt_row r))"
      using st(6) unfolding familyRows_mem [OF inv] by (metis option.inject)
  qed
  ultimately show ?thesis by blast
qed

lemma familyRows_Nil: "tok_inv s \<Longrightarrow> familyRows fk s = [] \<longleftrightarrow> (\<forall>h r. toks s h = Some r \<longrightarrow> rt_key r \<noteq> fk)"
  using familyRows_mem [of s _ fk] by (metis list.set_intros(1) neq_Nil_conv list.set(1) empty_iff)

section \<open>Every operation is a sequence of moves\<close>

lemma Reissue_cases:
  assumes inv: "tok_inv s"
  defines "fk q \<equiv> \<lparr>fk_tenant = refresh_Tenant (ri_Next q), fk_family = ri_Family q\<rparr>"
  shows "(\<exists>e. tokens_Reissue None clk q s = (Err e, s)) \<or>
    (\<exists>st s1 s'. tokens_Reissue None clk q s = (Ok (), s') \<and> tokens_state (familyRows (fk q) s) = Ok st \<and>
       family_Live st (tokens_now clk) \<and> fs_Subject st = f_Subject (frec (ri_Next q)) \<and>
       fs_Lineage st = f_Lineage (frec (ri_Next q)) \<and> f_Family (frec (ri_Next q)) \<noteq> ri_Family q \<and>
       begins (tokens_rowOf (ri_Next q)) s s1 \<and> revokes (fk q) (tokens_now clk) s1 s')"
proof (cases "refresh_IsZero (ri_Next q) \<or> familyRows (fk q) s = [] \<or> f_Family (frec (ri_Next q)) = ri_Family q \<or>
    map_of (ts_families s) (record_key (ri_Next q)) \<noteq> None \<or> toks s (f_TokenHash (frec (ri_Next q))) \<noteq> None")
  case True
  then show ?thesis by (auto simp: tokens_Reissue_def Let_def fk_def)
next
  case False
  then obtain st where st: "tokens_state (familyRows (fk q) s) = Ok st" and ds: "describes st (fk q) s"
    using tokens_state_Ok [OF inv] by blast
  show ?thesis
  proof (cases "family_Live st (tokens_now clk) \<and> fs_Subject st = f_Subject (frec (ri_Next q)) \<and>
      fs_Lineage st = f_Lineage (frec (ri_Next q))")
    case live: True
    have "f_Subject (rt_row (the x)) = fs_Subject st \<and> f_Lineage (rt_row (the x)) = fs_Lineage st"
      if "x \<in> set (familyRows (fk q) s)" for x
      using that ds unfolding familyRows_mem [OF inv] describes_def by auto
    then have kin: "list_ex (\<lambda>r. f_Subject (rt_row (the r)) \<noteq> fs_Subject st \<or> f_Lineage (rt_row (the r)) \<noteq> fs_Lineage st)
        (familyRows (fk q) s) = False"
      by (auto simp: list_ex_iff)
    have stt: "(fs_Revoked st \<or> \<not> family_Live st (tokens_now clk) \<or> fs_Subject st \<noteq> f_Subject (frec (ri_Next q)) \<or>
        fs_Lineage st \<noteq> f_Lineage (frec (ri_Next q))) = False"
      using live by (simp add: family_Live_def)
    have eq: "tokens_Reissue None clk q s =
        finish s (result_bind (tokens_insert (ri_Next q) s) (tokens_revoke (fk q) (tokens_now clk)))"
      using False st unfolding tokens_Reissue_def with_ctx_simps Let_def fk_def [symmetric]
      by (simp only: kin stt if_False result.case de_Morgan_disj length_0_conv not_not simp_thms)
    have "map_of (ts_families s) (record_key (ri_Next q)) = None" using False by blast
    from insert_begins [OF inv this] show ?thesis
    proof
      assume "\<exists>s1. tokens_insert (ri_Next q) s = Ok s1 \<and> begins (tokens_rowOf (ri_Next q)) s s1"
      then obtain s1 where s1: "tokens_insert (ri_Next q) s = Ok s1" "begins (tokens_rowOf (ri_Next q)) s s1" by blast
      obtain s' where s': "tokens_revoke (fk q) (tokens_now clk) s1 = Ok s'" "revokes (fk q) (tokens_now clk) s1 s'"
        using revoke_Ok [OF begins_inv [OF inv s1(2)]] by blast
      have "tokens_Reissue None clk q s = (Ok (), s')" unfolding eq by (simp add: finish_def result_bind_def s1(1) s'(1))
      then show ?thesis using st live False s1(2) s'(2) by blast
    qed (auto simp: eq finish_def result_bind_def)
  next
    case dead: False
    then have "fs_Revoked st \<or> \<not> family_Live st (tokens_now clk) \<or> fs_Subject st \<noteq> f_Subject (frec (ri_Next q)) \<or>
        fs_Lineage st \<noteq> f_Lineage (frec (ri_Next q))" by blast
    then have "tokens_Reissue None clk q s = (Err [StoreErr ErrConflict], s)"
      using False st unfolding tokens_Reissue_def with_ctx_simps Let_def fk_def [symmetric]
      by (simp only: if_True if_False result.case de_Morgan_disj length_0_conv not_not simp_thms)
    then show ?thesis by blast
  qed
qed

lemma Reissue_runs:
  assumes "tok_inv s" "N True (tokens_rowOf (ri_Next q))"
  shows "runs_as N s (tokens_Reissue ctx clk q s)"
proof (cases ctx)
  case None
  from Reissue_cases [OF assms(1), of clk q] show ?thesis
  proof (elim disjE exE conjE)
    fix st s1 s' assume r: "tokens_Reissue None clk q s = (Ok (), s')" "begins (tokens_rowOf (ri_Next q)) s s1"
      "revokes \<lparr>fk_tenant = refresh_Tenant (ri_Next q), fk_family = ri_Family q\<rparr> (tokens_now clk) s1 s'"
    have "moves N s s'"
      using move.start [where N = N, OF r(2) assms(2)] move.revoke [where N = N, OF r(3)] by (simp add: converse_rtranclp_into_rtranclp)
    then show ?thesis using r(1) None by (simp add: runs_as_def)
  qed (simp add: None)
qed (simp add: tokens_Reissue_def)

lemma EraseTenant_runs: "tok_inv s \<Longrightarrow> runs_as N s (tokens_EraseTenant ctx clk t s)"
proof -
  assume inv: "tok_inv s"
  let ?fks = "filter (\<lambda>fk. fk_tenant fk = t) (keys_of (ts_families s))"
  obtain s1 where s1: "each (revoke_drop (tokens_now clk)) ?fks s = Ok s1" "moves N s s1"
    using each_moves [where f = "revoke_drop (tokens_now clk)" and N = N and xs = ?fks, OF revoke_drop_moves inv] by blast
  have "keys_move s1 (drop_refs s1 (filter (\<lambda>(ref, k). kr_tenant ref = t) (ts_keys s1)))"
    by (rule drop_some_keys(1) [OF moves_inv [OF s1(2) inv]])
  with s1(2) have "moves N s (drop_refs s1 (filter (\<lambda>(ref, k). kr_tenant ref = t) (ts_keys s1)))"
    by (meson move.keys rtranclp.rtrancl_into_rtrancl)
  with s1(1) show ?thesis
    by (auto simp: tokens_EraseTenant_def result_bind_def intro!: runs_as_ctx runs_as_finish)
qed

lemma Delete_runs: "tok_inv s \<Longrightarrow> runs_as N s (tokens_DeleteForSubject ctx clk sub s)"
proof -
  assume inv: "tok_inv s"
  obtain fks where fks: "subjectFamilies sub (\<lambda>_. False) s = Ok fks"
    using subjectFamilies_Ok [OF inv, where keep = "\<lambda>_. False" and sub = sub] by auto
  obtain s1 where s1: "each (revoke_drop (tokens_now clk)) fks s = Ok s1" "moves N s s1"
    using each_moves [where f = "revoke_drop (tokens_now clk)" and N = N and xs = fks, OF revoke_drop_moves inv] by blast
  have "keys_move s1 (drop_keys (\<lambda>k. k_Owner k = sub) s1)"
    unfolding drop_keys_def by (rule drop_some_keys(1) [OF moves_inv [OF s1(2) inv]])
  with s1(2) have "moves N s (drop_keys (\<lambda>k. k_Owner k = sub) s1)"
    by (meson move.keys rtranclp.rtrancl_into_rtrancl)
  with s1(1) fks show ?thesis
    by (auto simp: tokens_DeleteForSubject_def result_bind_def intro!: runs_as_ctx runs_as_finish)
qed

lemma RevokeForSubject_runs: "tok_inv s \<Longrightarrow> runs_as N s (tokens_RevokeForSubject ctx clk sub ex s)"
proof -
  assume inv: "tok_inv s"
  obtain fks where fks: "subjectFamilies sub (\<lambda>r. ex \<noteq> uuid_Nil \<and> f_Lineage r = ex) s = Ok fks"
    using subjectFamilies_Ok [OF inv, of "\<lambda>r. ex \<noteq> uuid_Nil \<and> f_Lineage r = ex" sub] by auto
  obtain s1 where "each (\<lambda>fk. tokens_revoke fk (tokens_now clk)) fks s = Ok s1" "moves N s s1"
    using each_moves [where f = "\<lambda>fk. tokens_revoke fk (tokens_now clk)" and N = N and xs = fks, OF revoke_moves inv] by blast
  with fks show ?thesis
    by (auto simp: tokens_RevokeForSubject_def result_bind_def intro!: runs_as_ctx runs_as_finish)
qed

lemma foldl_fst: "foldl (\<lambda>s (h, r). f h s) s xs = foldl (\<lambda>s h. f h s) s (map fst xs)"
  by (induction xs arbitrary: s) auto

definition expired_tokens :: "instant \<Rightarrow> tok_store \<Rightarrow> bytes list" where
  "expired_tokens now s = map fst (filter (\<lambda>(h, r). token_expired now r) (ts_tokens s))"

lemma expired_tokens_iff:
  assumes "tok_inv s"
  shows "h \<in> set (expired_tokens now s) \<longleftrightarrow> (\<exists>r. toks s h = Some r \<and> token_expired now r)"
proof -
  have "wf_map (ts_tokens s)" using assms by (simp add: tok_inv_def)
  then show ?thesis by (force simp: expired_tokens_def map_of_eq_Some_iff)
qed

lemma Reap_runs:
  assumes inv: "tok_inv s"
  shows "runs_as N s (map_prod result_void id (tokens_ReapExpired ctx clk s))"
proof -
  let ?now = "tokens_now clk"
  let ?D = "expired_tokens ?now s"
  let ?s1 = "foldl (\<lambda>s h. tokens_dropToken h s) s ?D"
  let ?s2 = "drop_refs ?s1 (filter (\<lambda>(ref, k). key_expired ?now k) (ts_keys ?s1))"
  have d: "drops (set ?D) s ?s1" by (rule drop_all [OF inv])
  have inv1: "tok_inv ?s1" by (rule drops_inv [OF inv d])
  have k: "keys_move ?s1 ?s2" by (rule drop_some_keys(1) [OF inv1])
  have same: "ts_keys ?s1 = ts_keys s" "ts_feed ?s2 = ts_feed s" using d k by (simp_all add: drops_def keys_move_def)
  have "?now < f_FamilyExpiresAt (rt_row r)" if "toks ?s2 h = Some r" for h r
  proof -
    have "toks ?s1 h = Some r" using that k by (simp add: keys_move_def)
    then have "toks s h = Some r" "h \<notin> set ?D" using d by (auto simp: drops_def restrict_Some)
    then show ?thesis unfolding expired_tokens_iff [OF inv] by (auto simp: token_expired_def)
  qed
  then have "reaped ?now ?s2 (?s2\<lparr>ts_feed := feed_keep ?now (ts_feed s)\<rparr>)" by (simp add: reaped_def same(2))
  then have "moves N s (?s2\<lparr>ts_feed := feed_keep ?now (ts_feed s)\<rparr>)"
    using move.drop [OF d] move.keys [OF k] move.reap by (meson r_into_rtranclp rtranclp.rtrancl_into_rtrancl)
  moreover have "snd (tokens_ReapExpired None clk s) = ?s2\<lparr>ts_feed := feed_keep ?now (ts_feed s)\<rparr>"
    unfolding same(1) by (simp add: tokens_ReapExpired_def Let_def foldl_fst expired_tokens_def)
  ultimately show ?thesis
    by (cases ctx) (simp_all add: runs_as_def result_void_def tokens_ReapExpired_def Let_def)
qed

lemma keys_ok_insert:
  assumes "keys_ok K I" "K ref = None" "I (k_ID k) = None" "cloneKey k = k"
    "ref = \<lparr>kr_tenant = s_tenant (k_Owner k), kr_hash = k_KeyHash k\<rparr>"
  shows "keys_ok (K(ref \<mapsto> k)) (I(k_ID k \<mapsto> ref))"
  unfolding keys_ok_def
proof (intro conjI allI impI)
  note f = assms(1) [unfolded keys_ok_def, THEN conjunct1, rule_format]
  fix ref' k' assume k': "(K(ref \<mapsto> k)) ref' = Some k'"
  have c: "(I(k_ID k \<mapsto> ref)) (k_ID k') = Some ref' \<and> cloneKey k' = k' \<and>
    ref' = \<lparr>kr_tenant = s_tenant (k_Owner k'), kr_hash = k_KeyHash k'\<rparr>"
  proof (cases "ref' = ref")
    case True
    then show ?thesis using k' assms(4,5) by simp
  next
    case False
    then have "K ref' = Some k'" using k' by simp
    from f [OF this] show ?thesis using assms(3) by auto
  qed
  then show "(I(k_ID k \<mapsto> ref)) (k_ID k') = Some ref'" "cloneKey k' = k'"
    "ref' = \<lparr>kr_tenant = s_tenant (k_Owner k'), kr_hash = k_KeyHash k'\<rparr>" by blast+
next
  fix i ref' assume i: "(I(k_ID k \<mapsto> ref)) i = Some ref'"
  show "\<exists>k'. (K(ref \<mapsto> k)) ref' = Some k' \<and> k_ID k' = i"
  proof (cases "i = k_ID k")
    case False
    then have "I i = Some ref'" using i by simp
    then obtain k' where "K ref' = Some k'" "k_ID k' = i" using assms(1) unfolding keys_ok_def by blast
    then show ?thesis using assms(2) by (metis fun_upd_apply option.distinct(1))
  qed (use i in simp)
qed

lemma keys_ok_update:
  assumes ok: "keys_ok K I" and k: "K ref = Some k" and k': "k_ID k' = k_ID k" "k_Owner k' = k_Owner k"
    "k_KeyHash k' = k_KeyHash k" "cloneKey k' = k'"
  shows "keys_ok (K(ref \<mapsto> k')) I"
proof -
  have f: "I (k_ID q) = Some r" "cloneKey q = q" "r = \<lparr>kr_tenant = s_tenant (k_Owner q), kr_hash = k_KeyHash q\<rparr>"
    if "K r = Some q" for r q using ok that unfolding keys_ok_def by blast+
  have "\<exists>q. (K(ref \<mapsto> k')) r = Some q \<and> k_ID q = i" if i: "I i = Some r" for i r
  proof -
    obtain q where "K r = Some q" "k_ID q = i" using i ok unfolding keys_ok_def by blast
    then show ?thesis using k k'(1) by (cases "r = ref") simp_all
  qed
  moreover have "I (k_ID q) = Some r \<and> cloneKey q = q \<and> r = \<lparr>kr_tenant = s_tenant (k_Owner q), kr_hash = k_KeyHash q\<rparr>"
    if "(K(ref \<mapsto> k')) r = Some q" for r q
  proof (cases "r = ref")
    case True
    then have "q = k'" using that by simp
    then show ?thesis using f(1,3) [OF k] k' True by simp
  next
    case False
    then have "K r = Some q" using that by simp
    from f [OF this] show ?thesis by blast
  qed
  ultimately show ?thesis unfolding keys_ok_def by blast
qed

lemma cloneKey_idem [simp]: "cloneKey (cloneKey k) = cloneKey k"
  by (simp add: cloneKey_def)

lemma cloneKey_simps [simp]:
  "k_ID (cloneKey k) = k_ID k" "k_Owner (cloneKey k) = k_Owner k" "k_KeyHash (cloneKey k) = k_KeyHash k"
  by (simp_all add: cloneKey_def)

lemma cloneKey_revoke: "cloneKey k = k \<Longrightarrow> cloneKey (k\<lparr>k_RevokedAt := tokens_now clk\<rparr>) = k\<lparr>k_RevokedAt := tokens_now clk\<rparr>"
  by (cases k) (auto simp: cloneKey_def tokens_now_def split: if_splits)

lemma CreateKey_runs:
  assumes inv: "tok_inv s"
  shows "runs_as N s (tokens_CreateAPIKey ctx k s)"
proof (cases "api_key_Validate k")
  case (Ok u)
  let ?ref = "\<lparr>kr_tenant = s_tenant (k_Owner k), kr_hash = k_KeyHash k\<rparr>"
  let ?s = "s\<lparr>ts_keys := AList.update ?ref (cloneKey k) (ts_keys s), ts_keyIDs := AList.update (k_ID k) ?ref (ts_keyIDs s)\<rparr>"
  have "keys_move s ?s" if "map_of (ts_keys s) ?ref = None" "map_of (ts_keyIDs s) (k_ID k) = None"
    using keys_ok_insert [where K = "map_of (ts_keys s)" and k = "cloneKey k", OF _ that(1)] that(2) inv by (simp add: keys_move_def tok_inv_def)
  then have "runs_as N s (Ok (), ?s)" if "map_of (ts_keys s) ?ref = None" "map_of (ts_keyIDs s) (k_ID k) = None"
    using that by (simp add: runs_as_def move.keys r_into_rtranclp)
  then show ?thesis using Ok by (auto simp: tokens_CreateAPIKey_def Let_def intro!: runs_as_ctx)
qed (auto simp: tokens_CreateAPIKey_def intro!: runs_as_ctx)

lemma RevokeKey_runs:
  assumes inv: "tok_inv s"
  shows "runs_as N s (tokens_RevokeAPIKey ctx clk sub i s)"
proof (cases "map_of (ts_keyIDs s) i")
  case (Some ref)
  have ok: "keys_ok (map_of (ts_keys s)) (map_of (ts_keyIDs s))" using inv by (simp add: tok_inv_def)
  then obtain k where k: "map_of (ts_keys s) ref = Some k" using Some unfolding keys_ok_def by blast
  let ?k = "k\<lparr>k_RevokedAt := tokens_now clk\<rparr>"
  have "cloneKey k = k" using ok k unfolding keys_ok_def by blast
  then have "cloneKey ?k = ?k" by (rule cloneKey_revoke)
  then have "keys_ok ((map_of (ts_keys s))(ref \<mapsto> ?k)) (map_of (ts_keyIDs s))"
    by (intro keys_ok_update [OF ok k]) simp_all
  then have "keys_move s (s\<lparr>ts_keys := AList.update ref ?k (ts_keys s)\<rparr>)" using inv by (simp add: keys_move_def tok_inv_def)
  then have "runs_as N s (Ok (), s\<lparr>ts_keys := AList.update ref ?k (ts_keys s)\<rparr>)"
    by (simp add: runs_as_def move.keys r_into_rtranclp)
  then show ?thesis using Some k by (auto simp: tokens_RevokeAPIKey_def intro!: runs_as_ctx)
qed (auto simp: tokens_RevokeAPIKey_def intro!: runs_as_ctx)

lemma Get_runs: "tok_inv s \<Longrightarrow> runs_as N s (map_prod result_void id (tokens_Get ctx clk t h s))"
proof -
  assume inv: "tok_inv s"
  have "result_bind (replayable r (tokens_now clk)) (\<lambda>_. RestoreRefreshRecord (rt_row r)) \<noteq> Panic" for r
    using replayable_cases [of r "tokens_now clk"] by (auto simp: result_bind_Panic)
  then show ?thesis
    by (cases ctx) (auto simp: tokens_Get_def runs_as_def result_void_def split: option.splits result.splits)
qed

lemma FamilyState_runs: "tok_inv s \<Longrightarrow> runs_as N s (map_prod result_void id (tokens_FamilyState ctx t f s))"
  using tokens_state_Ok [of s "\<lparr>fk_tenant = t, fk_family = f\<rparr>"]
  by (cases "familyRows \<lparr>fk_tenant = t, fk_family = f\<rparr> s = []"; cases ctx) (auto simp: tokens_FamilyState_def runs_as_def result_void_def Let_def split: result.splits)

lemma tok_exec_runs:
  assumes "tok_inv s" "clock_ok clk" "op_stores op N"
  shows "runs_as N s (tok_exec ctx clk op s)"
proof (cases op)
  case (TRevokeFamily t f)
  then show ?thesis using revoke_moves [OF assms(1)]
    by (auto simp: tokens_RevokeFamily_def intro!: runs_as_ctx runs_as_finish)
qed (use assms in \<open>simp_all add: EraseTenant_runs Reap_runs Create_runs Rotate_runs Reissue_runs RevokeForSubject_runs
    Delete_runs CreateKey_runs RevokeKey_runs Get_runs FamilyState_runs\<close>,
  (cases ctx; auto simp: tokens_RevocationsSince_def tokens_GetAPIKey_def tokens_ListAPIKeys_def result_void_def
    split: option.splits)+)

section \<open>Runs\<close>

text \<open>One step: any operation, with any context, at any clock reading, storing only rows \<open>N\<close> admits.\<close>

inductive tok_step :: "(bool \<Rightarrow> refresh_row \<Rightarrow> bool) \<Rightarrow> tok_store \<Rightarrow> tok_store \<Rightarrow> bool" for N where
  step: "clock_ok clk \<Longrightarrow> op_stores op N \<Longrightarrow> tok_step N s (snd (tok_exec ctx clk op s))"

inductive_cases tok_stepE: "tok_step N s s'"

abbreviation any_row :: "bool \<Rightarrow> refresh_row \<Rightarrow> bool" where
  "any_row \<equiv> \<lambda>_ _. True"

lemma tok_step_moves: "tok_step N s s' \<Longrightarrow> tok_inv s \<Longrightarrow> moves N s s'"
  by (erule tok_stepE) (auto dest: tok_exec_runs simp: runs_as_def)

lemma tok_run_moves: "(tok_step N)\<^sup>*\<^sup>* s s' \<Longrightarrow> tok_inv s \<Longrightarrow> moves N s s'"
proof (induction rule: rtranclp_induct)
  case (step y z)
  then show ?case using tok_step_moves [OF step(2)] moves_inv [of N s y] by (meson rtranclp_trans)
qed simp

lemma tok_run_inv: "(tok_step N)\<^sup>*\<^sup>* s s' \<Longrightarrow> tok_inv s \<Longrightarrow> tok_inv s'"
  using tok_run_moves moves_inv by blast

interpretation tokens_feed: revocation_feed ts_feed ts_seq tok_inv "tok_step any_row"
proof
  show "feed_ok (ts_feed s) (ts_seq s)" if "tok_inv s" for s using that by (simp add: tok_inv_def)
  show "tok_inv s'" if "tok_inv s" "tok_step any_row s s'" for s s'
    using moves_inv [OF tok_step_moves [OF that(2,1)] that(1)] .
  show "feed_grows (ts_feed s) (ts_seq s) (ts_feed s') (ts_seq s')" if "tok_inv s" "tok_step any_row s s'" for s s'
    using moves_grows [OF tok_step_moves [OF that(2,1)]] .
qed

end
