(* ===== verification/Tokens_Properties.thy ===== *)
theory Tokens_Properties
  imports Tokens_Ops
begin

text \<open>
  What the refresh-token and API-key store guarantees over whole runs: single use of refresh tokens with
  detection of replays, finality of revocation, exact revocation of a subject, completeness of the
  revocation feed, and the life of an API key.
\<close>

abbreviation tok_reach :: "tok_store \<Rightarrow> bool" where
  "tok_reach s \<equiv> (tok_step any_row)\<^sup>*\<^sup>* tokens_New s"

lemma tok_reach_inv: "tok_reach s \<Longrightarrow> tok_inv s"
  using tok_run_inv tok_inv_New by blast

lemma tok_step_any: "tok_step N s s' \<Longrightarrow> tok_step any_row s s'"
proof (erule tok_stepE)
  fix clk op ctx assume s: "s' = snd (tok_exec ctx clk op s)" "clock_ok clk"
  have "op_stores op any_row" by (cases op) simp_all
  then show ?thesis unfolding s(1) using s(2) by (intro tok_step.step)
qed

lemma tok_run_any: "(tok_step N)\<^sup>*\<^sup>* s s' \<Longrightarrow> (tok_step any_row)\<^sup>*\<^sup>* s s'"
  by (induction rule: rtranclp_induct) (auto intro: tok_step_any rtranclp.rtrancl_into_rtrancl)

lemma Rotate_Ok:
  assumes "tok_inv s" "clock_ok clk" "tokens_ConsumeForRotation None clk req s = (Ok rot, s1)"
  obtains r where "rotation_ok (tokens_now clk) req r s" "\<not> rt_consumed r" "ro_ConsumedAt rot = tokens_now clk"
    "ro_Family rot = f_Family (rt_row r)"
    "rotated r (tokens_rowOf (rr_Next req)) (tokens_now clk) (f_ClientFingerprint (frec (rr_Next req))) s s1"
  using Rotate_cases [OF assms(1,2), of req] assms(3) by fastforce



text \<open>A dead family answers no operation.\<close>

lemma dead_family:
  assumes inv: "tok_inv s" and dead: "family_dead fk s"
  shows "toks s h = Some r \<Longrightarrow> rt_key r = fk \<Longrightarrow> replayable r now = Err [TokensErr ErrRevoked]"
    and "tokens_FamilyState None (fk_tenant fk) (fk_family fk) s = (Err [StoreErr ErrNotFound], s) \<or>
      (\<exists>st. tokens_FamilyState None (fk_tenant fk) (fk_family fk) s = (Ok st, s) \<and> fs_Revoked st)"
proof -
  show "replayable r now = Err [TokensErr ErrRevoked]" if "toks s h = Some r" "rt_key r = fk"
    using dead that by (simp add: family_dead_def replayable_def usable_def)
  have fk: "\<lparr>fk_tenant = fk_tenant fk, fk_family = fk_family fk\<rparr> = fk" by simp
  show "tokens_FamilyState None (fk_tenant fk) (fk_family fk) s = (Err [StoreErr ErrNotFound], s) \<or>
      (\<exists>st. tokens_FamilyState None (fk_tenant fk) (fk_family fk) s = (Ok st, s) \<and> fs_Revoked st)"
  proof (cases "familyRows fk s = []")
    case True
    then show ?thesis by (simp add: tokens_FamilyState_def Let_def fk)
  next
    case False
    obtain st where st: "tokens_state (familyRows fk s) = Ok st" "describes st fk s" using tokens_state_Ok [OF inv False] by blast
    obtain h r where "toks s h = Some r" "rt_key r = fk" using False familyRows_Nil [OF inv] by blast
    then have "fs_Revoked st" using st(2) dead by (auto simp: describes_def family_dead_def)
    then show ?thesis using False st(1) by (simp add: tokens_FamilyState_def Let_def fk)
  qed
qed

lemma revokes_dead: "revokes fk now s s' \<Longrightarrow> family_dead fk s'"
  by (auto simp: family_dead_def revokes_def)

section \<open>Exact revocation of a subject\<close>

definition mark_all :: "family_key set \<Rightarrow> refresh \<Rightarrow> refresh" where
  "mark_all A r = (if rt_key r \<in> A then r\<lparr>rt_revoked := True\<rparr> else r)"

lemma each_revoke:
  assumes "tok_inv s"
  shows "\<exists>s'. each (\<lambda>fk. tokens_revoke fk now) fks s = Ok s' \<and> toks s' = map_option (mark_all (set fks)) \<circ> toks s \<and>
    ts_families s' = ts_families s \<and> ts_keys s' = ts_keys s"
  using assms
proof (induction fks arbitrary: s)
  case Nil
  have "mark_all (set []) = (\<lambda>r. r)" by (simp add: mark_all_def fun_eq_iff)
  then show ?case by (simp add: option.map_ident fun_eq_iff)
next
  case (Cons fk fks)
  obtain s1 where s1: "tokens_revoke fk now s = Ok s1" "revokes fk now s s1" using revoke_Ok [OF Cons.prems] by blast
  obtain s2 where s2: "each (\<lambda>fk. tokens_revoke fk now) fks s1 = Ok s2" "toks s2 = map_option (mark_all (set fks)) \<circ> toks s1"
    "ts_families s2 = ts_families s1" "ts_keys s2 = ts_keys s1"
    using Cons.IH [OF revokes_inv [OF Cons.prems s1(2)]] by blast
  have "mark_all (set fks) (mark fk r) = mark_all (set (fk # fks)) r" for r
    by (simp add: mark_all_def mark_def)
  then have "toks s2 = map_option (mark_all (set (fk # fks))) \<circ> toks s"
    using s2(2) s1(2) by (simp add: revokes_def fun_eq_iff option.map_comp comp_def)
  moreover have "each (\<lambda>fk. tokens_revoke fk now) (fk # fks) s = Ok s2" using s1(1) s2(1) by (simp add: result_bind_def)
  moreover have "ts_families s1 = ts_families s" "ts_keys s1 = ts_keys s" using s1(2) by (simp_all add: revokes_def)
  ultimately show ?case using s2(3,4) by auto
qed

section \<open>Demonstration data\<close>

definition tdemo_row :: "uuid \<Rightarrow> byte \<Rightarrow> refresh_row" where
  "tdemo_row fam b =
     \<lparr>f_TokenHash = replicate 32 b, f_Family = fam, f_Subject = \<lparr>s_tenant = TenantID ''acme'', s_user = 7\<rparr>,
      f_Lineage = 99, f_Sealed = Sealed [1], f_AppClaims = [], f_SecurityEpoch = 3, f_ClientFingerprint = [5],
      f_IdleExpiresAt = 60000000000, f_FamilyExpiresAt = 90000000000, f_CreatedAt = 4000\<rparr>"

abbreviation tdemo :: "uuid \<Rightarrow> byte \<Rightarrow> refresh_record" where
  "tdemo fam b \<equiv> RefreshRecord (tdemo_row fam b)"

abbreviation thash :: "byte \<Rightarrow> bytes" where
  "thash b \<equiv> replicate 32 b"

definition tdemo_s1 :: tok_store where
  "tdemo_s1 = snd (tok_exec None 5000 (TCreate (tdemo 1 10)) tokens_New)"

definition tdemo_s2 :: tok_store where
  "tdemo_s2 = snd (tok_exec None 6000 (TRotate \<lparr>rr_Presented = thash 10, rr_Next = tdemo 1 11\<rparr>) tdemo_s1)"

definition tdemo_s3 :: tok_store where
  "tdemo_s3 = snd (tok_exec None 7000 (TRevokeFamily (TenantID ''acme'') 1) tdemo_s2)"

lemma tdemo_clock: "0 \<le> clk \<Longrightarrow> clock_ok clk"
  by (simp add: clock_ok_def zero_time_def Microsecond_def)

lemma tdemo_step: "0 \<le> clk \<Longrightarrow> tok_step any_row s (snd (tok_exec ctx clk op s))"
  using tok_step.step [OF tdemo_clock, of clk op any_row s ctx] by (cases op) simp_all

lemma tdemo_reach: "tok_reach tdemo_s1" "tok_reach tdemo_s2" "tok_reach tdemo_s3"
proof -
  show 1: "tok_reach tdemo_s1" unfolding tdemo_s1_def by (rule r_into_rtranclp, rule tdemo_step) simp
  show 2: "tok_reach tdemo_s2"
    by (rule rtranclp.rtrancl_into_rtrancl [OF 1]) (unfold tdemo_s2_def, rule tdemo_step, simp)
  show "tok_reach tdemo_s3"
    by (rule rtranclp.rtrancl_into_rtrancl [OF 2]) (unfold tdemo_s3_def, rule tdemo_step, simp)
qed

lemma tdemo_s1_eq:
  "tdemo_s1 =
     \<lparr>ts_tokens = [(thash 10, \<lparr>rt_row = tdemo_row 1 10, rt_consumedAt = zero_time, rt_consumedBy = [], rt_revoked = False\<rparr>)],
      ts_families = [(\<lparr>fk_tenant = TenantID ''acme'', fk_family = 1\<rparr>, [thash 10])],
      ts_feed = [], ts_seq = 0, ts_keys = [], ts_keyIDs = []\<rparr>"
  unfolding tdemo_s1_def by code_simp

lemma tdemo_s2_eq:
  "tdemo_s2 =
     \<lparr>ts_tokens = [(thash 10, \<lparr>rt_row = tdemo_row 1 10, rt_consumedAt = 6000, rt_consumedBy = [5], rt_revoked = False\<rparr>),
        (thash 11, \<lparr>rt_row = tdemo_row 1 11, rt_consumedAt = zero_time, rt_consumedBy = [], rt_revoked = False\<rparr>)],
      ts_families = [(\<lparr>fk_tenant = TenantID ''acme'', fk_family = 1\<rparr>, [thash 10, thash 11])],
      ts_feed = [], ts_seq = 0, ts_keys = [], ts_keyIDs = []\<rparr>"
  unfolding tdemo_s2_def tdemo_s1_eq by code_simp

section \<open>Properties\<close>

text \<open>
  C28. Families stay linear. After any sequence of operations from the empty store, at any clock readings
  and with contexts cancelled at any point, no operation dereferences a missing token; the tokens of a
  family have one subject, one lineage and one revocation state; and at most one of them is not consumed.
\<close>

theorem tokens_family_linear:
  assumes "tok_reach s" "clock_ok clk"
  shows "fst (tok_exec ctx clk op s) \<noteq> Panic \<and>
    (\<forall>h r h' r'. map_of (ts_tokens s) h = Some r \<longrightarrow> map_of (ts_tokens s) h' = Some r' \<longrightarrow>
      row_key (rt_row r) = row_key (rt_row r') \<longrightarrow>
      f_Subject (rt_row r) = f_Subject (rt_row r') \<and> f_Lineage (rt_row r) = f_Lineage (rt_row r') \<and>
      rt_revoked r = rt_revoked r' \<and> (h = h' \<or> \<not> time_IsZero (rt_consumedAt r) \<or> \<not> time_IsZero (rt_consumedAt r')))"
proof -
  have "op_stores op any_row" by (cases op) simp_all
  then have "fst (tok_exec ctx clk op s) \<noteq> Panic"
    using tok_exec_runs [OF tok_reach_inv [OF assms(1)] assms(2)] by (simp add: runs_as_def)
  moreover have "kin_ok (toks s)" using tok_reach_inv [OF assms(1)] by (simp add: tok_inv_def)
  ultimately show ?thesis unfolding kin_ok_def by blast
qed

theorem tokens_family_linear_witness:
  "fst (tok_exec None 8000 TReap tdemo_s2) \<noteq> Panic \<and> rt_revoked (the (map_of (ts_tokens tdemo_s2) (thash 10))) =
     rt_revoked (the (map_of (ts_tokens tdemo_s2) (thash 11)))"
proof -
  let ?T = "map_of (ts_tokens tdemo_s2)"
  have "?T (thash 10) = Some (the (?T (thash 10))) \<and> ?T (thash 11) = Some (the (?T (thash 11))) \<and>
      row_key (rt_row (the (?T (thash 10)))) = row_key (rt_row (the (?T (thash 11))))" unfolding tdemo_s2_eq by code_simp
  then show ?thesis
    using tokens_family_linear [OF tdemo_reach(2) tdemo_clock, of 8000 None TReap] by simp
qed



text \<open>
  C30. Revocation is final. Once \<^verbatim>\<open>RevokeFamily\<close> returned, after any operations that do not start the same
  family again (its identifier is a fresh UUID), every stored token of the family is answered
  \<open>ErrRevoked\<close> by \<^verbatim>\<open>Get\<close>, none is rotated, \<^verbatim>\<open>Reissue\<close> does not continue the family, and \<^verbatim>\<open>FamilyState\<close> reports
  it revoked or missing.
\<close>

theorem tokens_revocation_final:
  assumes s: "tok_reach s" and clk: "clock_ok clk" "clock_ok clk'"
    and rv: "tokens_RevokeFamily None clk t f s = (Ok (), s1)"
    and run: "(tok_step (\<lambda>start row. start \<longrightarrow> row_key row \<noteq> \<lparr>fk_tenant = t, fk_family = f\<rparr>))\<^sup>*\<^sup>* s1 s2"
  shows "(\<forall>h r. map_of (ts_tokens s2) h = Some r \<and> row_key (rt_row r) = \<lparr>fk_tenant = t, fk_family = f\<rparr> \<longrightarrow>
      tokens_Get None clk' t h s2 = (Err [TokensErr ErrRevoked], s2) \<and>
      (\<forall>req. rr_Presented req = h \<longrightarrow> (\<nexists>rot. fst (tokens_ConsumeForRotation ctx clk' req s2) = Ok rot))) \<and>
    (\<forall>q. ri_Family q = f \<and> refresh_Tenant (ri_Next q) = t \<longrightarrow> fst (tokens_Reissue ctx clk' q s2) \<noteq> Ok ()) \<and>
    (tokens_FamilyState None t f s2 = (Err [StoreErr ErrNotFound], s2) \<or>
      (\<exists>st. tokens_FamilyState None t f s2 = (Ok st, s2) \<and> fs_Revoked st))"
proof -
  let ?fk = "\<lparr>fk_tenant = t, fk_family = f\<rparr>"
  note inv = tok_reach_inv [OF s]
  obtain s' where "tokens_revoke ?fk (tokens_now clk) s = Ok s'" "revokes ?fk (tokens_now clk) s s'"
    using revoke_Ok [OF inv] by blast
  then have rs: "revokes ?fk (tokens_now clk) s s1" using rv by (simp add: tokens_RevokeFamily_def finish_def)
  have inv1: "tok_inv s1" by (rule revokes_inv [OF inv rs])
  have inv2: "tok_inv s2" by (rule tok_run_inv [OF run inv1])
  have dead: "family_dead ?fk s2" by (rule dead_moves [OF tok_run_moves [OF run inv1] revokes_dead [OF rs]])
  have get: "tokens_Get None clk' t h s2 = (Err [TokensErr ErrRevoked], s2)"
    if "toks s2 h = Some r" "rt_key r = ?fk" for h r
  proof -
    have "tokens_lookup t h s2 = Some r" using that by (simp add: lookup_token row_key_def)
    then show ?thesis using dead_family(1) [OF inv2 dead that] by (simp add: tokens_Get_def result_bind_def)
  qed
  have rot: "fst (tokens_ConsumeForRotation ctx clk' req s2) \<noteq> Ok rot"
    if h: "toks s2 (rr_Presented req) = Some r" "rt_key r = ?fk" for req r rot
  proof (cases ctx)
    case None
    show ?thesis
    proof
      assume "fst (tokens_ConsumeForRotation ctx clk' req s2) = Ok rot"
      then obtain s3 where "tokens_ConsumeForRotation None clk' req s2 = (Ok rot, s3)" using None by (metis prod.collapse)
      from Rotate_Ok [OF inv2 clk(2) this] obtain q where "rotation_ok (tokens_now clk') req q s2" .
      then show False using dead_family(1) [OF inv2 dead h] h(1) by (auto simp: rotation_ok_def lookup_token)
    qed
  qed (simp add: tokens_ConsumeForRotation_def)
  have reissue: "fst (tokens_Reissue ctx clk' q s2) \<noteq> Ok ()" if q: "ri_Family q = f" "refresh_Tenant (ri_Next q) = t" for q
  proof (cases ctx)
    case None
    from Reissue_cases [OF inv2, of clk' q] show ?thesis
    proof (elim disjE exE conjE)
      fix st s3 s4 assume st: "tokens_state (familyRows \<lparr>fk_tenant = refresh_Tenant (ri_Next q), fk_family = ri_Family q\<rparr> s2) = Ok st"
        "family_Live st (tokens_now clk')"
      then have ne: "familyRows ?fk s2 \<noteq> []" using q by auto
      then obtain h r where hr: "toks s2 h = Some r" "rt_key r = ?fk" using familyRows_Nil [OF inv2] by blast
      have "describes st ?fk s2" using tokens_state_Ok [OF inv2 ne] st(1) q by auto
      then have "fs_Revoked st" using hr dead by (auto simp: describes_def family_dead_def)
      then show ?thesis using st(2) by (simp add: family_Live_def)
    qed (simp add: None)
  qed (simp add: tokens_Reissue_def)
  show ?thesis using get rot reissue dead_family(2) [OF inv2 dead] by auto
qed

theorem tokens_revocation_final_witness:
  "tokens_Get None 8000 (TenantID ''acme'') (thash 11) tdemo_s3 = (Err [TokensErr ErrRevoked], tdemo_s3)"
proof -
  have rv: "tokens_RevokeFamily None 7000 (TenantID ''acme'') 1 tdemo_s2 = (Ok (), tdemo_s3)"
    unfolding tdemo_s3_def tdemo_s2_eq by code_simp
  let ?r = "\<lparr>rt_row = tdemo_row 1 11, rt_consumedAt = zero_time, rt_consumedBy = [], rt_revoked = True\<rparr>"
  have "map_of (ts_tokens tdemo_s3) (thash 11) = Some ?r \<and> row_key (rt_row ?r) = \<lparr>fk_tenant = TenantID ''acme'', fk_family = 1\<rparr>"
    unfolding tdemo_s3_def tdemo_s2_eq by code_simp
  then show ?thesis
    using tokens_revocation_final [OF tdemo_reach(2) tdemo_clock tdemo_clock rv rtranclp.rtrancl_refl, of 8000] by simp
qed

text \<open>
  C31. Signing a subject out is exact. \<^verbatim>\<open>RevokeForSubject\<close> revokes every token of the subject except those of the
  kept lineage (none is kept for the nil lineage), and changes no other token.
\<close>

theorem tokens_revoke_for_subject_exact:
  assumes "tok_reach s" and "tokens_RevokeForSubject None clk sub ex s = (res, s')"
  shows "res = Ok () \<and>
    map_of (ts_tokens s') h =
      map_option (\<lambda>r. if f_Subject (rt_row r) = sub \<and> (ex = uuid_Nil \<or> f_Lineage (rt_row r) \<noteq> ex)
                      then r\<lparr>rt_revoked := True\<rparr> else r) (map_of (ts_tokens s) h)"
proof -
  note inv = tok_reach_inv [OF assms(1)]
  let ?keep = "\<lambda>r. ex \<noteq> uuid_Nil \<and> f_Lineage r = ex"
  obtain fks where fks: "subjectFamilies sub ?keep s = Ok fks"
    "\<And>fk. fk \<in> set fks \<longleftrightarrow> (\<exists>h r. toks s h = Some r \<and> rt_key r = fk \<and> f_Subject (rt_row r) = sub \<and> \<not> ?keep (rt_row r))"
    using subjectFamilies_Ok [OF inv, where keep = ?keep and sub = sub] by auto
  obtain s1 where s1: "each (\<lambda>fk. tokens_revoke fk (tokens_now clk)) fks s = Ok s1"
    "toks s1 = map_option (mark_all (set fks)) \<circ> toks s"
    using each_revoke [OF inv] by blast
  have s': "res = Ok ()" "s' = s1"
    using assms(2) fks(1) s1(1) by (simp_all add: tokens_RevokeForSubject_def result_bind_def finish_def)
  have "rt_key r \<in> set fks \<longleftrightarrow> f_Subject (rt_row r) = sub \<and> \<not> ?keep (rt_row r)" if r: "toks s h = Some r" for r
  proof
    assume "rt_key r \<in> set fks"
    then obtain h' r' where r': "toks s h' = Some r'" "rt_key r' = rt_key r" "f_Subject (rt_row r') = sub" "\<not> ?keep (rt_row r')"
      unfolding fks(2) by blast
    from tok_inv_kin(1,2) [OF inv r'(1) r r'(2)] r'(3,4) show "f_Subject (rt_row r) = sub \<and> \<not> ?keep (rt_row r)" by simp
  qed (use r fks(2) in blast)
  then show ?thesis using s' s1(2) by (cases "toks s h") (auto simp: mark_all_def)
qed

theorem tokens_revoke_for_subject_exact_witness:
  "map_of (ts_tokens (snd (tokens_RevokeForSubject None 7000 \<lparr>s_tenant = TenantID ''acme'', s_user = 7\<rparr> uuid_Nil tdemo_s2))) (thash 11) =
     Some \<lparr>rt_row = tdemo_row 1 11, rt_consumedAt = zero_time, rt_consumedBy = [], rt_revoked = True\<rparr>"
proof -
  have "map_of (ts_tokens tdemo_s2) (thash 11) =
      Some \<lparr>rt_row = tdemo_row 1 11, rt_consumedAt = zero_time, rt_consumedBy = [], rt_revoked = False\<rparr>"
    unfolding tdemo_s2_eq by code_simp
  then show ?thesis
    using tokens_revoke_for_subject_exact [OF tdemo_reach(2) prod.collapse [symmetric], of 7000 "\<lparr>s_tenant = TenantID ''acme'', s_user = 7\<rparr>" uuid_Nil "thash 11"]
    by (simp add: tdemo_row_def)
qed

text \<open>
  C32. No revocation of a family is missed. A follower that polled the feed up to \<open>c'\<close> at \<open>s\<close> and polls again
  after any operations has been told, at \<open>s\<close> or now, of every family that has a revoked token.
\<close>

theorem tokens_revocations_told:
  assumes s: "tok_reach s" and c: "position c \<le> ts_seq s"
    and poll: "tokens_RevocationsSince None c s = (Ok (rs, c'), s)"
    and run: "(tok_step any_row)\<^sup>*\<^sup>* s s'"
    and r: "map_of (ts_tokens s') h = Some r" "rt_revoked r"
  shows "\<exists>e. \<lparr>fk_tenant = tv_Tenant (fe_rev e), fk_family = tv_Family (fe_rev e)\<rparr> = row_key (rt_row r) \<and>
    (e \<in> set (ts_feed s) \<or>
     (\<exists>rs' c''. tokens_RevocationsSince None c' s' = (Ok (rs', c''), s') \<and> fe_rev e \<in> set rs'))"
proof -
  note inv = tok_reach_inv [OF s]
  have "told_ok (toks s') (ts_feed s')" using tok_run_inv [OF run inv] by (simp add: tok_inv_def)
  then obtain e where e: "e \<in> set (ts_feed s')" "names (fe_rev e) (rt_key r)" using r unfolding told_ok_def by blast
  have "feed_Since (ts_feed s) c = (rs, c')" using poll by (simp add: tokens_RevocationsSince_def)
  from tokens_feed.follower_complete [OF inv c this run e(1)]
  have "e \<in> set (ts_feed s) \<or> fe_rev e \<in> set (fst (feed_Since (ts_feed s') c'))" .
  moreover have "tokens_RevocationsSince None c' s' = (Ok (fst (feed_Since (ts_feed s') c'), snd (feed_Since (ts_feed s') c')), s')"
    by (simp add: tokens_RevocationsSince_def)
  ultimately show ?thesis using e(2) unfolding names_def by blast
qed

theorem tokens_revocations_told_witness:
  "\<exists>v. \<lparr>fk_tenant = tv_Tenant v, fk_family = tv_Family v\<rparr> = \<lparr>fk_tenant = TenantID ''acme'', fk_family = 1\<rparr> \<and>
     (\<exists>rs c. tokens_RevocationsSince None zero_cursor tdemo_s3 = (Ok (rs, c), tdemo_s3) \<and> v \<in> set rs)"
proof -
  have poll: "tokens_RevocationsSince None zero_cursor tdemo_s2 = (Ok ([], zero_cursor), tdemo_s2)"
    "position zero_cursor \<le> ts_seq tdemo_s2" "ts_feed tdemo_s2 = []" unfolding tdemo_s2_eq by code_simp+
  have run: "(tok_step any_row)\<^sup>*\<^sup>* tdemo_s2 tdemo_s3" unfolding tdemo_s3_def by (rule r_into_rtranclp, rule tdemo_step) simp
  let ?r = "\<lparr>rt_row = tdemo_row 1 11, rt_consumedAt = zero_time, rt_consumedBy = [], rt_revoked = True\<rparr>"
  have r: "map_of (ts_tokens tdemo_s3) (thash 11) = Some ?r" "rt_revoked ?r"
    "row_key (rt_row ?r) = \<lparr>fk_tenant = TenantID ''acme'', fk_family = 1\<rparr>"
    unfolding tdemo_s3_def tdemo_s2_eq by code_simp+
  from tokens_revocations_told [OF tdemo_reach(2) poll(2,1) run r(1,2)] show ?thesis unfolding r(3) poll(3) by auto
qed




end
