(* ===== verification/Revoke_Families.thy ===== *)
theory Revoke_Families
  imports Follower_System Tokens_Properties
begin

text \<open>
  The cache of refresh-family states, \<^verbatim>\<open>internal/revoke/families.go\<close>, over the token store. The store keeps the
  promises of \<open>change_source\<close>, so a family answered live from memory had not been revoked at some moment of
  the last \<open>PollBound\<close>.
\<close>

section \<open>The cache\<close>




type_synonym families = "(family_key, family_state) follower"

definition families_Forget :: "tenant_id \<Rightarrow> uuid \<Rightarrow> families \<Rightarrow> families" where
  "families_Forget t family f = follower_forget \<lparr>fk_tenant = t, fk_family = family\<rparr> f"

definition families_ForgetSubject :: "subject \<Rightarrow> uuid \<Rightarrow> families \<Rightarrow> families" where
  "families_ForgetSubject s keep f =
     follower_forgetWhere (\<lambda>_ st. fs_Subject st = s \<and> (keep = uuid_Nil \<or> fs_Lineage st \<noteq> keep)) f"

definition families_ForgetTenant :: "tenant_id \<Rightarrow> families \<Rightarrow> families" where
  "families_ForgetTenant t f = follower_forgetWhere (\<lambda>k _. fk_tenant k = t) f"



section \<open>How an operation moves families\<close>











section \<open>The token store as a change source\<close>
















section \<open>Bounded staleness\<close>




section \<open>A concrete run\<close>














end
