(* ===== verification/Ceremony_Kind.thy ===== *)
theory Ceremony_Kind
  imports Core_Codec
begin

text \<open>
  The closed registry of ceremony kinds, \<^verbatim>\<open>store/ceremony/kind.go\<close>. A \<^verbatim>\<open>Kind\<close> is a persisted byte, so every
  byte is a kind and the undeclared ones are invalid; the switches of the code are membership in the
  listed kinds, with the value after the switch as the last branch.
\<close>

type_synonym kind = u8

definition pendingTTL :: duration where "pendingTTL = 15 * Minute"

definition MFAFlow :: kind where "MFAFlow = 1"
definition PasskeyRegistration :: kind where "PasskeyRegistration = 2"
definition MFAPasskey :: kind where "MFAPasskey = 3"
definition MagicLink :: kind where "MagicLink = 4"
definition EmailCode :: kind where "EmailCode = 5"
definition SMSCode :: kind where "SMSCode = 6"
definition PhoneVerification :: kind where "PhoneVerification = 7"
definition PasswordReset :: kind where "PasswordReset = 8"
definition PendingRegistration :: kind where "PendingRegistration = 9"
definition EmailVerification :: kind where "EmailVerification = 10"
definition EmailChange :: kind where "EmailChange = 11"
definition RecoveryEmail :: kind where "RecoveryEmail = 12"
definition SecurityRevert :: kind where "SecurityRevert = 13"
definition Exchange :: kind where "Exchange = 14"
definition DiscoverablePasskey :: kind where "DiscoverablePasskey = 15"
definition UsernameFirstPasskey :: kind where "UsernameFirstPasskey = 16"
definition OAuthState :: kind where "OAuthState = 17"
definition ExternalLogin :: kind where "ExternalLogin = 18"
definition PasswordResetCode :: kind where "PasswordResetCode = 19"
definition kindEnd :: kind where "kindEnd = 20"

lemmas kind_defs =
  MFAFlow_def PasskeyRegistration_def MFAPasskey_def MagicLink_def EmailCode_def SMSCode_def
  PhoneVerification_def PasswordReset_def PendingRegistration_def EmailVerification_def
  EmailChange_def RecoveryEmail_def SecurityRevert_def Exchange_def DiscoverablePasskey_def
  UsernameFirstPasskey_def OAuthState_def ExternalLogin_def PasswordResetCode_def kindEnd_def

text \<open>The zero value of both classes is what an invalid kind reports.\<close>

datatype scope_class = ScopeZero | ScopeSubject | ScopeIdentifier | ScopeAnonymous

datatype secret_class = SecretZero | HighEntropy | ShortCode

definition kind_Valid :: "kind \<Rightarrow> bool" where
  "kind_Valid k \<longleftrightarrow> k \<ge> 1 \<and> k < kindEnd"

text \<open>The loop counter runs from 1 to \<^verbatim>\<open>kindEnd\<close>; what it appends is every value it takes.\<close>

definition kind_All :: "kind list" where
  "kind_All = map word_of_nat [1..<unat kindEnd]"

definition kind_String :: "kind \<Rightarrow> string" where
  "kind_String k =
     (if k = MFAFlow then ''mfa_flow''
      else if k = PasskeyRegistration then ''passkey_registration''
      else if k = MFAPasskey then ''mfa_passkey''
      else if k = MagicLink then ''magic_link''
      else if k = EmailCode then ''email_code''
      else if k = SMSCode then ''sms_code''
      else if k = PhoneVerification then ''phone_verification''
      else if k = PasswordReset then ''password_reset''
      else if k = PendingRegistration then ''pending_registration''
      else if k = EmailVerification then ''email_verification''
      else if k = EmailChange then ''email_change''
      else if k = RecoveryEmail then ''recovery_email''
      else if k = SecurityRevert then ''security_revert''
      else if k = Exchange then ''exchange''
      else if k = DiscoverablePasskey then ''discoverable_passkey''
      else if k = UsernameFirstPasskey then ''username_first_passkey''
      else if k = OAuthState then ''oauth_state''
      else if k = ExternalLogin then ''external_login''
      else if k = PasswordResetCode then ''password_reset_code''
      else ''invalid'')"

definition kind_AdmitsSession :: "kind \<Rightarrow> bool" where
  "kind_AdmitsSession k \<longleftrightarrow>
     k \<in> set [MFAFlow, MFAPasskey, MagicLink, EmailCode, SMSCode, PendingRegistration,
              Exchange, DiscoverablePasskey, UsernameFirstPasskey, OAuthState, ExternalLogin]"

text \<open>
  The branches of \<^verbatim>\<open>TTL\<close> that are constants, and \<^verbatim>\<open>TTL\<close> itself, whose other branches call it on \<^verbatim>\<open>MFAFlow\<close>
  and \<^verbatim>\<open>Exchange\<close>.
\<close>

definition ttl_const :: "kind \<Rightarrow> duration" where
  "ttl_const k =
     (if k \<in> set [MFAFlow, PasskeyRegistration, MFAPasskey, DiscoverablePasskey, UsernameFirstPasskey,
                  ExternalLogin] then 5 * Minute
      else if k \<in> set [PhoneVerification, PasswordResetCode] then 10 * Minute
      else if k \<in> set [PasswordReset, EmailChange, RecoveryEmail] then Hour
      else if k = EmailVerification then 24 * Hour
      else if k = SecurityRevert then 7 * 24 * Hour
      else if k = Exchange then Minute
      else 0)"

definition kind_TTL :: "kind \<Rightarrow> duration" where
  "kind_TTL k =
     (if k \<in> set [MagicLink, EmailCode, SMSCode, PendingRegistration] then pendingTTL - ttl_const MFAFlow
      else if k = OAuthState then pendingTTL - ttl_const Exchange - ttl_const MFAFlow
      else ttl_const k)"

definition kind_MaxLivePerScope :: "kind \<Rightarrow> int" where
  "kind_MaxLivePerScope k =
     (if k \<in> set [MFAFlow, PasskeyRegistration, MFAPasskey, SecurityRevert, Exchange] then 5
      else if k \<in> set [MagicLink, EmailCode, SMSCode, PhoneVerification, PasswordReset, PendingRegistration,
                       EmailVerification, EmailChange, RecoveryEmail, PasswordResetCode] then 3
      else 0)"

definition kind_MaxLivePerTenant :: "kind \<Rightarrow> int" where
  "kind_MaxLivePerTenant k = (if k = PendingRegistration then 10000 else 0)"

definition kind_MaxAttempts :: "kind \<Rightarrow> int" where
  "kind_MaxAttempts k =
     (if k \<in> set [EmailCode, SMSCode, PhoneVerification, MFAFlow, MFAPasskey, PasswordResetCode] then 5
      else if k \<in> set [PasskeyRegistration, MagicLink, PasswordReset, PendingRegistration, EmailVerification,
                       EmailChange, RecoveryEmail, SecurityRevert, Exchange] then 3
      else 0)"

definition kind_SecretClass :: "kind \<Rightarrow> secret_class" where
  "kind_SecretClass k =
     (if k \<in> set [EmailCode, SMSCode, PhoneVerification, PasswordResetCode] then ShortCode
      else if k \<in> set [MFAFlow, PasskeyRegistration, MFAPasskey, MagicLink, PasswordReset, PendingRegistration,
                       EmailVerification, EmailChange, RecoveryEmail, SecurityRevert, Exchange,
                       DiscoverablePasskey, UsernameFirstPasskey, OAuthState, ExternalLogin] then HighEntropy
      else SecretZero)"

definition kind_Scope :: "kind \<Rightarrow> scope_class" where
  "kind_Scope k =
     (if k \<in> set [MFAFlow, PasskeyRegistration, MFAPasskey, PhoneVerification, PasswordReset,
                  EmailVerification, EmailChange, RecoveryEmail, Exchange, PasswordResetCode] then ScopeSubject
      else if k \<in> set [MagicLink, EmailCode, SMSCode, PendingRegistration, SecurityRevert] then ScopeIdentifier
      else if k \<in> set [DiscoverablePasskey, UsernameFirstPasskey, OAuthState, ExternalLogin] then ScopeAnonymous
      else ScopeZero)"

definition kind_Stateless :: "kind \<Rightarrow> bool" where
  "kind_Stateless k \<longleftrightarrow> kind_Scope k = ScopeAnonymous"

definition kind_ExpiresAt :: "kind \<Rightarrow> instant \<Rightarrow> instant \<Rightarrow> instant" where
  "kind_ExpiresAt k pendingEnd now =
     (if \<not> kind_Valid k then zero_time
      else (let end' = now + kind_TTL k in
            if kind_AdmitsSession k \<and> pendingEnd < end' then pendingEnd else end'))"

section \<open>Laws of the registry\<close>

lemma set_kind_All: "k \<in> set kind_All \<longleftrightarrow> kind_Valid k"
proof
  assume "k \<in> set kind_All"
  then obtain n where "1 \<le> n" "n < 20" "k = word_of_nat n"
    by (auto simp: kind_All_def kindEnd_def)
  then show "kind_Valid k"
    by (simp add: kind_Valid_def kindEnd_def word_le_nat_alt word_less_nat_alt unat_of_nat)
next
  assume "kind_Valid k"
  then have "1 \<le> unat k" "unat k < 20"
    by (auto simp: kind_Valid_def kindEnd_def word_le_nat_alt word_less_nat_alt)
  moreover have "k = word_of_nat (unat k)" by simp
  ultimately show "k \<in> set kind_All"
    unfolding kind_All_def kindEnd_def by (auto intro!: image_eqI [where x = "unat k"])
qed

text \<open>A statement about every declared kind is one about the 19 of them.\<close>

lemma valid_kindI: "list_all P kind_All \<Longrightarrow> kind_Valid k \<Longrightarrow> P k"
  by (simp add: set_kind_All [symmetric] list_all_iff)

lemma kind_All_eq: "kind_All = [1, 2, 3, 4, 5, 6, 7, 8, 9, 10, 11, 12, 13, 14, 15, 16, 17, 18, 19]"
  by code_simp

lemma kind_TTL_pos: "kind_Valid k \<Longrightarrow> 0 < kind_TTL k"
  by (rule valid_kindI [where P = "\<lambda>k. 0 < kind_TTL k"]) code_simp

lemma kind_TTL_whole: "kind_Valid k \<Longrightarrow> Microsecond dvd kind_TTL k"
  by (rule valid_kindI [where P = "\<lambda>k. Microsecond dvd kind_TTL k"]) code_simp

text \<open>A stored kind has attempts to charge and room for a row; a stateless one has neither.\<close>

lemma kind_bounds:
  "kind_Valid k \<Longrightarrow>
   (if kind_Stateless k then kind_MaxAttempts k = 0 \<and> kind_MaxLivePerScope k = 0
    else 0 < kind_MaxAttempts k \<and> 0 < kind_MaxLivePerScope k)"
  by (rule valid_kindI [where P = "\<lambda>k. if kind_Stateless k
        then kind_MaxAttempts k = 0 \<and> kind_MaxLivePerScope k = 0
        else 0 < kind_MaxAttempts k \<and> 0 < kind_MaxLivePerScope k"]) code_simp

lemma kind_names_distinct: "distinct (map kind_String kind_All)"
  by code_simp

lemma kind_String_inj: "kind_Valid k \<Longrightarrow> kind_Valid l \<Longrightarrow> kind_String k = kind_String l \<Longrightarrow> k = l"
  using kind_names_distinct unfolding distinct_map set_kind_All [symmetric] by (blast dest: inj_onD)

text \<open>The clamp of \<^verbatim>\<open>ExpiresAt\<close>: no artefact outlives its kind, nor its Pending where it admits a session.\<close>

lemma kind_ExpiresAt_le: "kind_Valid k \<Longrightarrow> kind_ExpiresAt k pendingEnd now \<le> now + kind_TTL k"
  by (simp add: kind_ExpiresAt_def Let_def)

lemma kind_ExpiresAt_pending:
  "kind_Valid k \<Longrightarrow> kind_AdmitsSession k \<Longrightarrow> kind_ExpiresAt k pendingEnd now \<le> pendingEnd"
  by (simp add: kind_ExpiresAt_def Let_def)

end
