(* ===== verification/Ceremony_Record.thy ===== *)
theory Ceremony_Record
  imports Ceremony_Kind
begin

text \<open>
  Ceremony records, \<^verbatim>\<open>store/ceremony/record.go\<close>: scopes, the binding a sealed Pending gives a record, and the
  constructors that keep a record's tenant, scope and expiry in agreement with both. A digest is at most a
  64-byte slice; \<^verbatim>\<open>slices.Clone\<close> and \<^verbatim>\<open>Sealed.Bytes\<close> copy, which values do by themselves.
\<close>

definition HandleHashLen :: nat where "HandleHashLen = 32"
definition MaxHandleHashLen :: nat where "MaxHandleHashLen = 64"
definition IdentifierScopeLen :: nat where "IdentifierScopeLen = 32"
definition MaxPayloadLen :: int where "MaxPayloadLen = 16384"

record scope =
  sc_class :: scope_class
  sc_tenant :: tenant_id
  sc_hash :: bytes

definition zero_scope :: scope where
  "zero_scope = \<lparr>sc_class = ScopeZero, sc_tenant = zero_tenant, sc_hash = []\<rparr>"

definition SubjectScope :: "subject \<Rightarrow> scope" where
  "SubjectScope s =
     (if subject_IsZero s then zero_scope
      else \<lparr>sc_class = ScopeSubject, sc_tenant = s_tenant s, sc_hash = uuid_bytes (s_user s)\<rparr>)"

definition IdentifierScope :: "bytes \<Rightarrow> scope result" where
  "IdentifierScope mac =
     (if length mac \<noteq> IdentifierScopeLen then Err [CeremonyErr ErrScopeMismatch]
      else Ok \<lparr>sc_class = ScopeIdentifier, sc_tenant = zero_tenant, sc_hash = mac\<rparr>)"

record pending_binding =
  pb_Tenant :: tenant_id
  pb_Subject :: subject
  pb_ExpiresAt :: instant

text \<open>A \<^verbatim>\<open>PendingOpener\<close> is an argument of the code; \<open>None\<close> is the nil function.\<close>

type_synonym pending_opener = "sealed \<Rightarrow> pending_binding result"

record ceremony_spec =
  sp_Kind :: kind
  sp_HandleHash :: bytes
  sp_Scope :: scope
  sp_Pending :: sealed
  sp_Payload :: bytes
  sp_Now :: instant

record ceremony_row =
  cw_Tenant :: tenant_id
  cw_Kind :: kind
  cw_HandleHash :: bytes
  cw_ScopeHash :: bytes
  cw_Pending :: sealed
  cw_Payload :: bytes
  cw_Attempts :: int
  cw_ExpiresAt :: instant
  cw_CreatedAt :: instant

text \<open>
  \<open>cr_Pending\<close> is the exported field a caller may replace, \<open>cr_pending\<close> the unexported copy it is compared
  with.
\<close>

record ceremony_record =
  cr_Pending :: sealed
  cr_pending :: bytes
  cr_tenant :: tenant_id
  cr_kind :: kind
  cr_handleHash :: bytes
  cr_scopeHash :: bytes
  cr_payload :: bytes
  cr_attempts :: int
  cr_expiresAt :: instant
  cr_createdAt :: instant

text \<open>\<^verbatim>\<open>uuid.UUID(h)\<close> of a 16-byte slice is \<^verbatim>\<open>uuid.Nil\<close> exactly when every byte is zero.\<close>

definition scopeHashFits :: "scope_class \<Rightarrow> bytes \<Rightarrow> bool" where
  "scopeHashFits c h =
     (case c of
        ScopeSubject \<Rightarrow> length h = 16 \<and> bytes_uuid h \<noteq> uuid_Nil
      | ScopeIdentifier \<Rightarrow> length h = IdentifierScopeLen
      | _ \<Rightarrow> False)"

definition invalid_record :: "string \<Rightarrow> err" where
  "invalid_record problem = errors_Join [CeremonyErr ErrCeremonyInvalidRecord] (errors_New problem)"

definition ceremony_checkRow :: "ceremony_row \<Rightarrow> unit result" where
  "ceremony_checkRow r =
     (if \<not> kind_Valid (cw_Kind r) then Err (invalid_record ''invalid kind'')
      else if kind_Stateless (cw_Kind r) then Err [CeremonyErr ErrStatelessKind]
      else if length (cw_HandleHash r) < HandleHashLen then Err [CeremonyErr ErrHandleTooShort]
      else if \<not> scopeHashFits (kind_Scope (cw_Kind r)) (cw_ScopeHash r) then Err [CeremonyErr ErrScopeMismatch]
      else if length (cw_HandleHash r) > MaxHandleHashLen then Err (invalid_record ''handle hash is too long'')
      else if sealed_IsZero (cw_Pending r) then Err (invalid_record ''sealed pending is required'')
      else if int (length (cw_Payload r)) > MaxPayloadLen then Err (invalid_record ''payload is too large'')
      else if cw_Attempts r < 0 \<or> cw_Attempts r \<ge> kind_MaxAttempts (cw_Kind r)
      then Err (invalid_record ''attempts are outside the kind's bound'')
      else if time_IsZero (cw_CreatedAt r) \<or> \<not> cw_ExpiresAt r > cw_CreatedAt r
      then Err (invalid_record ''expiry must fall after creation'')
      else if cw_ExpiresAt r > cw_CreatedAt r + kind_TTL (cw_Kind r)
      then Err (invalid_record ''expiry exceeds the kind's lifetime'')
      else Ok ())"

definition ceremony_Restore :: "ceremony_row \<Rightarrow> ceremony_record result" where
  "ceremony_Restore r =
     result_bind (ceremony_checkRow r) (\<lambda>_.
       Ok \<lparr>cr_Pending = cw_Pending r, cr_pending = sealed_b (cw_Pending r), cr_tenant = cw_Tenant r,
           cr_kind = cw_Kind r, cr_handleHash = cw_HandleHash r, cr_scopeHash = cw_ScopeHash r,
           cr_payload = cw_Payload r, cr_attempts = cw_Attempts r, cr_expiresAt = cw_ExpiresAt r,
           cr_createdAt = cw_CreatedAt r\<rparr>)"

definition bindingFits :: "scope \<Rightarrow> pending_binding \<Rightarrow> bool" where
  "bindingFits s b =
     (if \<not> subject_IsZero (pb_Subject b) \<and> s_tenant (pb_Subject b) \<noteq> pb_Tenant b then False
      else if sc_class s \<noteq> ScopeSubject then True
      else if sc_tenant s \<noteq> pb_Tenant b then False
      else subject_IsZero (pb_Subject b) \<or> sc_hash s = uuid_bytes (s_user (pb_Subject b)))"

definition NewRecord :: "ceremony_spec \<Rightarrow> pending_opener option \<Rightarrow> ceremony_record result" where
  "NewRecord s opener =
     (if \<not> kind_Valid (sp_Kind s) then Err (invalid_record ''invalid kind'')
      else if kind_Stateless (sp_Kind s) then Err [CeremonyErr ErrStatelessKind]
      else case (if sealed_IsZero (sp_Pending s) then None else opener) of
        None \<Rightarrow> Err (invalid_record ''sealed pending and its opener are required'')
      | Some f \<Rightarrow>
         (case f (sp_Pending s) of
            Err e \<Rightarrow> Err (errors_Join [CeremonyErr ErrCeremonyInvalidRecord] e)
          | Panic \<Rightarrow> Panic
          | Ok b \<Rightarrow>
             (if sc_class (sp_Scope s) \<noteq> kind_Scope (sp_Kind s) \<or> \<not> bindingFits (sp_Scope s) b
              then Err [CeremonyErr ErrScopeMismatch]
              else if time_IsZero (sp_Now s) \<or> time_IsZero (pb_ExpiresAt b)
              then Err (invalid_record ''writing time and pending expiry are required'')
              else
                (let end' = kind_ExpiresAt (sp_Kind s) (pb_ExpiresAt b) (sp_Now s) in
                 if \<not> pb_ExpiresAt b > sp_Now s \<or> \<not> end' > sp_Now s then Err [CeremonyErr ErrCeremonyExpired]
                 else ceremony_Restore
                        \<lparr>cw_Tenant = pb_Tenant b, cw_Kind = sp_Kind s, cw_HandleHash = sp_HandleHash s,
                         cw_ScopeHash = sc_hash (sp_Scope s), cw_Pending = sp_Pending s,
                         cw_Payload = sp_Payload s, cw_Attempts = 0, cw_ExpiresAt = end',
                         cw_CreatedAt = sp_Now s\<rparr>))))"

text \<open>The row \<^verbatim>\<open>Validate\<close> checks and \<^verbatim>\<open>Put\<close> stores, before \<^verbatim>\<open>Put\<close> truncates its instants.\<close>

definition record_row :: "ceremony_record \<Rightarrow> ceremony_row" where
  "record_row r =
     \<lparr>cw_Tenant = cr_tenant r, cw_Kind = cr_kind r, cw_HandleHash = cr_handleHash r,
      cw_ScopeHash = cr_scopeHash r, cw_Pending = cr_Pending r, cw_Payload = cr_payload r,
      cw_Attempts = cr_attempts r, cw_ExpiresAt = cr_expiresAt r, cw_CreatedAt = cr_createdAt r\<rparr>"

definition ceremony_Validate :: "ceremony_record \<Rightarrow> unit result" where
  "ceremony_Validate r =
     (if sealed_b (cr_Pending r) \<noteq> cr_pending r
      then Err (invalid_record ''sealed pending was replaced after construction'')
      else ceremony_checkRow (record_row r))"

definition ScopedTo :: "ceremony_record \<Rightarrow> scope \<Rightarrow> bool" where
  "ScopedTo r s =
     (if sc_class s = ScopeZero \<or> sc_class s \<noteq> kind_Scope (cr_kind r) \<or> sc_hash s \<noteq> cr_scopeHash r then False
      else sc_class s \<noteq> ScopeSubject \<or> sc_tenant s = cr_tenant r)"

section \<open>Laws of records\<close>

lemma ceremony_checkRow_not_Panic [simp]: "ceremony_checkRow r \<noteq> Panic"
  by (simp add: ceremony_checkRow_def)

lemma ceremony_Restore_not_Panic [simp]: "ceremony_Restore r \<noteq> Panic"
  by (simp add: ceremony_Restore_def result_bind_Panic)

lemma ceremony_Validate_not_Panic [simp]: "ceremony_Validate r \<noteq> Panic"
  by (simp add: ceremony_Validate_def)

lemma ceremony_checkRow_Ok:
  "ceremony_checkRow r = Ok u \<longleftrightarrow>
     kind_Valid (cw_Kind r) \<and> \<not> kind_Stateless (cw_Kind r) \<and>
     HandleHashLen \<le> length (cw_HandleHash r) \<and> length (cw_HandleHash r) \<le> MaxHandleHashLen \<and>
     scopeHashFits (kind_Scope (cw_Kind r)) (cw_ScopeHash r) \<and> \<not> sealed_IsZero (cw_Pending r) \<and>
     int (length (cw_Payload r)) \<le> MaxPayloadLen \<and>
     0 \<le> cw_Attempts r \<and> cw_Attempts r < kind_MaxAttempts (cw_Kind r) \<and>
     \<not> time_IsZero (cw_CreatedAt r) \<and> cw_CreatedAt r < cw_ExpiresAt r \<and>
     cw_ExpiresAt r \<le> cw_CreatedAt r + kind_TTL (cw_Kind r)"
  by (auto simp: ceremony_checkRow_def)

lemma ceremony_Restore_Ok: "ceremony_Restore r = Ok x \<Longrightarrow> record_row x = r \<and> ceremony_Validate x = Ok ()"
  by (cases r) (auto simp: ceremony_Restore_def record_row_def ceremony_Validate_def)

lemma Restore_record_row: "ceremony_Validate x = Ok () \<Longrightarrow> ceremony_Restore (record_row x) = Ok x"
  by (auto simp: ceremony_Restore_def record_row_def ceremony_Validate_def split: if_splits)

text \<open>
  What \<^verbatim>\<open>NewRecord\<close> promises of a record it builds: the tenant of the Pending, a scope that is the Pending's own
  subject once bound, no attempts yet, and an expiry that neither the kind nor a session-admitting Pending
  is outlived by.
\<close>

lemma NewRecord_Ok:
  assumes "NewRecord s opener = Ok r"
  obtains f b where "opener = Some f" "f (sp_Pending s) = Ok b"
    "ceremony_Validate r = Ok ()" "cr_tenant r = pb_Tenant b" "cr_kind r = sp_Kind s"
    "ScopedTo r (sp_Scope s)" "cr_attempts r = 0" "cr_createdAt r = sp_Now s"
    "sp_Now s < cr_expiresAt r" "cr_expiresAt r \<le> sp_Now s + kind_TTL (sp_Kind s)"
    "kind_AdmitsSession (sp_Kind s) \<longrightarrow> cr_expiresAt r \<le> pb_ExpiresAt b"
    "kind_Scope (sp_Kind s) = ScopeSubject \<and> \<not> subject_IsZero (pb_Subject b) \<longrightarrow>
       cr_scopeHash r = uuid_bytes (s_user (pb_Subject b)) \<and> s_tenant (pb_Subject b) = cr_tenant r"
proof -
  have valid: "kind_Valid (sp_Kind s)" and state: "\<not> kind_Stateless (sp_Kind s)"
    using assms by (auto simp: NewRecord_def split: if_splits)
  then obtain f where f: "opener = Some f" and z: "\<not> sealed_IsZero (sp_Pending s)"
    using assms by (auto simp: NewRecord_def split: if_splits option.splits)
  then obtain b where b: "f (sp_Pending s) = Ok b"
    using assms valid state by (auto simp: NewRecord_def split: result.splits)
  let ?expires = "kind_ExpiresAt (sp_Kind s) (pb_ExpiresAt b) (sp_Now s)"
  have cls: "sc_class (sp_Scope s) = kind_Scope (sp_Kind s)" and fits: "bindingFits (sp_Scope s) b"
    and after: "sp_Now s < ?expires"
    and row: "ceremony_Restore
                \<lparr>cw_Tenant = pb_Tenant b, cw_Kind = sp_Kind s, cw_HandleHash = sp_HandleHash s,
                 cw_ScopeHash = sc_hash (sp_Scope s), cw_Pending = sp_Pending s,
                 cw_Payload = sp_Payload s, cw_Attempts = 0, cw_ExpiresAt = ?expires,
                 cw_CreatedAt = sp_Now s\<rparr> = Ok r"
    using assms valid state f z b by (auto simp: NewRecord_def Let_def split: if_splits)
  note r = ceremony_Restore_Ok [OF row]
  then have fields: "cr_tenant r = pb_Tenant b" "cr_kind r = sp_Kind s" "cr_scopeHash r = sc_hash (sp_Scope s)"
    "cr_attempts r = 0" "cr_createdAt r = sp_Now s" "cr_expiresAt r = ?expires"
    by (auto simp: record_row_def)
  have "scopeHashFits (kind_Scope (sp_Kind s)) (sc_hash (sp_Scope s))"
    using row by (auto simp: ceremony_Restore_def ceremony_checkRow_Ok)
  then have "kind_Scope (sp_Kind s) \<noteq> ScopeZero" by (auto simp: scopeHashFits_def)
  then have "ScopedTo r (sp_Scope s)"
    using cls fits fields by (auto simp: ScopedTo_def bindingFits_def split: if_splits)
  moreover have "kind_Scope (sp_Kind s) = ScopeSubject \<and> \<not> subject_IsZero (pb_Subject b) \<longrightarrow>
       cr_scopeHash r = uuid_bytes (s_user (pb_Subject b)) \<and> s_tenant (pb_Subject b) = cr_tenant r"
    using cls fits fields by (auto simp: bindingFits_def split: if_splits)
  ultimately show thesis
    using that [OF f b] r fields after kind_ExpiresAt_le [OF valid] kind_ExpiresAt_pending [OF valid] by simp
qed

end
