(* ===== verification/Ceremony_Store.thy ===== *)
theory Ceremony_Store
  imports Ceremony_Record
begin

text \<open>
  The in-process ceremony store, \<^verbatim>\<open>store/ceremony/memory/store.go\<close>. Every method runs under the store's mutex,
  so it is one step on the whole state; \<open>clk\<close> is what the store's clock returns when the method reads it.
  The code keeps one \<^verbatim>\<open>*entry\<close> per row, held by both \<^verbatim>\<open>rows\<close> and its bucket; the entry is a value in both maps
  here, and the one in-place write (\<^verbatim>\<open>e.row.Attempts++\<close>) writes both.
\<close>

record ckey =
  ck_tenant :: tenant_id
  ck_kind :: kind
  ck_handle :: bytes

record centry =
  ce_row :: ceremony_row
  ce_seq :: nat

record bucket_key =
  bk_tenant :: tenant_id
  bk_kind :: kind

record scope_key =
  sk_bucket :: bucket_key
  sk_scope :: bytes

record cstore =
  cs_seq :: nat
  cs_rows :: "(ckey, centry) gomap"
  cs_buckets :: "(bucket_key, (ckey, centry) gomap) gomap"
  cs_scopes :: "(scope_key, int) gomap"
  cs_consumed :: "(ckey, instant) gomap"

definition ceremonies_New :: cstore where
  "ceremonies_New = \<lparr>cs_seq = 0, cs_rows = [], cs_buckets = [], cs_scopes = [], cs_consumed = []\<rparr>"

definition bucket_of :: "ckey \<Rightarrow> bucket_key" where
  "bucket_of k = \<lparr>bk_tenant = ck_tenant k, bk_kind = ck_kind k\<rparr>"

definition scope_of :: "ckey \<Rightarrow> centry \<Rightarrow> scope_key" where
  "scope_of k e = \<lparr>sk_bucket = bucket_of k, sk_scope = cw_ScopeHash (ce_row e)\<rparr>"

text \<open>Indexing a Go map without the key gives the zero value: a nil map, a zero counter.\<close>

definition bucket :: "bucket_key \<Rightarrow> cstore \<Rightarrow> (ckey, centry) gomap" where
  "bucket bk s = (case map_of (cs_buckets s) bk of None \<Rightarrow> [] | Some b \<Rightarrow> b)"

definition scope_count :: "scope_key \<Rightarrow> cstore \<Rightarrow> int" where
  "scope_count sk s = (case map_of (cs_scopes s) sk of None \<Rightarrow> 0 | Some n \<Rightarrow> n)"

section \<open>Rows and their indexes\<close>

definition ceremonies_insert :: "ckey \<Rightarrow> centry \<Rightarrow> cstore \<Rightarrow> cstore" where
  "ceremonies_insert k e s =
     s\<lparr>cs_rows := AList.update k e (cs_rows s),
       cs_buckets := AList.update (bucket_of k) (AList.update k e (bucket (bucket_of k) s)) (cs_buckets s),
       cs_scopes := AList.update (scope_of k e) (scope_count (scope_of k e) s + 1) (cs_scopes s)\<rparr>"

definition ceremonies_remove :: "ckey \<Rightarrow> cstore \<Rightarrow> cstore" where
  "ceremonies_remove k s =
     (case map_of (cs_rows s) k of
        None \<Rightarrow> s
      | Some e \<Rightarrow>
          (let b = AList.delete k (bucket (bucket_of k) s);
               n = scope_count (scope_of k e) s - 1
           in s\<lparr>cs_rows := AList.delete k (cs_rows s),
                cs_buckets := (if length b = 0 then AList.delete (bucket_of k) (cs_buckets s)
                               else AList.update (bucket_of k) b (cs_buckets s)),
                cs_scopes := (if n \<le> 0 then AList.delete (scope_of k e) (cs_scopes s)
                              else AList.update (scope_of k e) n (cs_scopes s))\<rparr>))"

definition remove_all :: "ckey list \<Rightarrow> cstore \<Rightarrow> cstore" where
  "remove_all ks s = foldl (\<lambda>s k. ceremonies_remove k s) s ks"

text \<open>
  The order of \<^verbatim>\<open>evict\<close>: newest first by creation, then by insertion. Insertion numbers differ, so sorting has
  one outcome whatever order the map was ranged in.
\<close>

definition newest_first :: "ckey \<times> centry \<Rightarrow> int \<times> int" where
  "newest_first ke = (- cw_CreatedAt (ce_row (snd ke)), - int (ce_seq (snd ke)))"

definition entry_live :: "instant \<Rightarrow> centry \<Rightarrow> bool" where
  "entry_live now e \<longleftrightarrow> cw_ExpiresAt (ce_row e) > now"

definition evict_victims ::
  "ckey \<Rightarrow> instant \<Rightarrow> (centry \<Rightarrow> bool) \<Rightarrow> int \<Rightarrow> (ckey, centry) gomap \<Rightarrow> ckey list" where
  "evict_victims keep now same limit b =
     (let others = filter (\<lambda>(k, e). \<not> (k = keep \<or> \<not> entry_live now e \<or> \<not> same e)) b in
      if int (length others) < limit then []
      else map fst (drop (nat (limit - 1)) (sort_key newest_first others)))"

definition ceremonies_evict ::
  "ckey \<Rightarrow> instant \<Rightarrow> (centry \<Rightarrow> bool) \<Rightarrow> int \<Rightarrow> cstore \<Rightarrow> int \<times> cstore" where
  "ceremonies_evict keep now same limit s =
     (if limit \<le> 0 then (0, s)
      else (let victims = evict_victims keep now same limit (bucket (bucket_of keep) s)
            in (int (length victims), remove_all victims s)))"

section \<open>Methods\<close>

definition ceremonies_Ping :: "context_err \<Rightarrow> cstore \<Rightarrow> unit result \<times> cstore" where
  "ceremonies_Ping ctx s = with_ctx ctx s (Ok (), s)"

definition ceremonies_EraseTenant :: "context_err \<Rightarrow> tenant_id \<Rightarrow> cstore \<Rightarrow> unit result \<times> cstore" where
  "ceremonies_EraseTenant ctx t s =
     with_ctx ctx s
       (let s1 = remove_all (filter (\<lambda>k. ck_tenant k = t) (keys_of (cs_rows s))) s
        in (Ok (), s1\<lparr>cs_consumed := del_where (\<lambda>k _. ck_tenant k = t) (cs_consumed s1)\<rparr>))"

definition ceremonies_ReapExpired :: "context_err \<Rightarrow> instant \<Rightarrow> cstore \<Rightarrow> int result \<times> cstore" where
  "ceremonies_ReapExpired ctx clk s =
     with_ctx ctx s
       (let dead = map fst (filter (\<lambda>(k, e). \<not> entry_live clk e) (cs_rows s));
            s1 = remove_all dead s;
            kept = del_where (\<lambda>_ until. \<not> until > clk) (cs_consumed s1)
        in (Ok (int (length dead) + (int (length (cs_consumed s1)) - int (length kept))),
            s1\<lparr>cs_consumed := kept\<rparr>))"

definition record_key_of :: "ceremony_record \<Rightarrow> ckey" where
  "record_key_of r = \<lparr>ck_tenant = cr_tenant r, ck_kind = cr_kind r, ck_handle = cr_handleHash r\<rparr>"

definition stored_row :: "ceremony_record \<Rightarrow> ceremony_row" where
  "stored_row r =
     (record_row r)\<lparr>cw_ExpiresAt := time_Truncate (cr_expiresAt r) Microsecond,
                   cw_CreatedAt := time_Truncate (cr_createdAt r) Microsecond\<rparr>"

definition ceremonies_Put :: "context_err \<Rightarrow> instant \<Rightarrow> ceremony_record \<Rightarrow> cstore \<Rightarrow> int result \<times> cstore" where
  "ceremonies_Put ctx clk r s =
     with_ctx ctx s
       (case ceremony_Validate r of
          Err e \<Rightarrow> (Err e, s)
        | Panic \<Rightarrow> (Panic, s)
        | Ok _ \<Rightarrow>
           (let k = record_key_of r in
            if (case map_of (cs_rows s) k of None \<Rightarrow> False | Some old \<Rightarrow> entry_live clk old)
            then (Err [StoreErr ErrConflict], s)
            else
              (let s1 = ceremonies_remove k s;
                   e = \<lparr>ce_row = stored_row r, ce_seq = cs_seq s1 + 1\<rparr>;
                   s2 = ceremonies_insert k e (s1\<lparr>cs_seq := cs_seq s1 + 1\<rparr>);
                   cap = kind_MaxLivePerScope (cr_kind r);
                   (n1, s3) =
                     (if scope_count \<lparr>sk_bucket = bucket_of k, sk_scope = cr_scopeHash r\<rparr> s2 > cap
                      then ceremonies_evict k clk (\<lambda>e. cw_ScopeHash (ce_row e) = cr_scopeHash r) cap s2
                      else (0, s2));
                   ceiling = kind_MaxLivePerTenant (cr_kind r);
                   (n2, s4) =
                     (if ceiling > 0 \<and> int (length (bucket (bucket_of k) s3)) > ceiling
                      then ceremonies_evict k clk (\<lambda>_. True) ceiling s3
                      else (0, s3))
               in (Ok (n1 + n2), s4))))"

definition lookupKey :: "tenant_id \<Rightarrow> kind \<Rightarrow> bytes \<Rightarrow> ckey result" where
  "lookupKey t k handle =
     (if length handle < HandleHashLen then Err [CeremonyErr ErrHandleTooShort]
      else Ok \<lparr>ck_tenant = t, ck_kind = k, ck_handle = handle\<rparr>)"

definition ceremonies_live :: "ckey \<Rightarrow> instant \<Rightarrow> cstore \<Rightarrow> centry option" where
  "ceremonies_live k now s =
     (case map_of (cs_rows s) k of
        None \<Rightarrow> None
      | Some e \<Rightarrow> if \<not> entry_live now e then None else Some e)"

text \<open>The prologue the lookups share: the context, the key, the live entry.\<close>

definition with_live ::
  "context_err \<Rightarrow> instant \<Rightarrow> tenant_id \<Rightarrow> kind \<Rightarrow> bytes \<Rightarrow> (ckey \<Rightarrow> centry \<Rightarrow> 'a result \<times> cstore) \<Rightarrow> cstore \<Rightarrow>
   'a result \<times> cstore" where
  "with_live ctx clk t k h f s =
     with_ctx ctx s
       (case lookupKey t k h of
          Err e \<Rightarrow> (Err e, s)
        | Panic \<Rightarrow> (Panic, s)
        | Ok kk \<Rightarrow>
           (case ceremonies_live kk clk s of
              None \<Rightarrow> (Err [StoreErr ErrNotFound], s)
            | Some e \<Rightarrow> f kk e))"

definition ceremonies_Peek ::
  "context_err \<Rightarrow> instant \<Rightarrow> tenant_id \<Rightarrow> kind \<Rightarrow> bytes \<Rightarrow> cstore \<Rightarrow> ceremony_record result \<times> cstore" where
  "ceremonies_Peek ctx clk t k h s =
     with_live ctx clk t k h (\<lambda>kk e. (ceremony_Restore (ce_row e), s)) s"

definition ceremonies_Consume ::
  "context_err \<Rightarrow> instant \<Rightarrow> tenant_id \<Rightarrow> kind \<Rightarrow> bytes \<Rightarrow> cstore \<Rightarrow> ceremony_record result \<times> cstore" where
  "ceremonies_Consume ctx clk t k h s =
     with_live ctx clk t k h (\<lambda>kk e. (ceremony_Restore (ce_row e), ceremonies_remove kk s)) s"

text \<open>The write through the shared pointer.\<close>

definition charge :: "centry \<Rightarrow> centry" where
  "charge e = e\<lparr>ce_row := (ce_row e)\<lparr>cw_Attempts := cw_Attempts (ce_row e) + 1\<rparr>\<rparr>"

definition write_entry :: "ckey \<Rightarrow> centry \<Rightarrow> cstore \<Rightarrow> cstore" where
  "write_entry k e s =
     s\<lparr>cs_rows := AList.update k e (cs_rows s),
       cs_buckets := AList.update (bucket_of k) (AList.update k e (bucket (bucket_of k) s)) (cs_buckets s)\<rparr>"

definition ceremonies_RecordFailure ::
  "context_err \<Rightarrow> instant \<Rightarrow> tenant_id \<Rightarrow> kind \<Rightarrow> bytes \<Rightarrow> cstore \<Rightarrow> int result \<times> cstore" where
  "ceremonies_RecordFailure ctx clk t k h s =
     with_live ctx clk t k h (\<lambda>kk e.
       (let remaining = kind_MaxAttempts k - cw_Attempts (ce_row e) - 1 in
        if remaining \<le> 0 then (Ok 0, ceremonies_remove kk s)
        else (Ok remaining, write_entry kk (charge e) s))) s"

definition ceremonies_MarkConsumed ::
  "context_err \<Rightarrow> instant \<Rightarrow> tenant_id \<Rightarrow> kind \<Rightarrow> bytes \<Rightarrow> instant \<Rightarrow> cstore \<Rightarrow> bool result \<times> cstore" where
  "ceremonies_MarkConsumed ctx clk t k h until s =
     with_ctx ctx s
       (if \<not> kind_Valid k then (Err (invalid_record ''invalid kind''), s)
        else if \<not> kind_Stateless k then (Err [CeremonyErr ErrStoredKind], s)
        else case lookupKey t k h of
          Err e \<Rightarrow> (Err e, s)
        | Panic \<Rightarrow> (Panic, s)
        | Ok kk \<Rightarrow>
           (if (case map_of (cs_consumed s) kk of None \<Rightarrow> False | Some prev \<Rightarrow> prev > clk) then (Ok False, s)
            else (Ok True, s\<lparr>cs_consumed := AList.update kk (time_Truncate until Microsecond) (cs_consumed s)\<rparr>)))"

definition ceremonies_DeleteForScope ::
  "context_err \<Rightarrow> tenant_id \<Rightarrow> bytes \<Rightarrow> kind list \<Rightarrow> cstore \<Rightarrow> int result \<times> cstore" where
  "ceremonies_DeleteForScope ctx t scopeHash kinds s =
     with_ctx ctx s
       (if length scopeHash = 0 then (Ok 0, s)
        else
          (let gone = map fst (filter (\<lambda>(k, e). \<not> (ck_tenant k \<noteq> t \<or> cw_ScopeHash (ce_row e) \<noteq> scopeHash) \<and>
                                        \<not> (length kinds > 0 \<and> ck_kind k \<notin> set kinds)) (cs_rows s))
           in (Ok (int (length gone)), remove_all gone s)))"

section \<open>The store as one operation\<close>

datatype cere_op =
    CPut ceremony_record
  | CPeek tenant_id kind bytes
  | CConsume tenant_id kind bytes
  | CFail tenant_id kind bytes
  | CMark tenant_id kind bytes instant
  | CDelete tenant_id bytes "kind list"
  | CErase tenant_id
  | CReap

datatype cere_out = ONum int | ORecord ceremony_record | OBool bool | ODone

definition out :: "('a \<Rightarrow> cere_out) \<Rightarrow> 'a result \<times> 's \<Rightarrow> cere_out result \<times> 's" where
  "out f r = (result_bind (fst r) (\<lambda>x. Ok (f x)), snd r)"

fun cere_exec :: "cere_op \<Rightarrow> context_err \<Rightarrow> instant \<Rightarrow> cstore \<Rightarrow> cere_out result \<times> cstore" where
  "cere_exec (CPut r) ctx clk s = out ONum (ceremonies_Put ctx clk r s)"
| "cere_exec (CPeek t k h) ctx clk s = out ORecord (ceremonies_Peek ctx clk t k h s)"
| "cere_exec (CConsume t k h) ctx clk s = out ORecord (ceremonies_Consume ctx clk t k h s)"
| "cere_exec (CFail t k h) ctx clk s = out ONum (ceremonies_RecordFailure ctx clk t k h s)"
| "cere_exec (CMark t k h u) ctx clk s = out OBool (ceremonies_MarkConsumed ctx clk t k h u s)"
| "cere_exec (CDelete t h ks) ctx clk s = out ONum (ceremonies_DeleteForScope ctx t h ks s)"
| "cere_exec (CErase t) ctx clk s = out (\<lambda>_. ODone) (ceremonies_EraseTenant ctx t s)"
| "cere_exec CReap ctx clk s = out ONum (ceremonies_ReapExpired ctx clk s)"

inductive cere_reach :: "cstore \<Rightarrow> bool" where
  cere_reach_New: "cere_reach ceremonies_New"
| cere_reach_step: "cere_reach s \<Longrightarrow> cere_reach (snd (cere_exec oper ctx clk s))"

end
