(* ===== verification/Ceremony_Laws.thy ===== *)
theory Ceremony_Laws
  imports Ceremony_Store
begin

text \<open>
  The invariant of the in-process ceremony store: the bucket maps and the scope counters, which only make
  \<^verbatim>\<open>Put\<close> cheap, hold exactly what counting the rows would give, and every row agrees with its key and its kind.
\<close>

section \<open>Association lists\<close>

lemma delete_absent: "map_of m k = None \<Longrightarrow> AList.delete k m = m"
  by (induction m) (auto simp: AList.delete_eq split: if_splits)

lemma update_fresh: "map_of m k = None \<Longrightarrow> AList.update k v m = m @ [(k, v)]"
  by (induction m) (auto split: if_splits)

lemma filter_delete: "filter P (AList.delete k m) = AList.delete k (filter P m)"
  by (simp add: AList.delete_eq filter_filter conj_commute)

lemma count_delete:
  assumes "wf_map m" "map_of m k = Some v"
  shows "length (filter P m) = length (filter P (AList.delete k m)) + (if P (k, v) then 1 else 0)"
  using assms
proof (induction m)
  case Nil
  then show ?case by simp
next
  case (Cons kv m)
  show ?case
  proof (cases "fst kv = k")
    case True
    then have "map_of m k = None" using Cons.prems by (auto simp: map_of_eq_None_iff)
    then have "AList.delete k (kv # m) = m" using True by (cases kv) (simp add: delete_absent)
    moreover have "kv = (k, v)" using True Cons.prems by (cases kv) simp
    ultimately show ?thesis by simp
  next
    case False
    then have "AList.delete k (kv # m) = kv # AList.delete k m" by (cases kv) simp
    moreover have "map_of m k = Some v" using False Cons.prems by (cases kv) simp
    ultimately show ?thesis using Cons by simp
  qed
qed

lemma count_update:
  assumes "map_of m k = Some v" "P (k, v') = P (k, v)" "wf_map m"
  shows "length (filter P (AList.update k v' m)) = length (filter P m)"
  using assms by (induction m) (auto split: if_splits)

lemma map_update_same:
  assumes "map_of m k = Some v" "f v' = f v" "wf_map m"
  shows "map (\<lambda>kv. f (snd kv)) (AList.update k v' m) = map (\<lambda>kv. f (snd kv)) m"
  using assms by (induction m) (auto split: if_splits)

lemma wf_map_set: "wf_map m \<Longrightarrow> (k, v) \<in> set m \<longleftrightarrow> map_of m k = Some v"
  by (simp add: map_of_eq_Some_iff)

lemma wf_map_filter: "wf_map m \<Longrightarrow> wf_map (filter P m)"
  by (rule distinct_map_filter)

lemma map_of_filter_keys: "map_of (filter (\<lambda>(k, v). P k) m) k = (if P k then map_of m k else None)"
  by (induction m) auto

text \<open>Two maps with the same entries, sorted by a key that tells the entries apart, are the same list.\<close>

lemma sort_key_map:
  fixes f :: "'k \<times> 'v \<Rightarrow> 'o :: linorder"
  assumes "wf_map m" "wf_map m'" "map_of m = map_of m'" "inj_on f (set m)"
  shows "sort_key f m = sort_key f m'"
proof -
  have set: "set m = set m'"
    using assms(1-3) wf_map_set by (metis subset_antisym subrelI)
  then have "distinct (map f m)" "distinct (map f m')"
    using assms by (auto simp: distinct_map)
  then have "map f (sort_key f m) = map f (sort_key f m')"
    using set by (intro sorted_distinct_set_unique) (auto simp: distinct_map inj_on_def)
  then show ?thesis
    using assms(4) set by (auto intro: map_inj_on)
qed

section \<open>The invariant\<close>

definition entry_fits :: "ckey \<Rightarrow> centry \<Rightarrow> bool" where
  "entry_fits k e \<longleftrightarrow>
     cw_Tenant (ce_row e) = ck_tenant k \<and> cw_Kind (ce_row e) = ck_kind k \<and>
     cw_HandleHash (ce_row e) = ck_handle k \<and> kind_Valid (ck_kind k) \<and> \<not> kind_Stateless (ck_kind k) \<and>
     0 \<le> cw_Attempts (ce_row e) \<and> cw_Attempts (ce_row e) < kind_MaxAttempts (ck_kind k)"

definition rows_ok :: "(ckey, centry) gomap \<Rightarrow> nat \<Rightarrow> bool" where
  "rows_ok rows n \<longleftrightarrow>
     wf_map rows \<and> distinct (map (\<lambda>ke. ce_seq (snd ke)) rows) \<and>
     (\<forall>(k, e) \<in> set rows. entry_fits k e \<and> ce_seq e \<le> n)"

definition bucket_rows :: "bucket_key \<Rightarrow> (ckey, centry) gomap \<Rightarrow> (ckey, centry) gomap" where
  "bucket_rows bk rows = filter (\<lambda>(k, e). bucket_of k = bk) rows"

definition scope_rows :: "scope_key \<Rightarrow> (ckey, centry) gomap \<Rightarrow> (ckey, centry) gomap" where
  "scope_rows sk rows = filter (\<lambda>(k, e). scope_of k e = sk) rows"

definition buckets_ok :: "cstore \<Rightarrow> bool" where
  "buckets_ok s \<longleftrightarrow>
     (\<forall>bk. wf_map (bucket bk s) \<and> map_of (bucket bk s) = map_of (bucket_rows bk (cs_rows s)) \<and>
           map_of (cs_buckets s) bk \<noteq> Some [])"

definition scopes_ok :: "cstore \<Rightarrow> bool" where
  "scopes_ok s \<longleftrightarrow>
     (\<forall>sk. scope_count sk s = int (length (scope_rows sk (cs_rows s))) \<and>
           (\<forall>n. map_of (cs_scopes s) sk = Some n \<longrightarrow> 0 < n))"

definition cere_inv :: "cstore \<Rightarrow> bool" where
  "cere_inv s \<longleftrightarrow> rows_ok (cs_rows s) (cs_seq s) \<and> buckets_ok s \<and> scopes_ok s"

lemma cere_inv_New: "cere_inv ceremonies_New"
  by (simp add: cere_inv_def rows_ok_def buckets_ok_def scopes_ok_def ceremonies_New_def bucket_def
      bucket_rows_def scope_count_def scope_rows_def)

lemma map_of_bucket_rows: "map_of (bucket_rows bk rows) k = (if bucket_of k = bk then map_of rows k else None)"
  unfolding bucket_rows_def by (rule map_of_filter_keys)

lemma rows_ok_delete: "rows_ok rows n \<Longrightarrow> rows_ok (AList.delete k rows) n"
  by (auto simp: rows_ok_def AList.delete_eq intro: distinct_map_filter)

lemma rows_ok_entry: "rows_ok rows n \<Longrightarrow> map_of rows k = Some e \<Longrightarrow> entry_fits k e \<and> ce_seq e \<le> n"
  unfolding rows_ok_def by (blast dest: map_of_SomeD)

lemma rows_ok_wf: "rows_ok rows n \<Longrightarrow> wf_map rows"
  by (simp add: rows_ok_def)

lemma rows_ok_insert:
  assumes "rows_ok rows n" "map_of rows k = None" "entry_fits k e" "ce_seq e = Suc n"
  shows "rows_ok (AList.update k e rows) (Suc n)"
  using assms by (fastforce simp: rows_ok_def update_fresh map_of_eq_None_iff)

lemma rows_ok_rewrite:
  assumes "rows_ok rows n" "map_of rows k = Some e" "entry_fits k e'" "ce_seq e' = ce_seq e"
  shows "rows_ok (AList.update k e' rows) n"
proof -
  have wf: "wf_map rows" and old: "ce_seq e \<le> n" using assms rows_ok_wf rows_ok_entry by auto
  have "map (\<lambda>ke. ce_seq (snd ke)) (AList.update k e' rows) = map (\<lambda>ke. ce_seq (snd ke)) rows"
    using map_update_same [of rows k e ce_seq e'] assms wf by simp
  moreover have "entry_fits l x \<and> ce_seq x \<le> n" if "(l, x) \<in> set (AList.update k e' rows)" for l x
  proof -
    have "map_of (AList.update k e' rows) l = Some x"
      using that wf_map_set [OF wf_map_update [OF wf]] by blast
    then show ?thesis using assms old rows_ok_entry by (auto split: if_splits)
  qed
  ultimately show ?thesis using assms(1) wf by (auto simp: rows_ok_def)
qed

section \<open>The index writes keep it\<close>

lemma bucket_upd:
  "bucket bk (s\<lparr>cs_buckets := AList.update bk' b (cs_buckets s)\<rparr>) = (if bk = bk' then b else bucket bk s)"
  by (simp add: bucket_def)

lemma inv_insert:
  assumes inv: "cere_inv s" and new: "map_of (cs_rows s) k = None" and fits: "entry_fits k e"
    and seq: "ce_seq e = Suc (cs_seq s)"
  shows "cere_inv (ceremonies_insert k e (s\<lparr>cs_seq := Suc (cs_seq s)\<rparr>))"
proof -
  let ?s = "ceremonies_insert k e (s\<lparr>cs_seq := Suc (cs_seq s)\<rparr>)"
  have rows: "cs_rows ?s = AList.update k e (cs_rows s)" "cs_seq ?s = Suc (cs_seq s)"
    by (simp_all add: ceremonies_insert_def)
  have b: "bucket bk ?s = (if bk = bucket_of k then AList.update k e (bucket bk s) else bucket bk s)" for bk
    by (simp add: ceremonies_insert_def bucket_def)
  have c: "scope_count sk ?s = scope_count sk s + (if sk = scope_of k e then 1 else 0)" for sk
    by (simp add: ceremonies_insert_def scope_count_def)
  have "buckets_ok ?s"
    unfolding buckets_ok_def
  proof (intro allI conjI)
    fix bk
    have old: "wf_map (bucket bk s)" "map_of (bucket bk s) = map_of (bucket_rows bk (cs_rows s))"
      "map_of (cs_buckets s) bk \<noteq> Some []"
      using inv by (simp_all add: cere_inv_def buckets_ok_def)
    then show "wf_map (bucket bk ?s)" by (auto simp: b)
    show "map_of (bucket bk ?s) = map_of (bucket_rows bk (cs_rows ?s))"
      using old(2) by (auto simp: b rows fun_eq_iff map_of_bucket_rows)
    show "map_of (cs_buckets ?s) bk \<noteq> Some []"
      using old(3) by (simp add: ceremonies_insert_def)
  qed
  moreover have "scopes_ok ?s"
    unfolding scopes_ok_def
  proof (intro allI conjI impI)
    fix sk
    have old: "scope_count sk s = int (length (scope_rows sk (cs_rows s)))"
      using inv by (simp add: cere_inv_def scopes_ok_def)
    show "scope_count sk ?s = int (length (scope_rows sk (cs_rows ?s)))"
      using new by (simp add: c rows update_fresh scope_rows_def old [unfolded scope_rows_def])
    fix n assume "map_of (cs_scopes ?s) sk = Some n"
    moreover have "0 \<le> scope_count (scope_of k e) s" and "\<And>n. map_of (cs_scopes s) sk = Some n \<Longrightarrow> 0 < n"
      using inv by (simp_all add: cere_inv_def scopes_ok_def)
    ultimately show "0 < n" by (auto simp: ceremonies_insert_def scope_count_def split: if_splits)
  qed
  ultimately show ?thesis
    using inv rows_ok_insert [OF _ new fits seq] by (simp add: cere_inv_def rows)
qed

lemma rows_remove: "cs_rows (ceremonies_remove k s) = AList.delete k (cs_rows s)"
  by (simp add: ceremonies_remove_def Let_def delete_absent split: option.split)

lemma remove_rest [simp]:
  "cs_seq (ceremonies_remove k s) = cs_seq s"
  "cs_consumed (ceremonies_remove k s) = cs_consumed s"
  by (simp_all add: ceremonies_remove_def Let_def split: option.split)

lemma inv_remove:
  assumes inv: "cere_inv s"
  shows "cere_inv (ceremonies_remove k s)"
proof (cases "map_of (cs_rows s) k")
  case None
  then show ?thesis using inv by (simp add: ceremonies_remove_def)
next
  case (Some e)
  let ?s = "ceremonies_remove k s"
  have wf: "wf_map (cs_rows s)" using inv by (simp add: cere_inv_def rows_ok_def)
  have b: "bucket bk ?s = (if bk = bucket_of k then AList.delete k (bucket bk s) else bucket bk s)" for bk
    using Some by (simp add: ceremonies_remove_def bucket_def Let_def)
  have pos: "0 \<le> scope_count (scope_of k e) s - 1"
    using inv count_delete [OF wf Some, of "\<lambda>(l, x). scope_of l x = scope_of k e"]
    by (simp add: cere_inv_def scopes_ok_def scope_rows_def)
  then have c: "scope_count sk ?s = scope_count sk s - (if sk = scope_of k e then 1 else 0)" for sk
    using Some by (auto simp: ceremonies_remove_def Let_def scope_count_def)
  have "buckets_ok ?s"
    unfolding buckets_ok_def
  proof (intro allI conjI)
    fix bk
    have old: "wf_map (bucket bk s)" "map_of (bucket bk s) = map_of (bucket_rows bk (cs_rows s))"
      "map_of (cs_buckets s) bk \<noteq> Some []"
      using inv by (simp_all add: cere_inv_def buckets_ok_def)
    then show "wf_map (bucket bk ?s)" by (auto simp: b)
    show "map_of (bucket bk ?s) = map_of (bucket_rows bk (cs_rows ?s))"
      using old(2) by (auto simp: b rows_remove fun_eq_iff map_of_bucket_rows)
    show "map_of (cs_buckets ?s) bk \<noteq> Some []"
      using old(3) Some by (auto simp: ceremonies_remove_def Let_def)
  qed
  moreover have "scopes_ok ?s"
    unfolding scopes_ok_def
  proof (intro allI conjI impI)
    fix sk
    have old: "scope_count sk s = int (length (scope_rows sk (cs_rows s)))"
      "\<And>n. map_of (cs_scopes s) sk = Some n \<Longrightarrow> 0 < n"
      using inv by (simp_all add: cere_inv_def scopes_ok_def)
    show "scope_count sk ?s = int (length (scope_rows sk (cs_rows ?s)))"
      using count_delete [OF wf Some, of "\<lambda>(l, x). scope_of l x = sk"] old(1)
      by (auto simp: c rows_remove scope_rows_def)
    fix n assume "map_of (cs_scopes ?s) sk = Some n"
    then show "0 < n" using old(2) Some by (auto simp: ceremonies_remove_def Let_def split: if_splits)
  qed
  ultimately show ?thesis
    using inv rows_ok_delete by (simp add: cere_inv_def rows_remove)
qed

lemma inv_write:
  assumes inv: "cere_inv s" and old: "map_of (cs_rows s) k = Some e" and fits: "entry_fits k e'"
    and same: "ce_seq e' = ce_seq e" "cw_ScopeHash (ce_row e') = cw_ScopeHash (ce_row e)"
  shows "cere_inv (write_entry k e' s)"
proof -
  let ?s = "write_entry k e' s"
  have wf: "wf_map (cs_rows s)" using inv by (simp add: cere_inv_def rows_ok_def)
  have b: "bucket bk ?s = (if bk = bucket_of k then AList.update k e' (bucket bk s) else bucket bk s)" for bk
    by (simp add: write_entry_def bucket_def)
  have rows: "cs_rows ?s = AList.update k e' (cs_rows s)" "cs_seq ?s = cs_seq s" "cs_scopes ?s = cs_scopes s"
    by (simp_all add: write_entry_def)
  have len: "length (scope_rows sk (cs_rows ?s)) = length (scope_rows sk (cs_rows s))" for sk
    unfolding scope_rows_def rows
    by (rule count_update [OF old _ wf]) (simp add: scope_of_def same)
  have "buckets_ok ?s"
    unfolding buckets_ok_def
  proof (intro allI conjI)
    fix bk
    have was: "wf_map (bucket bk s)" "map_of (bucket bk s) = map_of (bucket_rows bk (cs_rows s))"
      "map_of (cs_buckets s) bk \<noteq> Some []"
      using inv by (simp_all add: cere_inv_def buckets_ok_def)
    then show "wf_map (bucket bk ?s)" by (auto simp: b)
    show "map_of (bucket bk ?s) = map_of (bucket_rows bk (cs_rows ?s))"
      using was(2) by (auto simp: b rows fun_eq_iff map_of_bucket_rows)
    show "map_of (cs_buckets ?s) bk \<noteq> Some []"
      using was(3) by (simp add: write_entry_def)
  qed
  moreover have "scopes_ok ?s"
    using inv len by (simp add: cere_inv_def scopes_ok_def rows scope_count_def)
  ultimately show ?thesis
    using inv rows_ok_rewrite [OF _ old fits same(1)] by (simp add: cere_inv_def rows)
qed

lemma cere_inv_consumed [simp]: "cere_inv (s\<lparr>cs_consumed := m\<rparr>) = cere_inv s"
  by (simp add: cere_inv_def buckets_ok_def scopes_ok_def bucket_def scope_count_def)

lemma remove_all_facts:
  "cere_inv s \<Longrightarrow>
     cere_inv (remove_all ks s) \<and> cs_rows (remove_all ks s) = foldl (\<lambda>m k. AList.delete k m) (cs_rows s) ks \<and>
     cs_seq (remove_all ks s) = cs_seq s \<and> cs_consumed (remove_all ks s) = cs_consumed s"
  unfolding remove_all_def
  by (induction ks arbitrary: s) (simp_all add: inv_remove rows_remove)

end
