(* ===== verification/Ceremony_Reference.thy ===== *)
theory Ceremony_Reference
  imports Ceremony_Laws
begin

text \<open>
  A reference ceremony store without indexes: rows and single-use marks only. Its \<^verbatim>\<open>Put\<close> is the contract of
  \<^verbatim>\<open>store/ceremony/store.go\<close> read literally, every count and every rank taken from the rows. The in-process store,
  with its buckets, its scope counters and the guards that skip an eviction, answers and evolves exactly as
  the reference does.
\<close>

record rstore =
  rs_seq :: nat
  rs_rows :: "(ckey, centry) gomap"
  rs_consumed :: "(ckey, instant) gomap"

definition forget_indexes :: "cstore \<Rightarrow> rstore" where
  "forget_indexes s = \<lparr>rs_seq = cs_seq s, rs_rows = cs_rows s, rs_consumed = cs_consumed s\<rparr>"

section \<open>The reference operations\<close>

text \<open>
  The live rows of a group other than \<open>keep\<close>, and the rows left when the group keeps its \<open>limit\<close> newest live
  rows, \<open>keep\<close> among them.
\<close>

definition rivals :: "(ckey \<Rightarrow> centry \<Rightarrow> bool) \<Rightarrow> ckey \<Rightarrow> instant \<Rightarrow> (ckey, centry) gomap \<Rightarrow> (ckey, centry) gomap" where
  "rivals G keep now rows = filter (\<lambda>(l, x). G l x \<and> l \<noteq> keep \<and> entry_live now x) rows"

definition newer_rivals ::
  "(ckey \<Rightarrow> centry \<Rightarrow> bool) \<Rightarrow> ckey \<Rightarrow> instant \<Rightarrow> (ckey, centry) gomap \<Rightarrow> ckey \<times> centry \<Rightarrow> int" where
  "newer_rivals G keep now rows lx =
     int (length (filter (\<lambda>ly. newest_first ly < newest_first lx) (rivals G keep now rows)))"

definition keep_newest ::
  "(ckey \<Rightarrow> centry \<Rightarrow> bool) \<Rightarrow> ckey \<Rightarrow> instant \<Rightarrow> int \<Rightarrow> (ckey, centry) gomap \<Rightarrow> (ckey, centry) gomap" where
  "keep_newest G keep now limit rows =
     filter (\<lambda>lx. lx \<in> set (rivals G keep now rows) \<longrightarrow> newer_rivals G keep now rows lx < limit - 1) rows"

definition ref_remove :: "ckey list \<Rightarrow> rstore \<Rightarrow> rstore" where
  "ref_remove ks a = a\<lparr>rs_rows := del_where (\<lambda>k _. k \<in> set ks) (rs_rows a)\<rparr>"

definition ref_Put :: "context_err \<Rightarrow> instant \<Rightarrow> ceremony_record \<Rightarrow> rstore \<Rightarrow> int result \<times> rstore" where
  "ref_Put ctx clk r a =
     with_ctx ctx a
       (case ceremony_Validate r of
          Err e \<Rightarrow> (Err e, a)
        | Panic \<Rightarrow> (Panic, a)
        | Ok _ \<Rightarrow>
           (let k = record_key_of r in
            if (case map_of (rs_rows a) k of None \<Rightarrow> False | Some old \<Rightarrow> entry_live clk old)
            then (Err [StoreErr ErrConflict], a)
            else
              (let rows = AList.delete k (rs_rows a) @ [(k, \<lparr>ce_row = stored_row r, ce_seq = rs_seq a + 1\<rparr>)];
                   in_bucket = (\<lambda>l x. bucket_of l = bucket_of k);
                   in_scope = (\<lambda>l x. bucket_of l = bucket_of k \<and> cw_ScopeHash (ce_row x) = cr_scopeHash r);
                   rows1 = keep_newest in_scope k clk (kind_MaxLivePerScope (cr_kind r)) rows;
                   rows2 = (if kind_MaxLivePerTenant (cr_kind r) > 0
                            then keep_newest in_bucket k clk (kind_MaxLivePerTenant (cr_kind r)) rows1 else rows1)
               in (Ok (int (length rows) - int (length rows2)), a\<lparr>rs_seq := rs_seq a + 1, rs_rows := rows2\<rparr>))))"

definition ref_live ::
  "context_err \<Rightarrow> instant \<Rightarrow> tenant_id \<Rightarrow> kind \<Rightarrow> bytes \<Rightarrow> (ckey \<Rightarrow> centry \<Rightarrow> 'a result \<times> rstore) \<Rightarrow> rstore \<Rightarrow>
   'a result \<times> rstore" where
  "ref_live ctx clk t k h f a =
     with_ctx ctx a
       (if length h < HandleHashLen then (Err [CeremonyErr ErrHandleTooShort], a)
        else case map_of (rs_rows a) \<lparr>ck_tenant = t, ck_kind = k, ck_handle = h\<rparr> of
          None \<Rightarrow> (Err [StoreErr ErrNotFound], a)
        | Some e \<Rightarrow> if entry_live clk e then f \<lparr>ck_tenant = t, ck_kind = k, ck_handle = h\<rparr> e
                     else (Err [StoreErr ErrNotFound], a))"

fun ref_exec :: "cere_op \<Rightarrow> context_err \<Rightarrow> instant \<Rightarrow> rstore \<Rightarrow> cere_out result \<times> rstore" where
  "ref_exec (CPut r) ctx clk a = out ONum (ref_Put ctx clk r a)"
| "ref_exec (CPeek t k h) ctx clk a = out ORecord (ref_live ctx clk t k h (\<lambda>kk e. (ceremony_Restore (ce_row e), a)) a)"
| "ref_exec (CConsume t k h) ctx clk a =
     out ORecord (ref_live ctx clk t k h (\<lambda>kk e. (ceremony_Restore (ce_row e), ref_remove [kk] a)) a)"
| "ref_exec (CFail t k h) ctx clk a =
     out ONum (ref_live ctx clk t k h (\<lambda>kk e.
       if kind_MaxAttempts k \<le> cw_Attempts (ce_row e) + 1 then (Ok 0, ref_remove [kk] a)
       else (Ok (kind_MaxAttempts k - cw_Attempts (ce_row e) - 1),
             a\<lparr>rs_rows := AList.update kk (charge e) (rs_rows a)\<rparr>)) a)"
| "ref_exec (CMark t k h u) ctx clk a =
     out OBool (with_ctx ctx a
       (if \<not> kind_Valid k then (Err (invalid_record ''invalid kind''), a)
        else if \<not> kind_Stateless k then (Err [CeremonyErr ErrStoredKind], a)
        else if length h < HandleHashLen then (Err [CeremonyErr ErrHandleTooShort], a)
        else let kk = \<lparr>ck_tenant = t, ck_kind = k, ck_handle = h\<rparr> in
          if (\<exists>prev \<in> set_option (map_of (rs_consumed a) kk). clk < prev) then (Ok False, a)
          else (Ok True, a\<lparr>rs_consumed := AList.update kk (time_Truncate u Microsecond) (rs_consumed a)\<rparr>)))"
| "ref_exec (CDelete t h ks) ctx clk a =
     out ONum (with_ctx ctx a
       (let gone = filter (\<lambda>(k, e). h \<noteq> [] \<and> ck_tenant k = t \<and> cw_ScopeHash (ce_row e) = h \<and>
                                    (ks = [] \<or> ck_kind k \<in> set ks)) (rs_rows a)
        in (Ok (int (length gone)), ref_remove (keys_of gone) a)))"
| "ref_exec (CErase t) ctx clk a =
     out (\<lambda>_. ODone) (with_ctx ctx a
       (Ok (), a\<lparr>rs_rows := del_where (\<lambda>k _. ck_tenant k = t) (rs_rows a),
                 rs_consumed := del_where (\<lambda>k _. ck_tenant k = t) (rs_consumed a)\<rparr>))"
| "ref_exec CReap ctx clk a =
     out ONum (with_ctx ctx a
       (let rows = del_where (\<lambda>_ e. \<not> entry_live clk e) (rs_rows a);
            marks = del_where (\<lambda>_ until. until \<le> clk) (rs_consumed a)
        in (Ok (int (length (rs_rows a)) - int (length rows) + (int (length (rs_consumed a)) - int (length marks))),
            a\<lparr>rs_rows := rows, rs_consumed := marks\<rparr>)))"

section \<open>Ranks in a sorted list\<close>

lemma drop_by_rank:
  fixes f :: "'a \<Rightarrow> 'o :: linorder"
  assumes "sorted_wrt (\<lambda>x y. f x < f y) zs"
  shows "x \<in> set (drop n zs) \<longleftrightarrow> x \<in> set zs \<and> n \<le> length (filter (\<lambda>y. f y < f x) zs)"
  using assms
proof (induction zs arbitrary: n)
  case Nil
  then show ?case by simp
next
  case (Cons z zs)
  show ?case
  proof (cases n)
    case 0
    then show ?thesis by simp
  next
    case (Suc m)
    have below: "\<And>y. y \<in> set zs \<Longrightarrow> f z < f y" and sorted: "sorted_wrt (\<lambda>x y. f x < f y) zs"
      using Cons.prems by auto
    have "filter (\<lambda>y. f y < f z) (z # zs) = []"
      using below by (auto simp: filter_empty_conv dest: less_asym)
    then have z: "length (filter (\<lambda>y. f y < f z) (z # zs)) = 0" by simp
    have "x \<in> set (drop m zs) \<longleftrightarrow> x \<in> set zs \<and> m \<le> length (filter (\<lambda>y. f y < f x) zs)"
      using Cons.IH [OF sorted] .
    moreover have "x \<in> set zs \<Longrightarrow> length (filter (\<lambda>y. f y < f x) (z # zs)) = Suc (length (filter (\<lambda>y. f y < f x) zs))"
      using below by simp
    moreover have "z \<notin> set zs" using below by auto
    ultimately show ?thesis using Suc z by auto
  qed
qed

lemma sorted_key_strict:
  fixes f :: "'a \<Rightarrow> 'o :: linorder"
  assumes "distinct (map f xs)"
  shows "sorted_wrt (\<lambda>x y. f x < f y) (sort_key f xs)"
proof -
  have "distinct (map f (sort_key f xs))" using assms by (simp add: distinct_map)
  moreover have "sorted (map f (sort_key f xs))" by simp
  ultimately have "sorted_wrt (<) (map f (sort_key f xs))" by (simp add: strict_sorted_iff)
  then show ?thesis by (simp add: sorted_wrt_map)
qed

lemma drop_sort_by_rank:
  fixes f :: "'a \<Rightarrow> 'o :: linorder"
  assumes "distinct (map f xs)"
  shows "x \<in> set (drop n (sort_key f xs)) \<longleftrightarrow> x \<in> set xs \<and> n \<le> length (filter (\<lambda>y. f y < f x) xs)"
  using drop_by_rank [OF sorted_key_strict [OF assms], of x n]
  by (simp add: filter_sort)

section \<open>Evictions are the reference's\<close>

lemma newest_first_inj: "rows_ok rows n \<Longrightarrow> inj_on newest_first (set rows)"
proof (rule inj_onI)
  fix x y assume ok: "rows_ok rows n" and mem: "x \<in> set rows" "y \<in> set rows" and eq: "newest_first x = newest_first y"
  then have "ce_seq (snd x) = ce_seq (snd y)" by (simp add: newest_first_def)
  then show "x = y" using ok mem by (auto simp: rows_ok_def distinct_map dest!: inj_onD)
qed

lemma del_all: "foldl (\<lambda>m k. AList.delete k m) m ks = del_where (\<lambda>k _. k \<in> set ks) m"
proof (induction ks arbitrary: m)
  case Nil
  show ?case by (simp add: del_where_def)
next
  case (Cons k ks)
  have "del_where (\<lambda>l _. l \<in> set ks) (AList.delete k m) = del_where (\<lambda>l _. l \<in> set (k # ks)) m"
    unfolding del_where_def AList.delete_eq filter_filter by (rule filter_cong) auto
  then show ?case using Cons by simp
qed

lemma length_del_where:
  assumes "wf_map m" "distinct ks" "set ks \<subseteq> set (keys_of m)"
  shows "length ks + length (del_where (\<lambda>k _. k \<in> set ks) m) = length m"
proof -
  let ?in = "filter (\<lambda>(k, _). k \<in> set ks) m"
  have "distinct (keys_of ?in)" using assms(1) by (rule wf_map_filter)
  moreover have "set (keys_of ?in) = set ks" using assms(3) by force
  ultimately have "length ks = length ?in"
    using assms(2) by (metis distinct_card length_map)
  then show ?thesis
    unfolding del_where_def by (simp add: sum_length_filter_compl [of "\<lambda>(k, _). k \<in> set ks" m, symmetric] case_prod_unfold)
qed

lemma rivals_distinct: "rows_ok rows n \<Longrightarrow> distinct (map newest_first (rivals G keep now rows))"
  using newest_first_inj [of rows n]
  by (auto simp: rivals_def rows_ok_def distinct_map inj_on_def dest: distinct_filter)

text \<open>What one eviction removes: the group's live rows other than \<open>keep\<close> with at least \<open>limit - 1\<close> newer ones.\<close>

lemma evict_eq:
  assumes inv: "cere_inv s" and limit: "0 < limit"
    and G: "\<And>l x. G l x \<longleftrightarrow> bucket_of l = bucket_of keep \<and> same x"
  shows "del_where (\<lambda>l _. l \<in> set (evict_victims keep now same limit (bucket (bucket_of keep) s))) (cs_rows s)
         = keep_newest G keep now limit (cs_rows s)"
    and "int (length (evict_victims keep now same limit (bucket (bucket_of keep) s)))
         = int (length (cs_rows s)) - int (length (keep_newest G keep now limit (cs_rows s)))"
proof -
  let ?b = "bucket (bucket_of keep) s" and ?rows = "cs_rows s"
  let ?P = "\<lambda>(k, e). \<not> (k = keep \<or> \<not> entry_live now e \<or> \<not> same e)"
  let ?rv = "rivals G keep now ?rows" and ?v = "evict_victims keep now same limit ?b"
  have ok: "rows_ok ?rows (cs_seq s)" and wf: "wf_map ?rows" and wfb: "wf_map ?b"
    and eq: "map_of ?b = map_of (bucket_rows (bucket_of keep) ?rows)"
    using inv by (simp_all add: cere_inv_def buckets_ok_def rows_ok_def)
  have wfr: "wf_map (bucket_rows (bucket_of keep) ?rows)"
    unfolding bucket_rows_def by (rule wf_map_filter [OF wf])
  have sets: "set ?b = set (bucket_rows (bucket_of keep) ?rows)"
    using map_of_inject_set [OF wfb wfr] eq by simp
  have rv: "filter ?P (bucket_rows (bucket_of keep) ?rows) = ?rv"
    unfolding bucket_rows_def rivals_def filter_filter by (rule filter_cong) (auto simp: G)
  have rvset: "set (filter ?P ?b) = set ?rv" unfolding rv [symmetric] set_filter sets ..
  have wfo: "wf_map (filter ?P ?b)" "wf_map ?rv"
    unfolding rivals_def by (rule wf_map_filter [OF wfb], rule wf_map_filter [OF wf])
  have maps: "map_of (filter ?P ?b) = map_of ?rv"
    using map_of_inject_set [OF wfo] rvset by simp
  have "set ?rv \<subseteq> set ?rows" by (auto simp: rivals_def)
  then have inj: "inj_on newest_first (set ?rv)" using newest_first_inj [OF ok] by (rule inj_on_subset [rotated])
  have sort: "sort_key newest_first (filter ?P ?b) = sort_key newest_first ?rv"
    by (rule sort_key_map [OF wfo maps]) (use rvset inj in presburger)
  have len: "length (filter ?P ?b) = length ?rv"
    using arg_cong [OF sort, of length] unfolding length_sort .
  have v: "?v = map fst (drop (nat (limit - 1)) (sort_key newest_first ?rv))"
    using limit unfolding evict_victims_def Let_def sort len by auto
  have mem: "(l, x) \<in> set ?rows \<Longrightarrow> l \<in> set ?v \<longleftrightarrow>
      (l, x) \<in> set ?rv \<and> nat (limit - 1) \<le> length (filter (\<lambda>y. newest_first y < newest_first (l, x)) ?rv)" for l x
  proof -
    assume lx: "(l, x) \<in> set ?rows"
    have "l \<in> set ?v \<longleftrightarrow> (\<exists>y. (l, y) \<in> set (drop (nat (limit - 1)) (sort_key newest_first ?rv)))"
      unfolding v by force
    also have "\<dots> \<longleftrightarrow> (\<exists>y. (l, y) \<in> set ?rv \<and>
        nat (limit - 1) \<le> length (filter (\<lambda>z. newest_first z < newest_first (l, y)) ?rv))"
      unfolding drop_sort_by_rank [OF rivals_distinct [OF ok]] ..
    also have "\<dots> \<longleftrightarrow> (l, x) \<in> set ?rv \<and>
        nat (limit - 1) \<le> length (filter (\<lambda>z. newest_first z < newest_first (l, x)) ?rv)"
    proof -
      have "y = x" if "(l, y) \<in> set ?rv" for y
        using that lx \<open>set ?rv \<subseteq> set ?rows\<close> wf by (auto dest: eq_key_imp_eq_value)
      then show ?thesis by blast
    qed
    finally show ?thesis .
  qed
  show rows: "del_where (\<lambda>l _. l \<in> set ?v) ?rows = keep_newest G keep now limit ?rows"
    unfolding del_where_def keep_newest_def newer_rivals_def
    by (rule filter_cong) (use mem limit in \<open>auto simp: nat_le_iff\<close>)
  have "distinct (map fst (sort_key newest_first ?rv))"
    using wfo(2) by (simp add: distinct_map)
  then have "distinct ?v" unfolding v drop_map [symmetric] by (rule distinct_drop)
  moreover have "set ?v \<subseteq> set (keys_of ?rows)"
    unfolding v using \<open>set ?rv \<subseteq> set ?rows\<close> set_drop_subset [of _ "sort_key newest_first ?rv"] by fastforce
  ultimately show "int (length ?v) = int (length ?rows) - int (length (keep_newest G keep now limit ?rows))"
    using length_del_where [OF wf] rows by fastforce
qed

text \<open>A group no larger than its limit loses nothing, so skipping the eviction changes nothing.\<close>

lemma keep_newest_small:
  assumes "int (length (rivals G keep now rows)) < limit"
  shows "keep_newest G keep now limit rows = rows"
  unfolding keep_newest_def
proof (rule filter_True, intro ballI impI)
  fix lx assume "lx \<in> set (rivals G keep now rows)"
  then have "length (filter (\<lambda>ly. newest_first ly < newest_first lx) (rivals G keep now rows)) <
             length (rivals G keep now rows)"
    by (intro length_filter_less [of lx]) simp_all
  then show "newer_rivals G keep now rows lx < limit - 1"
    using assms by (simp add: newer_rivals_def)
qed

lemma rivals_fewer:
  assumes "(keep, e) \<in> set rows" "G keep e"
  shows "length (rivals G keep now rows) < length (filter (\<lambda>(l, x). G l x) rows)"
proof -
  have "rivals G keep now rows = filter (\<lambda>(l, x). l \<noteq> keep \<and> entry_live now x) (filter (\<lambda>(l, x). G l x) rows)"
    unfolding rivals_def filter_filter by (rule filter_cong) auto
  then have "length (rivals G keep now rows) =
      length (filter (\<lambda>(l, x). l \<noteq> keep \<and> entry_live now x) (filter (\<lambda>(l, x). G l x) rows))"
    by (rule arg_cong)
  also have "\<dots> < length (filter (\<lambda>(l, x). G l x) rows)"
    by (rule length_filter_less [of "(keep, e)"]) (use assms in auto)
  finally show ?thesis .
qed

section \<open>The store runs as the reference\<close>

definition agrees :: "'a result \<times> cstore \<Rightarrow> 'a result \<times> rstore \<Rightarrow> bool" where
  "agrees r r' \<longleftrightarrow> fst r = fst r' \<and> forget_indexes (snd r) = snd r' \<and> cere_inv (snd r)"

lemma agrees_ctx:
  "cere_inv s \<Longrightarrow> agrees r r' \<Longrightarrow> agrees (with_ctx ctx s r) (with_ctx ctx (forget_indexes s) r')"
  by (cases ctx) (simp_all add: agrees_def)

lemma agrees_out: "agrees r r' \<Longrightarrow> agrees (out f r) (out f r')"
  by (simp add: agrees_def out_def)

lemma agrees_stay: "cere_inv s \<Longrightarrow> agrees (x, s) (x, forget_indexes s)"
  by (simp add: agrees_def)

lemma forget_simps [simp]:
  "rs_seq (forget_indexes s) = cs_seq s"
  "rs_rows (forget_indexes s) = cs_rows s"
  "rs_consumed (forget_indexes s) = cs_consumed s"
  by (simp_all add: forget_indexes_def)

lemma remove_all_agrees:
  "cere_inv s \<Longrightarrow> cere_inv (remove_all ks s) \<and> forget_indexes (remove_all ks s) = ref_remove ks (forget_indexes s)"
  using remove_all_facts [of s ks] by (simp add: forget_indexes_def ref_remove_def del_all)

lemma remove_agrees:
  "cere_inv s \<Longrightarrow> cere_inv (ceremonies_remove k s) \<and> forget_indexes (ceremonies_remove k s) = ref_remove [k] (forget_indexes s)"
  using remove_all_agrees [of s "[k]"] by (simp add: remove_all_def)

lemma evict_runs:
  assumes inv: "cere_inv s" and limit: "0 < limit"
    and G: "\<And>l x. G l x \<longleftrightarrow> bucket_of l = bucket_of keep \<and> same x"
  obtains n s' where "ceremonies_evict keep now same limit s = (n, s')" "cere_inv s'"
    "cs_rows s' = keep_newest G keep now limit (cs_rows s)" "cs_seq s' = cs_seq s" "cs_consumed s' = cs_consumed s"
    "n = int (length (cs_rows s)) - int (length (cs_rows s'))"
proof -
  let ?v = "evict_victims keep now same limit (bucket (bucket_of keep) s)"
  have facts: "cere_inv (remove_all ?v s)" "cs_rows (remove_all ?v s) = keep_newest G keep now limit (cs_rows s)"
    "cs_seq (remove_all ?v s) = cs_seq s" "cs_consumed (remove_all ?v s) = cs_consumed s"
    using remove_all_facts [OF inv, of ?v] evict_eq(1) [OF inv limit G] by (simp_all add: del_all)
  have len: "int (length ?v) = int (length (cs_rows s)) - int (length (cs_rows (remove_all ?v s)))"
    using evict_eq(2) [OF inv limit G] facts(2) by simp
  have "ceremonies_evict keep now same limit s = (int (length ?v), remove_all ?v s)"
    using limit by (simp add: ceremonies_evict_def Let_def)
  then show thesis using that facts len by blast
qed

text \<open>An eviction behind a guard that holds whenever there is something to evict is an eviction.\<close>

lemma guarded_evict_runs:
  assumes inv: "cere_inv s" and limit: "0 < limit"
    and G: "\<And>l x. G l x \<longleftrightarrow> bucket_of l = bucket_of keep \<and> same x"
    and guard: "\<not> g \<Longrightarrow> int (length (rivals G keep now (cs_rows s))) < limit"
  obtains n s' where "(if g then ceremonies_evict keep now same limit s else (0, s)) = (n, s')" "cere_inv s'"
    "cs_rows s' = keep_newest G keep now limit (cs_rows s)" "cs_seq s' = cs_seq s" "cs_consumed s' = cs_consumed s"
    "n = int (length (cs_rows s)) - int (length (cs_rows s'))"
proof (cases g)
  case True
  obtain n s' where "ceremonies_evict keep now same limit s = (n, s')" "cere_inv s'"
    "cs_rows s' = keep_newest G keep now limit (cs_rows s)" "cs_seq s' = cs_seq s" "cs_consumed s' = cs_consumed s"
    "n = int (length (cs_rows s)) - int (length (cs_rows s'))"
    using evict_runs [OF inv limit G, of now] .
  then show ?thesis using that [of n s'] True by simp
next
  case False
  then show ?thesis using keep_newest_small [OF guard] inv that [of 0 s] by simp
qed

end
