(* ===== verification/Ceremony_Properties.thy ===== *)
theory Ceremony_Properties
  imports Ceremony_Reference
begin

text \<open>
  What the in-process ceremony store guarantees: it behaves as the index-free reference store, and a handle is
  used once and guessed at a bounded number of times.
\<close>

section \<open>Every operation agrees with the reference\<close>

lemma stored_entry_fits:
  assumes "ceremony_Validate r = Ok ()"
  shows "entry_fits (record_key_of r) \<lparr>ce_row = stored_row r, ce_seq = n\<rparr>"
  using assms
  by (auto simp: ceremony_Validate_def ceremony_checkRow_Ok entry_fits_def record_key_of_def stored_row_def
      record_row_def split: if_splits)

lemma validated_bounds:
  assumes "ceremony_Validate r = Ok ()"
  shows "0 < kind_MaxLivePerScope (cr_kind r)" "kind_Valid (cr_kind r)" "\<not> kind_Stateless (cr_kind r)"
proof -
  show v: "kind_Valid (cr_kind r)" "\<not> kind_Stateless (cr_kind r)"
    using assms by (auto simp: ceremony_Validate_def ceremony_checkRow_Ok record_row_def split: if_splits)
  show "0 < kind_MaxLivePerScope (cr_kind r)" using kind_bounds [OF v(1)] v(2) by simp
qed

text \<open>The store after the insertion of \<^verbatim>\<open>Put\<close>, before any eviction.\<close>

definition inserted :: "ceremony_record \<Rightarrow> cstore \<Rightarrow> cstore" where
  "inserted r s =
     (let s1 = ceremonies_remove (record_key_of r) s in
      ceremonies_insert (record_key_of r) \<lparr>ce_row = stored_row r, ce_seq = cs_seq s1 + 1\<rparr>
        (s1\<lparr>cs_seq := cs_seq s1 + 1\<rparr>))"

lemma inserted_facts:
  assumes inv: "cere_inv s" and valid: "ceremony_Validate r = Ok ()"
  shows "cere_inv (inserted r s)" "cs_seq (inserted r s) = cs_seq s + 1"
    "cs_consumed (inserted r s) = cs_consumed s"
    "cs_rows (inserted r s) = AList.delete (record_key_of r) (cs_rows s) @
       [(record_key_of r, \<lparr>ce_row = stored_row r, ce_seq = cs_seq s + 1\<rparr>)]"
proof -
  let ?k = "record_key_of r" and ?s1 = "ceremonies_remove (record_key_of r) s"
  have none: "map_of (cs_rows ?s1) ?k = None" by (simp add: rows_remove)
  show "cere_inv (inserted r s)"
    using inv_insert [OF inv_remove [OF inv] none stored_entry_fits [OF valid]]
    by (simp add: inserted_def Let_def)
  show "cs_seq (inserted r s) = cs_seq s + 1" "cs_consumed (inserted r s) = cs_consumed s"
    by (simp_all add: inserted_def Let_def ceremonies_insert_def)
  show "cs_rows (inserted r s) = AList.delete ?k (cs_rows s) @
       [(?k, \<lparr>ce_row = stored_row r, ce_seq = cs_seq s + 1\<rparr>)]"
    using none by (simp add: inserted_def Let_def ceremonies_insert_def rows_remove update_fresh)
qed

lemma Put_unfold:
  assumes "ceremony_Validate r = Ok ()"
    "\<not> (case map_of (cs_rows s) (record_key_of r) of None \<Rightarrow> False | Some old \<Rightarrow> entry_live clk old)"
  shows "ceremonies_Put None clk r s =
    (let (n1, s3) =
       (if scope_count \<lparr>sk_bucket = bucket_of (record_key_of r), sk_scope = cr_scopeHash r\<rparr> (inserted r s)
           > kind_MaxLivePerScope (cr_kind r)
        then ceremonies_evict (record_key_of r) clk (\<lambda>e. cw_ScopeHash (ce_row e) = cr_scopeHash r)
               (kind_MaxLivePerScope (cr_kind r)) (inserted r s)
        else (0, inserted r s))
     in let (n2, s4) =
       (if kind_MaxLivePerTenant (cr_kind r) > 0 \<and>
           int (length (bucket (bucket_of (record_key_of r)) s3)) > kind_MaxLivePerTenant (cr_kind r)
        then ceremonies_evict (record_key_of r) clk (\<lambda>_. True) (kind_MaxLivePerTenant (cr_kind r)) s3
        else (0, s3))
     in (Ok (n1 + n2), s4))"
  using assms by (simp add: ceremonies_Put_def Let_def inserted_def)

lemma bucket_length:
  assumes "cere_inv s"
  shows "length (bucket bk s) = length (bucket_rows bk (cs_rows s))"
proof -
  have wf: "wf_map (bucket bk s)" "wf_map (bucket_rows bk (cs_rows s))"
    and eq: "map_of (bucket bk s) = map_of (bucket_rows bk (cs_rows s))"
    using assms by (auto simp: cere_inv_def buckets_ok_def rows_ok_def bucket_rows_def intro: wf_map_filter)
  then have "set (keys_of (bucket bk s)) = set (keys_of (bucket_rows bk (cs_rows s)))"
    by (metis dom_map_of_conv_image_fst list.set_map)
  then show ?thesis using wf by (metis distinct_card length_map)
qed

lemma Put_agrees:
  assumes inv: "cere_inv s"
  shows "agrees (ceremonies_Put ctx clk r s) (ref_Put ctx clk r (forget_indexes s))"
proof -
  let ?k = "record_key_of r" and ?s2 = "inserted r s"
  let ?sk = "\<lparr>sk_bucket = bucket_of ?k, sk_scope = cr_scopeHash r\<rparr>"
  let ?cap = "kind_MaxLivePerScope (cr_kind r)" and ?ceil = "kind_MaxLivePerTenant (cr_kind r)"
  let ?B = "\<lambda>l (x :: centry). bucket_of l = bucket_of ?k"
  let ?S = "\<lambda>l x. bucket_of l = bucket_of ?k \<and> cw_ScopeHash (ce_row x) = cr_scopeHash r"
  let ?taken = "case map_of (cs_rows s) ?k of None \<Rightarrow> False | Some old \<Rightarrow> entry_live clk old"
  show ?thesis
  proof (cases "ceremony_Validate r = Ok () \<and> \<not> ?taken")
    case False
    then show ?thesis
      unfolding ceremonies_Put_def ref_Put_def
      by (intro agrees_ctx inv)
        (auto simp: Let_def agrees_def inv split: result.splits option.splits if_splits)
  next
    case True
    then have valid: "ceremony_Validate r = Ok ()" and free: "\<not> ?taken" by simp_all
    note new = inserted_facts [OF inv valid] and bounds = validated_bounds [OF valid]
    have here: "(?k, \<lparr>ce_row = stored_row r, ce_seq = cs_seq s + 1\<rparr>) \<in> set (cs_rows ?s2)"
      by (simp add: new)
    have hash: "cw_ScopeHash (stored_row r) = cr_scopeHash r" by (simp add: stored_row_def record_row_def)
    have scoped: "filter (\<lambda>(l, x). ?S l x) (cs_rows ?s2) = scope_rows ?sk (cs_rows ?s2)"
      unfolding scope_rows_def by (rule filter_cong) (auto simp: scope_of_def)
    have count: "scope_count ?sk ?s2 = int (length (scope_rows ?sk (cs_rows ?s2)))"
      using new(1) by (simp add: cere_inv_def scopes_ok_def)
    have fewer: "length (rivals ?S ?k clk (cs_rows ?s2)) < length (scope_rows ?sk (cs_rows ?s2))"
      using rivals_fewer [of ?k _ "cs_rows ?s2" ?S, OF here] hash scoped by simp
    obtain n1 s3 where s3: "(if scope_count ?sk ?s2 > ?cap
        then ceremonies_evict ?k clk (\<lambda>e. cw_ScopeHash (ce_row e) = cr_scopeHash r) ?cap ?s2 else (0, ?s2)) = (n1, s3)"
      and inv3: "cere_inv s3" and rows3: "cs_rows s3 = keep_newest ?S ?k clk ?cap (cs_rows ?s2)"
      and rest3: "cs_seq s3 = cs_seq ?s2" "cs_consumed s3 = cs_consumed ?s2"
      and n1: "n1 = int (length (cs_rows ?s2)) - int (length (cs_rows s3))"
      using guarded_evict_runs [of ?s2 ?cap ?S ?k "\<lambda>e. cw_ScopeHash (ce_row e) = cr_scopeHash r"
          "scope_count ?sk ?s2 > ?cap" clk] new(1) bounds(1) fewer count by auto
    have kept: "(?k, \<lparr>ce_row = stored_row r, ce_seq = cs_seq s + 1\<rparr>) \<in> set (cs_rows s3)"
      using here by (simp add: rows3 keep_newest_def rivals_def)
    have bucket3: "length (filter (\<lambda>(l, x). ?B l x) (cs_rows s3)) = length (bucket (bucket_of ?k) s3)"
      using bucket_length [OF inv3] by (simp add: bucket_rows_def)
    have fewer3: "length (rivals ?B ?k clk (cs_rows s3)) < length (bucket (bucket_of ?k) s3)"
      using rivals_fewer [of ?k _ "cs_rows s3" ?B, OF kept] bucket3 by simp
    obtain n2 s4 where s4: "(if ?ceil > 0 \<and> int (length (bucket (bucket_of ?k) s3)) > ?ceil
        then ceremonies_evict ?k clk (\<lambda>_. True) ?ceil s3 else (0, s3)) = (n2, s4)"
      and inv4: "cere_inv s4"
      and rows4: "cs_rows s4 = (if ?ceil > 0 then keep_newest ?B ?k clk ?ceil (cs_rows s3) else cs_rows s3)"
      and rest4: "cs_seq s4 = cs_seq s3" "cs_consumed s4 = cs_consumed s3"
      and n2: "n2 = int (length (cs_rows s3)) - int (length (cs_rows s4))"
    proof (cases "?ceil > 0")
      case True
      show thesis
        using guarded_evict_runs [of s3 ?ceil ?B ?k "\<lambda>_. True" "int (length (bucket (bucket_of ?k) s3)) > ?ceil" clk]
          inv3 True fewer3 that by auto
    next
      case False
      then show thesis using that [of 0 s3] inv3 by simp
    qed
    have "ceremonies_Put None clk r s = (Ok (n1 + n2), s4)"
      unfolding Put_unfold [OF valid free] s3 Let_def prod.case s4 ..
    moreover have "ref_Put None clk r (forget_indexes s) =
        (Ok (int (length (cs_rows ?s2)) - int (length (cs_rows s4))), forget_indexes s4)"
      using valid free by (simp add: ref_Put_def Let_def new(2-4) rows3 rows4 forget_indexes_def rest3 rest4)
    ultimately have "agrees (ceremonies_Put None clk r s) (ref_Put None clk r (forget_indexes s))"
      using inv4 n1 n2 by (simp add: agrees_def)
    then show ?thesis
      using inv by (cases ctx) (simp_all add: ceremonies_Put_def ref_Put_def agrees_def)
  qed
qed

lemma with_live_agrees:
  assumes inv: "cere_inv s"
    and run: "\<And>e. map_of (cs_rows s) \<lparr>ck_tenant = t, ck_kind = k, ck_handle = h\<rparr> = Some e \<Longrightarrow>
                agrees (f \<lparr>ck_tenant = t, ck_kind = k, ck_handle = h\<rparr> e) (f' \<lparr>ck_tenant = t, ck_kind = k, ck_handle = h\<rparr> e)"
  shows "agrees (with_live ctx clk t k h f s) (ref_live ctx clk t k h f' (forget_indexes s))"
  unfolding with_live_def ref_live_def
  by (intro agrees_ctx inv)
    (auto simp: lookupKey_def ceremonies_live_def agrees_stay inv run split: option.split)

lemma charge_simps [simp]:
  "ce_seq (charge e) = ce_seq e"
  "cw_ScopeHash (ce_row (charge e)) = cw_ScopeHash (ce_row e)"
  "cw_Attempts (ce_row (charge e)) = cw_Attempts (ce_row e) + 1"
  by (simp_all add: charge_def)

lemma entry_fits_charge:
  "entry_fits k e \<Longrightarrow> cw_Attempts (ce_row e) + 1 < kind_MaxAttempts (ck_kind k) \<Longrightarrow> entry_fits k (charge e)"
  by (simp add: entry_fits_def charge_def)

lemma Fail_agrees:
  assumes inv: "cere_inv s"
  shows "agrees (cere_exec (CFail t k h) ctx clk s) (ref_exec (CFail t k h) ctx clk (forget_indexes s))"
proof -
  let ?kk = "\<lparr>ck_tenant = t, ck_kind = k, ck_handle = h\<rparr>"
  have "cere_inv (write_entry ?kk (charge e) s) \<and>
      forget_indexes (write_entry ?kk (charge e) s) = (forget_indexes s)\<lparr>rs_rows := AList.update ?kk (charge e) (cs_rows s)\<rparr>"
    if "map_of (cs_rows s) ?kk = Some e" "\<not> kind_MaxAttempts k \<le> cw_Attempts (ce_row e) + 1" for e
  proof -
    have "entry_fits ?kk e" using inv that(1) rows_ok_entry by (auto simp: cere_inv_def)
    then have "cere_inv (write_entry ?kk (charge e) s)"
      using inv_write [OF inv that(1)] entry_fits_charge that(2) by simp
    then show ?thesis by (simp add: write_entry_def forget_indexes_def)
  qed
  then show ?thesis
    unfolding cere_exec.simps ref_exec.simps ceremonies_RecordFailure_def Let_def
    by (intro agrees_out with_live_agrees inv) (auto simp: agrees_def remove_agrees inv)
qed

lemma keys_filter: "wf_map m \<Longrightarrow> del_where (\<lambda>k _. k \<in> set (keys_of (filter P m))) m = filter (\<lambda>kv. \<not> P kv) m"
  unfolding del_where_def by (rule filter_cong) (auto simp: image_iff dest: eq_key_imp_eq_value)

lemma Delete_agrees:
  assumes inv: "cere_inv s"
  shows "agrees (cere_exec (CDelete t h ks) ctx clk s) (ref_exec (CDelete t h ks) ctx clk (forget_indexes s))"
proof -
  let ?P = "\<lambda>(k, e). \<not> (ck_tenant k \<noteq> t \<or> cw_ScopeHash (ce_row e) \<noteq> h) \<and> \<not> (length ks > 0 \<and> ck_kind k \<notin> set ks)"
  let ?Q = "\<lambda>(k, e). h \<noteq> [] \<and> ck_tenant k = t \<and> cw_ScopeHash (ce_row e) = h \<and> (ks = [] \<or> ck_kind k \<in> set ks)"
  have eq: "filter ?P (cs_rows s) = filter ?Q (cs_rows s)" if "h \<noteq> []"
    by (rule filter_cong) (use that in auto)
  show ?thesis
  proof (cases "h = []")
    case True
    then show ?thesis
      unfolding cere_exec.simps ref_exec.simps ceremonies_DeleteForScope_def
      by (intro agrees_out agrees_ctx inv) (simp add: agrees_def inv ref_remove_def del_where_def forget_indexes_def)
  next
    case False
    show ?thesis
      unfolding cere_exec.simps ref_exec.simps ceremonies_DeleteForScope_def Let_def forget_simps eq [OF False]
      by (intro agrees_out agrees_ctx inv) (simp add: agrees_def remove_all_agrees inv False)
  qed
qed

lemma Erase_agrees:
  assumes inv: "cere_inv s"
  shows "agrees (cere_exec (CErase t) ctx clk s) (ref_exec (CErase t) ctx clk (forget_indexes s))"
proof -
  let ?ks = "filter (\<lambda>k. ck_tenant k = t) (keys_of (cs_rows s))"
  have "del_where (\<lambda>k _. k \<in> set ?ks) (cs_rows s) = del_where (\<lambda>k _. ck_tenant k = t) (cs_rows s)"
    unfolding del_where_def by (rule filter_cong) force+
  then have "forget_indexes ((remove_all ?ks s)\<lparr>cs_consumed := m\<rparr>) =
      (forget_indexes s)\<lparr>rs_rows := del_where (\<lambda>k _. ck_tenant k = t) (cs_rows s), rs_consumed := m\<rparr>" for m
    using remove_all_facts [OF inv, of ?ks] by (simp add: forget_indexes_def del_all)
  then show ?thesis
    unfolding cere_exec.simps ref_exec.simps ceremonies_EraseTenant_def Let_def
    by (intro agrees_out agrees_ctx inv) (simp add: agrees_def remove_all_facts inv)
qed

lemma Reap_agrees:
  assumes inv: "cere_inv s"
  shows "agrees (cere_exec CReap ctx clk s) (ref_exec CReap ctx clk (forget_indexes s))"
proof -
  let ?dead = "filter (\<lambda>(k, e). \<not> entry_live clk e) (cs_rows s)"
  have wf: "wf_map (cs_rows s)" using inv by (simp add: cere_inv_def rows_ok_def)
  have rows: "cs_rows (remove_all (keys_of ?dead) s) = del_where (\<lambda>_ e. \<not> entry_live clk e) (cs_rows s)"
    using remove_all_facts [OF inv, of "keys_of ?dead"] keys_filter [OF wf, of "\<lambda>(k, e). \<not> entry_live clk e"]
    by (simp add: del_all) (simp add: del_where_def case_prod_unfold)
  have "length ?dead + length (del_where (\<lambda>_ e. \<not> entry_live clk e) (cs_rows s)) = length (cs_rows s)"
    unfolding del_where_def
    using sum_length_filter_compl [of "\<lambda>(k, e). \<not> entry_live clk e" "cs_rows s"] by (simp add: case_prod_unfold)
  then have count: "int (length ?dead) = int (length (cs_rows s)) -
      int (length (del_where (\<lambda>_ e. \<not> entry_live clk e) (cs_rows s)))" by linarith
  show ?thesis
    unfolding cere_exec.simps ref_exec.simps ceremonies_ReapExpired_def Let_def
    by (intro agrees_out agrees_ctx inv)
      (use remove_all_facts [OF inv, of "keys_of ?dead"] rows count in
        \<open>simp add: agrees_def forget_indexes_def linorder_not_less\<close>)
qed

lemma exec_agrees: "cere_inv s \<Longrightarrow> agrees (cere_exec oper ctx clk s) (ref_exec oper ctx clk (forget_indexes s))"
proof (cases oper)
  case (CPut r)
  show "cere_inv s \<Longrightarrow> ?thesis"
    unfolding CPut cere_exec.simps ref_exec.simps by (intro agrees_out Put_agrees)
next
  case (CPeek t k h)
  show "cere_inv s \<Longrightarrow> ?thesis"
    unfolding CPeek cere_exec.simps ref_exec.simps ceremonies_Peek_def
    by (intro agrees_out with_live_agrees) (simp_all add: agrees_def)
next
  case (CConsume t k h)
  show "cere_inv s \<Longrightarrow> ?thesis"
    unfolding CConsume cere_exec.simps ref_exec.simps ceremonies_Consume_def
    by (intro agrees_out with_live_agrees) (simp_all add: agrees_def remove_agrees)
next
  case (CFail t k h)
  then show "cere_inv s \<Longrightarrow> ?thesis" using Fail_agrees by simp
next
  case (CMark t k h u)
  show "cere_inv s \<Longrightarrow> ?thesis"
    unfolding CMark cere_exec.simps ref_exec.simps ceremonies_MarkConsumed_def
    by (intro agrees_out agrees_ctx)
      (auto simp: agrees_def lookupKey_def Let_def forget_indexes_def split: option.splits)
next
  case (CDelete t h ks)
  then show "cere_inv s \<Longrightarrow> ?thesis" using Delete_agrees by simp
next
  case (CErase t)
  then show "cere_inv s \<Longrightarrow> ?thesis" using Erase_agrees by simp
next
  case CReap
  then show "cere_inv s \<Longrightarrow> ?thesis" using Reap_agrees by simp
qed

lemma cere_reach_inv: "cere_reach s \<Longrightarrow> cere_inv s"
proof (induction rule: cere_reach.induct)
  case cere_reach_New
  show ?case by (rule cere_inv_New)
next
  case (cere_reach_step s oper ctx clk)
  then show ?case using exec_agrees by (simp add: agrees_def)
qed

section \<open>Runs\<close>

text \<open>The answers and the final state of a sequence of calls, each with its context and clock reading.\<close>

type_synonym call = "cere_op \<times> context_err \<times> instant"

fun calls :: "(cere_op \<Rightarrow> context_err \<Rightarrow> instant \<Rightarrow> 's \<Rightarrow> 'o \<times> 's) \<Rightarrow> call list \<Rightarrow> 's \<Rightarrow> (cere_op \<times> 'o) list \<times> 's" where
  "calls exec [] s = ([], s)"
| "calls exec ((oper, ctx, clk) # cs) s =
     (let (r, s') = exec oper ctx clk s; (rs, s'') = calls exec cs s' in ((oper, r) # rs, s''))"

lemma calls_agree:
  "cere_inv s \<Longrightarrow>
   fst (calls cere_exec cs s) = fst (calls ref_exec cs (forget_indexes s)) \<and>
   forget_indexes (snd (calls cere_exec cs s)) = snd (calls ref_exec cs (forget_indexes s))"
proof (induction cs arbitrary: s)
  case Nil
  show ?case by simp
next
  case (Cons c cs)
  obtain oper ctx clk where c: "c = (oper, ctx, clk)" by (cases c)
  obtain r s' where e: "cere_exec oper ctx clk s = (r, s')" by fastforce
  with exec_agrees [OF Cons.prems, of oper ctx clk]
  have inv: "cere_inv s'" and ref: "ref_exec oper ctx clk (forget_indexes s) = (r, forget_indexes s')"
    by (auto simp: agrees_def prod_eq_iff)
  show ?case
    using Cons.IH [OF inv] by (simp add: c e ref case_prod_unfold Let_def)
qed

text \<open>
  C35. The in-process ceremony store, whose \<^verbatim>\<open>Put\<close> consults bucket maps and scope counters and skips the
  eviction when they say there is nothing to evict, is equivalent to the reference store that keeps no
  index: whatever calls are made on a new store, in whatever contexts and at whatever clock readings,
  every call answers alike (the number of evicted records included) and both hold the same rows, in the
  same order of insertion, and the same single-use marks.
\<close>

theorem ceremony_indexes_equivalent:
  "fst (calls cere_exec cs ceremonies_New) = fst (calls ref_exec cs (forget_indexes ceremonies_New)) \<and>
   forget_indexes (snd (calls cere_exec cs ceremonies_New)) =
     snd (calls ref_exec cs (forget_indexes ceremonies_New))"
  by (rule calls_agree [OF cere_inv_New])

section \<open>Single use and bounded guesses\<close>

definition handle_key :: "tenant_id \<Rightarrow> kind \<Rightarrow> bytes \<Rightarrow> ckey" where
  "handle_key t k h = \<lparr>ck_tenant = t, ck_kind = k, ck_handle = h\<rparr>"

text \<open>
  The calls on one handle: those that store a record under it, those answered with its record or a charge,
  the charged failures, and the calls that use the record up.
\<close>

fun puts_to :: "ckey \<Rightarrow> cere_op \<Rightarrow> bool" where
  "puts_to kk (CPut r) \<longleftrightarrow> record_key_of r = kk"
| "puts_to kk _ \<longleftrightarrow> False"

fun looks_up :: "ckey \<Rightarrow> cere_op \<Rightarrow> bool" where
  "looks_up kk (CPeek t k h) \<longleftrightarrow> handle_key t k h = kk"
| "looks_up kk (CConsume t k h) \<longleftrightarrow> handle_key t k h = kk"
| "looks_up kk (CFail t k h) \<longleftrightarrow> handle_key t k h = kk"
| "looks_up kk _ \<longleftrightarrow> False"

definition is_Ok :: "'a result \<Rightarrow> bool" where
  "is_Ok r = (case r of Ok _ \<Rightarrow> True | _ \<Rightarrow> False)"

lemma is_Ok_simps [simp]:
  "is_Ok (Ok x)" "\<not> is_Ok (Err e)" "\<not> is_Ok Panic"
  by (simp_all add: is_Ok_def)

definition answered :: "ckey \<Rightarrow> cere_op \<times> cere_out result \<Rightarrow> bool" where
  "answered kk ev \<longleftrightarrow> looks_up kk (fst ev) \<and> is_Ok (snd ev)"

fun charged :: "ckey \<Rightarrow> cere_op \<times> cere_out result \<Rightarrow> bool" where
  "charged kk (CFail t k h, r) \<longleftrightarrow> handle_key t k h = kk \<and> is_Ok r"
| "charged kk _ \<longleftrightarrow> False"

fun used_up :: "ckey \<Rightarrow> cere_op \<times> cere_out result \<Rightarrow> bool" where
  "used_up kk (CConsume t k h, r) \<longleftrightarrow> handle_key t k h = kk \<and> is_Ok r"
| "used_up kk (CFail t k h, r) \<longleftrightarrow> handle_key t k h = kk \<and> r = Ok (ONum 0)"
| "used_up kk _ \<longleftrightarrow> False"

definition stored_at :: "ckey \<Rightarrow> rstore \<Rightarrow> centry option" where
  "stored_at kk a = map_of (rs_rows a) kk"

text \<open>How one call other than \<^verbatim>\<open>Put\<close> on the handle changes the row under it.\<close>

definition row_step :: "ckey \<Rightarrow> cere_op \<times> cere_out result \<Rightarrow> centry option \<Rightarrow> centry option \<Rightarrow> bool" where
  "row_step kk ev old new \<longleftrightarrow>
     (answered kk ev \<longrightarrow> old \<noteq> None) \<and> (used_up kk ev \<longrightarrow> new = None) \<and>
     (new = None \<or> new = (if charged kk ev then map_option charge old else old))"

lemma row_step_stay: "\<not> answered kk (oper, r) \<Longrightarrow> \<not> used_up kk (oper, r) \<Longrightarrow> \<not> charged kk (oper, r) \<Longrightarrow>
    new = None \<or> new = old \<Longrightarrow> row_step kk (oper, r) old new"
  by (simp add: row_step_def)

lemma row_step_Err: "row_step kk (oper, Err e) old old"
  by (cases oper) (simp_all add: row_step_def answered_def)

lemma map_of_filter_sub: "wf_map m \<Longrightarrow> map_of (filter P m) k = None \<or> map_of (filter P m) k = map_of m k"
proof (induction m)
  case Nil
  show ?case by simp
next
  case (Cons kv m)
  then show ?case by (cases kv) (auto simp: map_of_eq_None_iff)
qed

lemma keep_newest_sub:
  "wf_map rows \<Longrightarrow> map_of (keep_newest G keep now limit rows) k = None \<or>
     map_of (keep_newest G keep now limit rows) k = map_of rows k"
  unfolding keep_newest_def by (rule map_of_filter_sub)

lemma del_where_sub: "wf_map m \<Longrightarrow> map_of (del_where P m) k = None \<or> map_of (del_where P m) k = map_of m k"
  unfolding del_where_def by (rule map_of_filter_sub)

lemma ref_Put_row:
  assumes wf: "wf_map (rs_rows a)" and other: "record_key_of r \<noteq> kk"
  shows "stored_at kk (snd (ref_Put ctx clk r a)) = None \<or> stored_at kk (snd (ref_Put ctx clk r a)) = stored_at kk a"
proof -
  let ?k = "record_key_of r" and ?e = "\<lparr>ce_row = stored_row r, ce_seq = Suc (rs_seq a)\<rparr>"
  let ?rows = "AList.delete ?k (rs_rows a) @ [(?k, ?e)]"
  have wfr: "wf_map ?rows"
    using wf_map_update [OF wf_map_delete [OF wf], of ?k ?e ?k] by (simp add: update_fresh)
  have same: "map_of ?rows kk = map_of (rs_rows a) kk"
    using other by (auto simp: map_add_def split: option.split)
  have wf1: "wf_map (keep_newest G ?k clk n ?rows)" for G n
    unfolding keep_newest_def by (rule wf_map_filter [OF wfr])
  have one: "map_of (keep_newest G ?k clk n ?rows) kk = None \<or>
      map_of (keep_newest G ?k clk n ?rows) kk = map_of (rs_rows a) kk" for G n
    using keep_newest_sub [OF wfr] same by metis
  have two: "map_of (keep_newest H ?k clk m (keep_newest G ?k clk n ?rows)) kk = None \<or>
      map_of (keep_newest H ?k clk m (keep_newest G ?k clk n ?rows)) kk = map_of (rs_rows a) kk" for G H n m
    using keep_newest_sub [OF wf1] one by metis
  show ?thesis
  proof (cases ctx)
    case None
    show ?thesis
      unfolding ref_Put_def None with_ctx_simps stored_at_def Let_def
      using one two by (simp split: result.split)
  next
    case (Some e)
    then show ?thesis by (simp add: ref_Put_def)
  qed
qed

lemma ref_row_step:
  assumes wf: "wf_map (rs_rows a)" and other: "\<not> puts_to kk oper"
  shows "row_step kk (oper, fst (ref_exec oper ctx clk a)) (stored_at kk a) (stored_at kk (snd (ref_exec oper ctx clk a)))"
proof (cases ctx)
  case (Some e)
  then have "ref_exec oper ctx clk a = (Err e, a)"
    by (cases oper) (simp_all add: out_def ref_Put_def ref_live_def result_bind_def)
  then show ?thesis by (simp add: row_step_Err)
next
  case None
  note live = ref_live_def handle_key_def stored_at_def out_def None result_bind_def row_step_def answered_def
    ref_remove_def map_of_del_where wf
  show ?thesis
  proof (cases oper)
    case (CPut r)
    then show ?thesis
      using ref_Put_row [OF wf, of r kk ctx clk] other
      by (auto simp: out_def answered_def intro!: row_step_stay)
  next
    case (CPeek t k h)
    then show ?thesis by (auto simp: live split: option.splits result.splits)
  next
    case (CConsume t k h)
    then show ?thesis by (auto simp: live split: option.splits result.splits)
  next
    case (CFail t k h)
    then show ?thesis by (auto simp: live split: option.splits)
  next
    case (CMark t k h u)
    then show ?thesis by (auto simp: stored_at_def out_def None answered_def Let_def intro!: row_step_stay)
  next
    case (CDelete t h ks)
    then show ?thesis
      using del_where_sub [OF wf]
      by (auto simp: stored_at_def out_def None answered_def Let_def ref_remove_def intro!: row_step_stay)
  next
    case (CErase t)
    then show ?thesis
      using del_where_sub [OF wf]
      by (auto simp: stored_at_def out_def None answered_def intro!: row_step_stay)
  next
    case CReap
    then show ?thesis
      using del_where_sub [OF wf]
      by (auto simp: stored_at_def out_def None answered_def Let_def intro!: row_step_stay)
  qed
qed

lemma exec_row_step:
  assumes inv: "cere_inv s" and other: "\<not> puts_to kk oper"
  shows "row_step kk (oper, fst (cere_exec oper ctx clk s))
           (map_of (cs_rows s) kk) (map_of (cs_rows (snd (cere_exec oper ctx clk s))) kk)"
proof -
  have "wf_map (rs_rows (forget_indexes s))" using inv by (simp add: cere_inv_def rows_ok_def)
  from ref_row_step [OF this other, of ctx clk] exec_agrees [OF inv, of oper ctx clk] show ?thesis
    by (simp add: agrees_def stored_at_def) (metis forget_simps(2))
qed

definition attempts_left :: "ckey \<Rightarrow> centry option \<Rightarrow> nat" where
  "attempts_left kk old = (case old of None \<Rightarrow> 0 | Some e \<Rightarrow> nat (kind_MaxAttempts (ck_kind kk) - cw_Attempts (ce_row e)))"

lemma charged_answered: "charged kk ev \<Longrightarrow> answered kk ev"
  by (cases "(kk, ev)" rule: charged.cases) (simp_all add: answered_def)

lemma used_up_answered: "used_up kk ev \<Longrightarrow> answered kk ev"
  by (cases "(kk, ev)" rule: used_up.cases) (simp_all add: answered_def)

lemma row_step_attempts:
  assumes step: "row_step kk ev old new" and fits: "\<And>e. old = Some e \<Longrightarrow> entry_fits kk e"
  shows "attempts_left kk new + (if charged kk ev then 1 else 0) \<le> attempts_left kk old"
proof (cases "charged kk ev")
  case True
  then obtain e where old: "old = Some e"
    using step charged_answered by (auto simp: row_step_def)
  have "cw_Attempts (ce_row e) < kind_MaxAttempts (ck_kind kk)" using fits [OF old] by (simp add: entry_fits_def)
  moreover have "new = None \<or> new = Some (charge e)" using step True old by (auto simp: row_step_def)
  ultimately show ?thesis using True old by (auto simp: attempts_left_def)
next
  case False
  then have "new = None \<or> new = old" using step by (simp add: row_step_def)
  then show ?thesis using False by (auto simp: attempts_left_def)
qed

text \<open>No call after one that used the handle up is answered.\<close>

definition final :: "ckey \<Rightarrow> cere_op \<times> cere_out result \<Rightarrow> cere_op \<times> cere_out result \<Rightarrow> bool" where
  "final kk ev later \<longleftrightarrow> \<not> (used_up kk ev \<and> answered kk later)"

lemma calls_bounded:
  assumes "cere_inv s" "\<forall>c \<in> set cs. \<not> puts_to kk (fst c)"
  shows "length (filter (charged kk) (fst (calls cere_exec cs s))) \<le> attempts_left kk (map_of (cs_rows s) kk)
    \<and> (map_of (cs_rows s) kk = None \<longrightarrow> filter (answered kk) (fst (calls cere_exec cs s)) = [])
    \<and> sorted_wrt (final kk) (fst (calls cere_exec cs s))"
  using assms
proof (induction cs arbitrary: s)
  case Nil
  show ?case by simp
next
  case (Cons c cs)
  obtain oper ctx clk where c: "c = (oper, ctx, clk)" by (cases c)
  obtain r s' where e: "cere_exec oper ctx clk s = (r, s')" by fastforce
  have inv': "cere_inv s'" using exec_agrees [OF Cons.prems(1), of oper ctx clk] e by (simp add: agrees_def)
  let ?old = "map_of (cs_rows s) kk" and ?new = "map_of (cs_rows s') kk"
  have step: "row_step kk (oper, r) ?old ?new"
    using exec_row_step [OF Cons.prems(1), of kk oper ctx clk] Cons.prems(2) c e by simp
  have rest: "length (filter (charged kk) (fst (calls cere_exec cs s'))) \<le> attempts_left kk ?new"
    "?new = None \<Longrightarrow> filter (answered kk) (fst (calls cere_exec cs s')) = []"
    "sorted_wrt (final kk) (fst (calls cere_exec cs s'))"
    using Cons.IH [OF inv'] Cons.prems(2) by auto
  have evs: "fst (calls cere_exec (c # cs) s) = (oper, r) # fst (calls cere_exec cs s')"
    by (simp add: c e case_prod_unfold Let_def)
  have "attempts_left kk ?new + (if charged kk (oper, r) then 1 else 0) \<le> attempts_left kk ?old"
    using row_step_attempts [OF step] rows_ok_entry Cons.prems(1) by (auto simp: cere_inv_def)
  moreover have "?old = None \<Longrightarrow> ?new = None \<and> \<not> answered kk (oper, r)"
    using step by (auto simp: row_step_def split: if_splits)
  moreover have "final kk (oper, r) ev" if "ev \<in> set (fst (calls cere_exec cs s'))" for ev
    using step rest(2) that by (auto simp: final_def row_step_def filter_empty_conv)
  ultimately show ?case using rest unfolding evs by auto
qed

lemma attempts_left_max:
  "cere_inv s \<Longrightarrow> int (attempts_left kk (map_of (cs_rows s) kk)) \<le> max 0 (kind_MaxAttempts (ck_kind kk))"
  using rows_ok_entry by (fastforce simp: attempts_left_def cere_inv_def entry_fits_def split: option.split)

lemma kind_MaxAttempts_le: "0 \<le> kind_MaxAttempts k \<and> kind_MaxAttempts k \<le> 5"
  by (simp add: kind_MaxAttempts_def)

section \<open>A concrete store\<close>

definition wdemo_key :: ckey where
  "wdemo_key = \<lparr>ck_tenant = TenantID ''acme'', ck_kind = EmailCode, ck_handle = replicate 32 7\<rparr>"

definition wdemo_record :: ceremony_record where
  "wdemo_record =
     \<lparr>cr_Pending = Sealed [1], cr_pending = [1], cr_tenant = TenantID ''acme'', cr_kind = EmailCode,
      cr_handleHash = replicate 32 7, cr_scopeHash = replicate 32 9, cr_payload = [], cr_attempts = 0,
      cr_expiresAt = 600 * Second, cr_createdAt = 0\<rparr>"

definition wdemo_store :: cstore where
  "wdemo_store = snd (cere_exec (CPut wdemo_record) None 0 ceremonies_New)"

definition wdemo_calls :: "call list" where
  "wdemo_calls =
     [(CFail (TenantID ''acme'') EmailCode (replicate 32 7), None, Second),
      (CConsume (TenantID ''acme'') EmailCode (replicate 32 7), None, 3 * Second),
      (CConsume (TenantID ''acme'') EmailCode (replicate 32 7), None, 4 * Second)]"

lemma wdemo_reach: "cere_reach wdemo_store"
  unfolding wdemo_store_def by (intro cere_reach.intros)

text \<open>
  C36. A stored handle is single-use and the guesses at it are bounded. From any reachable store, however the
  calls of the service interleave (lookups, consumptions, charged failures, deletions, reaping, other
  records being stored) and whatever their contexts and clock readings, as long as no new record is stored
  under the handle: at most \<^verbatim>\<open>MaxAttempts\<close> of the kind are charged to it, and once a call used it up (a
  successful \<^verbatim>\<open>Consume\<close>, or the charge that leaves no attempt) no later \<^verbatim>\<open>Peek\<close>, \<^verbatim>\<open>Consume\<close> or \<^verbatim>\<open>RecordFailure\<close> of
  it succeeds; in particular at most one call uses it up.
\<close>

theorem ceremony_single_use:
  assumes "cere_reach s" "\<forall>c \<in> set cs. \<not> puts_to kk (fst c)"
  shows "int (length (filter (charged kk) (fst (calls cere_exec cs s)))) \<le> kind_MaxAttempts (ck_kind kk) \<and>
    sorted_wrt (final kk) (fst (calls cere_exec cs s))"
proof -
  have inv: "cere_inv s" using assms(1) by (rule cere_reach_inv)
  show ?thesis
    using calls_bounded [OF inv assms(2)] attempts_left_max [OF inv, of kk] kind_MaxAttempts_le [of "ck_kind kk"]
    by linarith
qed

theorem ceremony_single_use_witness:
  "map (is_Ok \<circ> snd) (fst (calls cere_exec wdemo_calls wdemo_store)) = [True, True, False] \<and>
   int (length (filter (charged wdemo_key) (fst (calls cere_exec wdemo_calls wdemo_store)))) \<le> kind_MaxAttempts EmailCode \<and>
   sorted_wrt (final wdemo_key) (fst (calls cere_exec wdemo_calls wdemo_store))"
proof -
  have "\<forall>c \<in> set wdemo_calls. \<not> puts_to wdemo_key (fst c)" by (simp add: wdemo_calls_def)
  note ceremony_single_use [OF wdemo_reach this]
  moreover have "ck_kind wdemo_key = EmailCode" by (simp add: wdemo_key_def)
  moreover have "map (is_Ok \<circ> snd) (fst (calls cere_exec wdemo_calls wdemo_store)) = [True, True, False]"
    by code_simp
  ultimately show ?thesis by metis
qed

end
