(* ===== verification/MFA_Store.thy ===== *)
theory MFA_Store
  imports Core_Codec Feed
begin

text \<open>
  TOTP enrollments, recovery codes and their lockout counters: the types of \<^verbatim>\<open>store/mfa/store.go\<close> and the
  in-process store \<^verbatim>\<open>store/mfa/memory/store.go\<close>. Every method runs under the store's mutex and is one step on
  the whole state; \<open>clk\<close> is what the store's clock returns. The code keeps pointers to rows and counters that
  nothing else holds, so they are the values of their maps. A nil \<^verbatim>\<open>*time.Time\<close> is \<open>None\<close>.
\<close>

definition mfa_AADVersionLegacy :: u8 where "mfa_AADVersionLegacy = 0"
definition mfa_AADVersionCurrent :: u8 where "mfa_AADVersionCurrent = 1"

record enrollment =
  me_Subject :: subject
  me_Sealed :: bytes
  me_AADVersion :: u8
  me_ConfirmedAt :: "instant option"
  me_LastUsedStep :: int
  me_FailedAttempts :: int
  me_LastAttemptAt :: instant
  me_CreatedAt :: instant

definition mfa_Confirmed :: "enrollment \<Rightarrow> bool" where
  "mfa_Confirmed e \<longleftrightarrow> me_ConfirmedAt e \<noteq> None"

record mfa_lockout =
  ml_Subject :: subject
  ml_Now :: instant
  ml_Max :: int
  ml_Duration :: duration

record mfa_v016 =
  mv_Subject :: subject
  mv_Sealed :: bytes

record mfa_reseal =
  mr_Subject :: subject
  mr_Old :: bytes
  mr_New :: bytes

record totp_row =
  tr_enr :: enrollment
  tr_seq :: nat

record counter =
  ct_failed :: int
  ct_last :: instant

text \<open>A recovery code of a subject is its digest and whether it was used.\<close>

record mfa_store =
  ms_totp :: "(subject, totp_row) gomap"
  ms_codes :: "(subject, (string, bool) gomap) gomap"
  ms_recovery :: "(subject, counter) gomap"
  ms_seq :: nat

definition mfa_New :: mfa_store where
  "mfa_New = \<lparr>ms_totp = [], ms_codes = [], ms_recovery = [], ms_seq = 0\<rparr>"

definition mfa_now :: "instant \<Rightarrow> instant" where
  "mfa_now clk = time_Truncate clk Microsecond"

definition mfa_Ping :: "context_err \<Rightarrow> mfa_store \<Rightarrow> unit result \<times> mfa_store" where
  "mfa_Ping ctx s = with_ctx ctx s (Ok (), s)"

definition mfa_EraseTenant :: "context_err \<Rightarrow> tenant_id \<Rightarrow> mfa_store \<Rightarrow> unit result \<times> mfa_store" where
  "mfa_EraseTenant ctx t s =
     with_ctx ctx s
       (Ok (), s\<lparr>ms_totp := del_where (\<lambda>sub _. s_tenant sub = t) (ms_totp s),
                 ms_codes := del_where (\<lambda>sub _. s_tenant sub = t) (ms_codes s),
                 ms_recovery := del_where (\<lambda>sub _. s_tenant sub = t) (ms_recovery s)\<rparr>)"

section \<open>Checks\<close>

definition mfa_errInvalidSubject :: err where "mfa_errInvalidSubject = [PkgErr ''mfa.errInvalidSubject'']"
definition mfa_errInvalidEnrollment :: err where "mfa_errInvalidEnrollment = [PkgErr ''mfa.errInvalidEnrollment'']"
definition mfa_errInvalidLockout :: err where "mfa_errInvalidLockout = [PkgErr ''mfa.errInvalidLockout'']"
definition mfa_errInvalidCodeHashes :: err where "mfa_errInvalidCodeHashes = [PkgErr ''mfa.errInvalidCodeHashes'']"
definition mfa_errInvalidReseal :: err where "mfa_errInvalidReseal = [PkgErr ''mfa.errInvalidReseal'']"

definition checkEnrollment :: "enrollment \<Rightarrow> unit result" where
  "checkEnrollment e =
     (if subject_IsZero (me_Subject e) then Err mfa_errInvalidSubject
      else if me_AADVersion e \<noteq> mfa_AADVersionCurrent then Err [MFAErr ErrMFALegacyAADVersion]
      else if length (me_Sealed e) = 0 \<or> me_FailedAttempts e < 0 then Err mfa_errInvalidEnrollment
      else Ok ())"

fun check_hashes :: "string list \<Rightarrow> string list \<Rightarrow> unit result" where
  "check_hashes [] seen = Ok ()"
| "check_hashes (h # hs) seen =
     (if h = [] then Err mfa_errInvalidCodeHashes
      else if h \<in> set seen then Err mfa_errInvalidCodeHashes
      else check_hashes hs (h # seen))"

definition checkHashes :: "string list \<Rightarrow> unit result" where
  "checkHashes hs = check_hashes hs []"

definition checkLockout :: "mfa_lockout \<Rightarrow> unit result" where
  "checkLockout l =
     (if subject_IsZero (ml_Subject l) then Err mfa_errInvalidSubject
      else if ml_Max l < 1 \<or> ml_Duration l < 0 \<or> time_IsZero (ml_Now l) then Err mfa_errInvalidLockout
      else Ok ())"

definition clonePtr :: "instant option \<Rightarrow> instant option" where
  "clonePtr p = map_option (\<lambda>t. time_Truncate t Microsecond) p"

text \<open>A method that returns early with a check's error.\<close>

definition checked :: "unit result \<Rightarrow> 's \<Rightarrow> 'a result \<times> 's \<Rightarrow> 'a result \<times> 's" where
  "checked c s r = (case c of Ok _ \<Rightarrow> r | Err e \<Rightarrow> (Err e, s) | Panic \<Rightarrow> (Panic, s))"

section \<open>TOTP enrollments\<close>

text \<open>What \<^verbatim>\<open>put\<close> stores of an enrollment, and \<^verbatim>\<open>put\<close>: a subject keeps its number, a new one takes the next.\<close>

definition stored_enrollment :: "instant \<Rightarrow> enrollment \<Rightarrow> enrollment" where
  "stored_enrollment clk e =
     (let created = (if time_IsZero (me_CreatedAt e) then mfa_now clk else me_CreatedAt e) in
      e\<lparr>me_ConfirmedAt := clonePtr (me_ConfirmedAt e),
        me_CreatedAt := time_Truncate created Microsecond,
        me_LastAttemptAt := (if time_IsZero (me_LastAttemptAt e) then me_LastAttemptAt e
                             else time_Truncate (me_LastAttemptAt e) Microsecond)\<rparr>)"

definition mfa_put :: "instant \<Rightarrow> enrollment \<Rightarrow> mfa_store \<Rightarrow> mfa_store" where
  "mfa_put clk e s =
     (case map_of (ms_totp s) (me_Subject e) of
        Some row \<Rightarrow> s\<lparr>ms_totp := AList.update (me_Subject e) (row\<lparr>tr_enr := stored_enrollment clk e\<rparr>) (ms_totp s)\<rparr>
      | None \<Rightarrow> s\<lparr>ms_seq := ms_seq s + 1,
                  ms_totp := AList.update (me_Subject e)
                    \<lparr>tr_enr = stored_enrollment clk e, tr_seq = ms_seq s + 1\<rparr> (ms_totp s)\<rparr>)"

text \<open>A write through the pointer to a row.\<close>

definition set_enr :: "subject \<Rightarrow> totp_row \<Rightarrow> enrollment \<Rightarrow> mfa_store \<Rightarrow> mfa_store" where
  "set_enr sub row e s = s\<lparr>ms_totp := AList.update sub (row\<lparr>tr_enr := e\<rparr>) (ms_totp s)\<rparr>"

definition mfa_out :: "totp_row \<Rightarrow> enrollment" where
  "mfa_out r = (tr_enr r)\<lparr>me_ConfirmedAt := clonePtr (me_ConfirmedAt (tr_enr r))\<rparr>"

definition mfa_SaveTOTP :: "context_err \<Rightarrow> instant \<Rightarrow> enrollment \<Rightarrow> mfa_store \<Rightarrow> unit result \<times> mfa_store" where
  "mfa_SaveTOTP ctx clk e s = with_ctx ctx s (checked (checkEnrollment e) s (Ok (), mfa_put clk e s))"

definition mfa_GetTOTP :: "context_err \<Rightarrow> subject \<Rightarrow> mfa_store \<Rightarrow> enrollment result \<times> mfa_store" where
  "mfa_GetTOTP ctx sub s =
     with_ctx ctx s
       (case map_of (ms_totp s) sub of
          None \<Rightarrow> (Err [StoreErr ErrNotFound], s)
        | Some r \<Rightarrow> (Ok (mfa_out r), s))"

definition mfa_DeleteTOTP :: "context_err \<Rightarrow> subject \<Rightarrow> mfa_store \<Rightarrow> unit result \<times> mfa_store" where
  "mfa_DeleteTOTP ctx sub s = with_ctx ctx s (Ok (), s\<lparr>ms_totp := AList.delete sub (ms_totp s)\<rparr>)"

definition mfa_HasConfirmedTOTP :: "context_err \<Rightarrow> subject \<Rightarrow> mfa_store \<Rightarrow> bool result \<times> mfa_store" where
  "mfa_HasConfirmedTOTP ctx sub s =
     with_ctx ctx s
       (Ok (case map_of (ms_totp s) sub of None \<Rightarrow> False | Some r \<Rightarrow> mfa_Confirmed (tr_enr r)), s)"

definition mfa_enrolled :: "mfa_store \<Rightarrow> subject list" where
  "mfa_enrolled s =
     remdups (keys_of (ms_totp s) @ keys_of (filter (\<lambda>(sub, set'). list_ex (\<lambda>(h, used). \<not> used) set') (ms_codes s)))"

definition mfa_CountEnrolled :: "context_err \<Rightarrow> mfa_store \<Rightarrow> int result \<times> mfa_store" where
  "mfa_CountEnrolled ctx s = with_ctx ctx s (Ok (int (length (mfa_enrolled s))), s)"

definition mfa_AnyEnrolled :: "context_err \<Rightarrow> mfa_store \<Rightarrow> bool result \<times> mfa_store" where
  "mfa_AnyEnrolled ctx s =
     (result_bind (fst (mfa_CountEnrolled ctx s)) (\<lambda>n. Ok (n > 0)), snd (mfa_CountEnrolled ctx s))"

definition clear_attempts :: "enrollment \<Rightarrow> enrollment" where
  "clear_attempts e = e\<lparr>me_FailedAttempts := 0, me_LastAttemptAt := zero_time\<rparr>"

definition mfa_MarkTOTPUsed :: "context_err \<Rightarrow> subject \<Rightarrow> int \<Rightarrow> mfa_store \<Rightarrow> bool result \<times> mfa_store" where
  "mfa_MarkTOTPUsed ctx sub step s =
     with_ctx ctx s
       (case map_of (ms_totp s) sub of
          None \<Rightarrow> (Ok False, s)
        | Some r \<Rightarrow>
           (if step \<le> me_LastUsedStep (tr_enr r) then (Ok False, s)
            else (Ok True, set_enr sub r (clear_attempts ((tr_enr r)\<lparr>me_LastUsedStep := step\<rparr>)) s)))"

definition bump :: "counter \<Rightarrow> mfa_lockout \<Rightarrow> counter \<times> int" where
  "bump c l =
     (let now = time_Truncate (ml_Now l) Microsecond in
      if ct_failed c < ml_Max l then (\<lparr>ct_failed = ct_failed c + 1, ct_last = now\<rparr>, ct_failed c + 1)
      else if ml_Duration l > 0 \<and> \<not> time_IsZero (ct_last c) \<and> time_Sub now (ct_last c) > ml_Duration l
      then (\<lparr>ct_failed = 1, ct_last = now\<rparr>, 1)
      else (c, ml_Max l + 1))"

definition mfa_IncrementTOTPAttempts :: "context_err \<Rightarrow> mfa_lockout \<Rightarrow> mfa_store \<Rightarrow> int result \<times> mfa_store" where
  "mfa_IncrementTOTPAttempts ctx l s =
     with_ctx ctx s (checked (checkLockout l) s
       (case map_of (ms_totp s) (ml_Subject l) of
          None \<Rightarrow> (Err [StoreErr ErrNotFound], s)
        | Some r \<Rightarrow>
           (let (next', n) = bump \<lparr>ct_failed = me_FailedAttempts (tr_enr r), ct_last = me_LastAttemptAt (tr_enr r)\<rparr> l
            in (Ok n, set_enr (ml_Subject l) r
                        ((tr_enr r)\<lparr>me_FailedAttempts := ct_failed next', me_LastAttemptAt := ct_last next'\<rparr>) s))))"

definition mfa_ResetTOTPAttempts :: "context_err \<Rightarrow> subject \<Rightarrow> mfa_store \<Rightarrow> unit result \<times> mfa_store" where
  "mfa_ResetTOTPAttempts ctx sub s =
     with_ctx ctx s
       (Ok (), case map_of (ms_totp s) sub of
                 None \<Rightarrow> s
               | Some r \<Rightarrow> set_enr sub r (clear_attempts (tr_enr r)) s)"

section \<open>Recovery codes\<close>

definition replaceCodes :: "subject \<Rightarrow> string list \<Rightarrow> mfa_store \<Rightarrow> mfa_store" where
  "replaceCodes sub hashes s =
     (let s1 = s\<lparr>ms_recovery := AList.delete sub (ms_recovery s), ms_codes := AList.delete sub (ms_codes s)\<rparr> in
      if length hashes = 0 then s1
      else s1\<lparr>ms_codes := AList.update sub (foldl (\<lambda>m h. AList.update h False m) [] hashes) (ms_codes s1)\<rparr>)"

definition mfa_ConfirmEnrollment ::
  "context_err \<Rightarrow> instant \<Rightarrow> enrollment \<Rightarrow> string list \<Rightarrow> mfa_store \<Rightarrow> unit result \<times> mfa_store" where
  "mfa_ConfirmEnrollment ctx clk e codeHashes s =
     with_ctx ctx s (checked (checkEnrollment e) s
       (if me_ConfirmedAt e = None then (Err mfa_errInvalidEnrollment, s)
        else checked (checkHashes codeHashes) s
          (let e' = (case map_of (ms_totp s) (me_Subject e) of
                       None \<Rightarrow> e
                     | Some row \<Rightarrow>
                        (let cur = tr_enr row;
                             e1 = e\<lparr>me_LastUsedStep := max (me_LastUsedStep e) (me_LastUsedStep cur),
                                    me_FailedAttempts := me_FailedAttempts cur,
                                    me_LastAttemptAt := me_LastAttemptAt cur\<rparr>
                         in if time_IsZero (me_CreatedAt e1) then e1\<lparr>me_CreatedAt := me_CreatedAt cur\<rparr> else e1))
           in (Ok (), replaceCodes (me_Subject e') codeHashes (mfa_put clk e' s)))))"

definition mfa_ReplaceRecoveryCodes ::
  "context_err \<Rightarrow> subject \<Rightarrow> string list \<Rightarrow> mfa_store \<Rightarrow> unit result \<times> mfa_store" where
  "mfa_ReplaceRecoveryCodes ctx sub codeHashes s =
     with_ctx ctx s
       (if subject_IsZero sub then (Err mfa_errInvalidSubject, s)
        else checked (checkHashes codeHashes) s (Ok (), replaceCodes sub codeHashes s))"

definition subject_codes :: "subject \<Rightarrow> mfa_store \<Rightarrow> (string, bool) gomap" where
  "subject_codes sub s = (case map_of (ms_codes s) sub of None \<Rightarrow> [] | Some m \<Rightarrow> m)"

definition mfa_ConsumeRecoveryCode :: "context_err \<Rightarrow> subject \<Rightarrow> string \<Rightarrow> mfa_store \<Rightarrow> unit result \<times> mfa_store" where
  "mfa_ConsumeRecoveryCode ctx sub codeHash s =
     with_ctx ctx s
       (case map_of (subject_codes sub s) codeHash of
          None \<Rightarrow> (Err [StoreErr ErrNotFound], s)
        | Some used \<Rightarrow>
           (if used then (Err [StoreErr ErrNotFound], s)
            else
              (let s1 = s\<lparr>ms_codes := AList.update sub (AList.update codeHash True (subject_codes sub s)) (ms_codes s)\<rparr>;
                   s2 = (case map_of (ms_totp s1) sub of
                           None \<Rightarrow> s1
                         | Some r \<Rightarrow> set_enr sub r (clear_attempts (tr_enr r)) s1)
               in (Ok (), s2\<lparr>ms_recovery := AList.delete sub (ms_recovery s2)\<rparr>))))"

definition mfa_DeleteRecoveryCodes :: "context_err \<Rightarrow> subject \<Rightarrow> mfa_store \<Rightarrow> unit result \<times> mfa_store" where
  "mfa_DeleteRecoveryCodes ctx sub s = with_ctx ctx s (Ok (), replaceCodes sub [] s)"

definition mfa_IncrementRecoveryAttempts :: "context_err \<Rightarrow> mfa_lockout \<Rightarrow> mfa_store \<Rightarrow> int result \<times> mfa_store" where
  "mfa_IncrementRecoveryAttempts ctx l s =
     with_ctx ctx s (checked (checkLockout l) s
       (let cur = (case map_of (ms_recovery s) (ml_Subject l) of
                     None \<Rightarrow> \<lparr>ct_failed = 0, ct_last = zero_time\<rparr>
                   | Some c \<Rightarrow> c);
            (next', n) = bump cur l
        in (Ok n, s\<lparr>ms_recovery := AList.update (ml_Subject l) next' (ms_recovery s)\<rparr>)))"

definition mfa_ResetRecoveryAttempts :: "context_err \<Rightarrow> subject \<Rightarrow> mfa_store \<Rightarrow> unit result \<times> mfa_store" where
  "mfa_ResetRecoveryAttempts ctx sub s =
     with_ctx ctx s (Ok (), s\<lparr>ms_recovery := AList.delete sub (ms_recovery s)\<rparr>)"

definition mfa_DeleteForSubject :: "context_err \<Rightarrow> subject \<Rightarrow> mfa_store \<Rightarrow> unit result \<times> mfa_store" where
  "mfa_DeleteForSubject ctx sub s =
     with_ctx ctx s
       (Ok (), s\<lparr>ms_totp := AList.delete sub (ms_totp s), ms_codes := AList.delete sub (ms_codes s),
                 ms_recovery := AList.delete sub (ms_recovery s)\<rparr>)"

section \<open>The v0.16 upgrade\<close>

definition mfa_CountLegacySealed :: "context_err \<Rightarrow> mfa_store \<Rightarrow> int result \<times> mfa_store" where
  "mfa_CountLegacySealed ctx s =
     with_ctx ctx s
       (Ok (int (length (filter (\<lambda>(sub, r). me_AADVersion (tr_enr r) = mfa_AADVersionLegacy) (ms_totp s)))), s)"

definition legacy_after :: "nat \<Rightarrow> mfa_store \<Rightarrow> totp_row list" where
  "legacy_after pos s =
     sort_key tr_seq
       (filter (\<lambda>r. me_AADVersion (tr_enr r) = mfa_AADVersionLegacy \<and> tr_seq r > pos) (map snd (ms_totp s)))"

definition mfa_V016Sealed ::
  "context_err \<Rightarrow> cursor \<Rightarrow> int \<Rightarrow> mfa_store \<Rightarrow> (mfa_v016 list \<times> cursor) result \<times> mfa_store" where
  "mfa_V016Sealed ctx after limit s =
     with_ctx ctx s
       (if limit < 1 then (Err (errors_New ''mfa: limit must be positive''), s)
        else
          (let rows = legacy_after (position after) s;
               page = (if int (length rows) > limit then take (nat limit) rows else rows)
           in (Ok (map (\<lambda>r. \<lparr>mv_Subject = me_Subject (tr_enr r), mv_Sealed = me_Sealed (tr_enr r)\<rparr>) page,
                   foldl (\<lambda>_ r. Cursor (tr_seq r)) after page), s)))"

definition mfa_ReplaceSealed :: "context_err \<Rightarrow> mfa_reseal \<Rightarrow> mfa_store \<Rightarrow> bool result \<times> mfa_store" where
  "mfa_ReplaceSealed ctx r s =
     with_ctx ctx s
       (if subject_IsZero (mr_Subject r) \<or> length (mr_Old r) = 0 \<or> length (mr_New r) = 0
        then (Err mfa_errInvalidReseal, s)
        else case map_of (ms_totp s) (mr_Subject r) of
          None \<Rightarrow> (Ok False, s)
        | Some row \<Rightarrow>
           (if me_Sealed (tr_enr row) \<noteq> mr_Old r then (Ok False, s)
            else (Ok True, set_enr (mr_Subject r) row
                    ((tr_enr row)\<lparr>me_Sealed := mr_New r, me_AADVersion := mfa_AADVersionCurrent\<rparr>) s)))"

section \<open>The store as one operation\<close>

datatype mfa_op =
    MSave enrollment
  | MConfirm enrollment "string list"
  | MDeleteTOTP subject
  | MMark subject int
  | MTry mfa_lockout
  | MReset subject
  | MReplaceCodes subject "string list"
  | MConsume subject string
  | MDeleteCodes subject
  | MTryRecovery mfa_lockout
  | MResetRecovery subject
  | MDeleteSubject subject
  | MErase tenant_id
  | MReseal mfa_reseal

datatype mfa_answer = MNum int | MBool bool | MDone

definition mout :: "('a \<Rightarrow> mfa_answer) \<Rightarrow> 'a result \<times> mfa_store \<Rightarrow> mfa_answer result \<times> mfa_store" where
  "mout f r = (result_bind (fst r) (\<lambda>x. Ok (f x)), snd r)"

fun mfa_exec :: "mfa_op \<Rightarrow> context_err \<Rightarrow> instant \<Rightarrow> mfa_store \<Rightarrow> mfa_answer result \<times> mfa_store" where
  "mfa_exec (MSave e) ctx clk s = mout (\<lambda>_. MDone) (mfa_SaveTOTP ctx clk e s)"
| "mfa_exec (MConfirm e hs) ctx clk s = mout (\<lambda>_. MDone) (mfa_ConfirmEnrollment ctx clk e hs s)"
| "mfa_exec (MDeleteTOTP sub) ctx clk s = mout (\<lambda>_. MDone) (mfa_DeleteTOTP ctx sub s)"
| "mfa_exec (MMark sub step) ctx clk s = mout MBool (mfa_MarkTOTPUsed ctx sub step s)"
| "mfa_exec (MTry l) ctx clk s = mout MNum (mfa_IncrementTOTPAttempts ctx l s)"
| "mfa_exec (MReset sub) ctx clk s = mout (\<lambda>_. MDone) (mfa_ResetTOTPAttempts ctx sub s)"
| "mfa_exec (MReplaceCodes sub hs) ctx clk s = mout (\<lambda>_. MDone) (mfa_ReplaceRecoveryCodes ctx sub hs s)"
| "mfa_exec (MConsume sub h) ctx clk s = mout (\<lambda>_. MDone) (mfa_ConsumeRecoveryCode ctx sub h s)"
| "mfa_exec (MDeleteCodes sub) ctx clk s = mout (\<lambda>_. MDone) (mfa_DeleteRecoveryCodes ctx sub s)"
| "mfa_exec (MTryRecovery l) ctx clk s = mout MNum (mfa_IncrementRecoveryAttempts ctx l s)"
| "mfa_exec (MResetRecovery sub) ctx clk s = mout (\<lambda>_. MDone) (mfa_ResetRecoveryAttempts ctx sub s)"
| "mfa_exec (MDeleteSubject sub) ctx clk s = mout (\<lambda>_. MDone) (mfa_DeleteForSubject ctx sub s)"
| "mfa_exec (MErase t) ctx clk s = mout (\<lambda>_. MDone) (mfa_EraseTenant ctx t s)"
| "mfa_exec (MReseal r) ctx clk s = mout MBool (mfa_ReplaceSealed ctx r s)"

end
