(* ===== verification/MFA_Properties.thy ===== *)
theory MFA_Properties
  imports MFA_Store
begin

text \<open>
  What the in-process MFA store guarantees under any sequence of its methods: a TOTP step is accepted once and
  never below an accepted one, a recovery code is consumed once, and a lockout lets at most \<^verbatim>\<open>Max\<close> attempts
  through per window.
\<close>

section \<open>Runs\<close>

type_synonym mfa_call = "mfa_op \<times> context_err \<times> instant"

fun mfa_run :: "mfa_call list \<Rightarrow> mfa_store \<Rightarrow> (mfa_op \<times> mfa_answer result) list \<times> mfa_store" where
  "mfa_run [] s = ([], s)"
| "mfa_run ((oper, ctx, clk) # cs) s =
     (let (r, s') = mfa_exec oper ctx clk s; (rs, s'') = mfa_run cs s' in ((oper, r) # rs, s''))"

abbreviation events :: "mfa_call list \<Rightarrow> mfa_store \<Rightarrow> (mfa_op \<times> mfa_answer result) list" where
  "events cs s \<equiv> fst (mfa_run cs s)"

lemma events_Cons:
  "events ((oper, ctx, clk) # cs) s = (oper, fst (mfa_exec oper ctx clk s)) # events cs (snd (mfa_exec oper ctx clk s))"
  by (simp add: case_prod_unfold Let_def)

lemma exec_ctx_Some: "mfa_exec oper (Some e) clk s = (Err e, s)"
  by (cases oper) (simp_all add: mout_def result_bind_def mfa_SaveTOTP_def mfa_ConfirmEnrollment_def mfa_DeleteTOTP_def
      mfa_MarkTOTPUsed_def mfa_IncrementTOTPAttempts_def mfa_ResetTOTPAttempts_def mfa_ReplaceRecoveryCodes_def
      mfa_ConsumeRecoveryCode_def mfa_DeleteRecoveryCodes_def mfa_IncrementRecoveryAttempts_def
      mfa_ResetRecoveryAttempts_def mfa_DeleteForSubject_def mfa_EraseTenant_def mfa_ReplaceSealed_def)

lemmas mfa_methods =
  mfa_SaveTOTP_def mfa_ConfirmEnrollment_def mfa_DeleteTOTP_def mfa_MarkTOTPUsed_def mfa_IncrementTOTPAttempts_def
  mfa_ResetTOTPAttempts_def mfa_ReplaceRecoveryCodes_def mfa_ConsumeRecoveryCode_def mfa_DeleteRecoveryCodes_def
  mfa_IncrementRecoveryAttempts_def mfa_ResetRecoveryAttempts_def mfa_DeleteForSubject_def mfa_EraseTenant_def
  mfa_ReplaceSealed_def mout_def checked_def Let_def case_prod_unfold

lemma put_totp:
  "map_of (ms_totp (mfa_put clk e s)) sub =
     (if sub = me_Subject e
      then Some \<lparr>tr_enr = stored_enrollment clk e,
                 tr_seq = (case map_of (ms_totp s) sub of None \<Rightarrow> ms_seq s + 1 | Some row \<Rightarrow> tr_seq row)\<rparr>
      else map_of (ms_totp s) sub)"
  by (auto simp: mfa_put_def split: option.split)

lemma set_enr_totp:
  "map_of (ms_totp (set_enr sub row e s)) x = (if x = sub then Some (row\<lparr>tr_enr := e\<rparr>) else map_of (ms_totp s) x)"
  by (simp add: set_enr_def)

lemma set_enr_rest [simp]:
  "ms_codes (set_enr sub row e s) = ms_codes s" "ms_recovery (set_enr sub row e s) = ms_recovery s"
  "ms_seq (set_enr sub row e s) = ms_seq s"
  by (simp_all add: set_enr_def)

lemma put_rest [simp]:
  "ms_codes (mfa_put clk e s) = ms_codes s" "ms_recovery (mfa_put clk e s) = ms_recovery s"
  by (simp_all add: mfa_put_def split: option.split)

lemma replaceCodes_rest [simp]:
  "ms_totp (replaceCodes sub hs s) = ms_totp s" "ms_seq (replaceCodes sub hs s) = ms_seq s"
  by (simp_all add: replaceCodes_def Let_def)

lemma stored_enrollment_simps [simp]:
  "me_Subject (stored_enrollment clk e) = me_Subject e"
  "me_LastUsedStep (stored_enrollment clk e) = me_LastUsedStep e"
  "me_AADVersion (stored_enrollment clk e) = me_AADVersion e"
  by (simp_all add: stored_enrollment_def Let_def)

section \<open>The replay guard of TOTP\<close>

text \<open>The calls that start a new enrollment of the subject or remove the one it has.\<close>

fun re_enrolls :: "subject \<Rightarrow> mfa_op \<Rightarrow> bool" where
  "re_enrolls sub (MSave e) \<longleftrightarrow> me_Subject e = sub"
| "re_enrolls sub (MDeleteTOTP x) \<longleftrightarrow> x = sub"
| "re_enrolls sub (MDeleteSubject x) \<longleftrightarrow> x = sub"
| "re_enrolls sub (MErase t) \<longleftrightarrow> t = s_tenant sub"
| "re_enrolls sub _ \<longleftrightarrow> False"

fun accepted_step :: "subject \<Rightarrow> mfa_op \<times> mfa_answer result \<Rightarrow> int list" where
  "accepted_step sub (MMark x step, Ok (MBool True)) = (if x = sub then [step] else [])"
| "accepted_step sub _ = []"

definition used_step :: "subject \<Rightarrow> mfa_store \<Rightarrow> int option" where
  "used_step sub s = map_option (\<lambda>r. me_LastUsedStep (tr_enr r)) (map_of (ms_totp s) sub)"

text \<open>One call other than a new enrollment: the last used step never falls, and becomes an accepted one.\<close>

definition step_le :: "int option \<Rightarrow> int option \<Rightarrow> bool" where
  "step_le old new \<longleftrightarrow> (\<forall>n. old = Some n \<longrightarrow> (\<exists>n'. new = Some n' \<and> n \<le> n'))"

lemma step_le_refl [simp]: "step_le x x"
  by (simp add: step_le_def)

lemma used_step_put: "used_step sub (mfa_put clk e s) = (if sub = me_Subject e then Some (me_LastUsedStep e) else used_step sub s)"
  by (simp add: used_step_def put_totp)

lemma used_step_set: "used_step sub (set_enr x row e s) = (if sub = x then Some (me_LastUsedStep e) else used_step sub s)"
  by (simp add: used_step_def set_enr_totp)

lemma used_step_cong [simp]:
  "used_step sub (s\<lparr>ms_codes := c\<rparr>) = used_step sub s"
  "used_step sub (s\<lparr>ms_recovery := r\<rparr>) = used_step sub s"
  "used_step sub (replaceCodes x hs s) = used_step sub s"
  by (simp_all add: used_step_def)

lemma used_step_row: "map_of (ms_totp s) sub = Some r \<Longrightarrow> used_step sub s = Some (me_LastUsedStep (tr_enr r))"
  by (simp add: used_step_def)

lemma used_step_none: "map_of (ms_totp s) sub = None \<Longrightarrow> used_step sub s = None"
  by (simp add: used_step_def)

lemma clear_attempts_simps [simp]:
  "me_LastUsedStep (clear_attempts e) = me_LastUsedStep e" "me_Subject (clear_attempts e) = me_Subject e"
  by (simp_all add: clear_attempts_def)

lemma step_kept:
  assumes wf: "wf_map (ms_totp s)" and keep: "\<not> re_enrolls sub oper" and mark: "\<And>x k. oper \<noteq> MMark x k"
  shows "step_le (used_step sub s) (used_step sub (snd (mfa_exec oper None clk s)))"
proof (cases oper)
  case (MSave e)
  then show ?thesis
    using keep by (simp add: mfa_methods used_step_put split: result.split)
next
  case (MConfirm e hs)
  show ?thesis
  proof (cases "map_of (ms_totp s) (me_Subject e)")
    case None
    then show ?thesis
      unfolding MConfirm by (auto simp: mfa_methods used_step_put step_le_def used_step_none split: result.split)
  next
    case (Some r)
    then show ?thesis
      unfolding MConfirm by (auto simp: mfa_methods used_step_put step_le_def used_step_row split: result.split)
  qed
next
  case (MDeleteTOTP x)
  then show ?thesis using keep by (simp add: mfa_methods used_step_def)
next
  case (MMark x k)
  then show ?thesis using mark by simp
next
  case (MTry l)
  then show ?thesis
    by (auto simp: mfa_methods used_step_set used_step_row split: result.split option.split)
next
  case (MReset x)
  then show ?thesis
    by (auto simp: mfa_methods used_step_set used_step_row split: option.split)
next
  case (MReplaceCodes x hs)
  then show ?thesis by (simp add: mfa_methods split: result.split)
next
  case (MConsume x h)
  then show ?thesis
    by (auto simp: mfa_methods used_step_set used_step_row split: option.split)
next
  case (MDeleteCodes x)
  then show ?thesis by (simp add: mfa_methods)
next
  case (MTryRecovery l)
  then show ?thesis by (simp add: mfa_methods split: result.split)
next
  case (MResetRecovery x)
  then show ?thesis by (simp add: mfa_methods)
next
  case (MDeleteSubject x)
  then show ?thesis using keep by (simp add: mfa_methods used_step_def)
next
  case (MErase t)
  then show ?thesis
    using keep by (auto simp: mfa_methods used_step_def map_of_del_where [OF wf] split: option.split)
next
  case (MReseal r)
  then show ?thesis
    by (auto simp: mfa_methods used_step_set used_step_row split: option.split)
qed

lemma accepted_step_other: "(\<And>x k. oper \<noteq> MMark x k) \<Longrightarrow> accepted_step sub (oper, r) = []"
  by (cases "(sub, oper, r)" rule: accepted_step.cases) auto

lemma mark_guard:
  "(if accepted_step sub (MMark x k, fst (mfa_exec (MMark x k) None clk s)) = []
    then used_step sub (snd (mfa_exec (MMark x k) None clk s)) = used_step sub s
    else accepted_step sub (MMark x k, fst (mfa_exec (MMark x k) None clk s)) = [k] \<and>
         (\<exists>n. used_step sub s = Some n \<and> n < k) \<and>
         used_step sub (snd (mfa_exec (MMark x k) None clk s)) = Some k)"
  by (auto simp: mfa_methods used_step_set used_step_row result_bind_def split: option.split)

lemma step_guard:
  fixes clk :: instant
  assumes wf: "wf_map (ms_totp s)" and keep: "\<not> re_enrolls sub oper"
  obtains (quiet) "accepted_step sub (oper, fst (mfa_exec oper ctx clk s)) = []"
      "step_le (used_step sub s) (used_step sub (snd (mfa_exec oper ctx clk s)))"
    | (taken) n k where "accepted_step sub (oper, fst (mfa_exec oper ctx clk s)) = [k]"
      "used_step sub s = Some n" "n < k" "used_step sub (snd (mfa_exec oper ctx clk s)) = Some k"
proof (cases ctx)
  case (Some e)
  have "accepted_step sub (oper, Err e) = []"
    by (cases "(sub, oper, Err e :: mfa_answer result)" rule: accepted_step.cases) auto
  then show ?thesis using quiet Some by (simp add: exec_ctx_Some)
next
  case None
  show ?thesis
  proof (cases "\<exists>x k. oper = MMark x k")
    case True
    then obtain x k where oper: "oper = MMark x k" by blast
    show ?thesis
      using mark_guard [of sub x k clk s] quiet taken unfolding oper None by (metis step_le_refl)
  next
    case False
    then show ?thesis
      using quiet step_kept [OF wf keep] accepted_step_other None by blast
  qed
qed

lemma wf_totp: "wf_map (ms_totp s) \<Longrightarrow> wf_map (ms_totp (snd (mfa_exec oper ctx clk s)))"
proof (cases ctx)
  case (Some e)
  then show "wf_map (ms_totp s) \<Longrightarrow> ?thesis" by (simp add: exec_ctx_Some)
next
  case None
  show "wf_map (ms_totp s) \<Longrightarrow> ?thesis"
    unfolding None
    by (cases oper) (simp_all add: mfa_methods set_enr_def mfa_put_def wf_map_update wf_map_delete wf_map_del_where
        split: option.split result.split)
qed

lemma steps_increase:
  assumes "wf_map (ms_totp s)" "\<forall>c \<in> set cs. \<not> re_enrolls sub (fst c)"
  shows "sorted_wrt (<) (concat (map (accepted_step sub) (events cs s))) \<and>
         (\<forall>n. used_step sub s = Some n \<longrightarrow> (\<forall>k \<in> set (concat (map (accepted_step sub) (events cs s))). n < k))"
  using assms
proof (induction cs arbitrary: s)
  case Nil
  show ?case by simp
next
  case (Cons c cs)
  obtain oper ctx clk where c: "c = (oper, ctx, clk)" by (cases c)
  let ?s' = "snd (mfa_exec oper ctx clk s)"
  have keep: "\<not> re_enrolls sub oper" using Cons.prems(2) c by simp
  have rest: "sorted_wrt (<) (concat (map (accepted_step sub) (events cs ?s')))"
    "\<And>n k. used_step sub ?s' = Some n \<Longrightarrow> k \<in> set (concat (map (accepted_step sub) (events cs ?s'))) \<Longrightarrow> n < k"
    using Cons.IH [OF wf_totp [OF Cons.prems(1)], of oper ctx clk] Cons.prems(2) by (simp, fastforce)
  show ?case
  proof (rule step_guard [OF Cons.prems(1) keep, of ctx clk], goal_cases)
    case quiet: 1
    have "n < k" if "used_step sub s = Some n" "k \<in> set (concat (map (accepted_step sub) (events cs ?s')))" for n k
      using quiet(2) rest(2) that unfolding step_le_def by (meson order.strict_trans1)
    then show ?thesis
      unfolding c events_Cons using quiet(1) rest(1) by (simp del: concat_map_singleton)
  next
    case taken: (2 n k)
    have above: "k < j" if "j \<in> set (concat (map (accepted_step sub) (events cs ?s')))" for j
      using rest(2) [OF taken(4) that] .
    then have "n < j" if "j \<in> set (concat (map (accepted_step sub) (events cs ?s')))" for j
      using that taken(3) by fastforce
    then show ?thesis
      unfolding c events_Cons using taken(1-3) above rest(1) by (auto simp del: set_concat)
  qed
qed

section \<open>Recovery codes\<close>

fun new_codes :: "subject \<Rightarrow> mfa_op \<Rightarrow> bool" where
  "new_codes sub (MConfirm e hs) \<longleftrightarrow> me_Subject e = sub"
| "new_codes sub (MReplaceCodes x hs) \<longleftrightarrow> x = sub"
| "new_codes sub _ \<longleftrightarrow> False"

fun consumed_code :: "subject \<Rightarrow> mfa_op \<times> mfa_answer result \<Rightarrow> string list" where
  "consumed_code sub (MConsume x h, Ok a) = (if x = sub then [h] else [])"
| "consumed_code sub _ = []"

definition unused_codes :: "subject \<Rightarrow> mfa_store \<Rightarrow> string set" where
  "unused_codes sub s = {h. map_of (subject_codes sub s) h = Some False}"

lemma unused_cong: "ms_codes s' = ms_codes s \<Longrightarrow> unused_codes sub s' = unused_codes sub s"
  by (simp add: unused_codes_def subject_codes_def)

lemma unused_deleted: "ms_codes s' = AList.delete x (ms_codes s) \<Longrightarrow> unused_codes sub s' \<subseteq> unused_codes sub s"
  by (auto simp: unused_codes_def subject_codes_def)

lemma unused_replace:
  "x \<noteq> sub \<Longrightarrow> unused_codes sub (replaceCodes x hs s) = unused_codes sub s"
  by (simp add: unused_codes_def subject_codes_def replaceCodes_def Let_def)

lemma unused_replace_Nil: "unused_codes sub (replaceCodes x [] s) \<subseteq> unused_codes sub s"
  by (rule unused_deleted [of _ x]) (simp add: replaceCodes_def)

lemma unused_simps [simp]:
  "unused_codes sub (mfa_put clk e s) = unused_codes sub s"
  "unused_codes sub (set_enr x row e s) = unused_codes sub s"
  "unused_codes sub (s\<lparr>ms_recovery := r\<rparr>) = unused_codes sub s"
  by (rule unused_cong, simp)+

lemma codes_kept:
  assumes wf: "wf_map (ms_codes s)" and keep: "\<not> new_codes sub oper" and consume: "\<And>x h. oper \<noteq> MConsume x h"
  shows "unused_codes sub (snd (mfa_exec oper None clk s)) \<subseteq> unused_codes sub s"
proof (cases oper)
  case (MSave e)
  then show ?thesis by (simp add: mfa_methods split: result.split)
next
  case (MConfirm e hs)
  then show ?thesis
    using keep by (simp add: mfa_methods unused_replace split: result.split option.split)
next
  case (MDeleteTOTP x)
  then show ?thesis by (simp add: mfa_methods unused_codes_def subject_codes_def)
next
  case (MMark x k)
  then show ?thesis by (simp add: mfa_methods split: option.split)
next
  case (MTry l)
  then show ?thesis by (simp add: mfa_methods split: option.split result.split)
next
  case (MReset x)
  then show ?thesis by (simp add: mfa_methods split: option.split)
next
  case (MReplaceCodes x hs)
  then show ?thesis using keep by (simp add: mfa_methods unused_replace split: result.split)
next
  case (MConsume x h)
  then show ?thesis using consume by simp
next
  case (MDeleteCodes x)
  then show ?thesis by (simp add: mfa_methods unused_replace_Nil)
next
  case (MTryRecovery l)
  then show ?thesis by (simp add: mfa_methods split: result.split)
next
  case (MResetRecovery x)
  then show ?thesis by (simp add: mfa_methods)
next
  case (MDeleteSubject x)
  then show ?thesis unfolding MDeleteSubject by (intro unused_deleted [of _ x]) (simp add: mfa_methods)
next
  case (MErase t)
  then show ?thesis
    by (auto simp: mfa_methods unused_codes_def subject_codes_def map_of_del_where [OF wf] split: option.split_asm if_splits)
next
  case (MReseal r)
  then show ?thesis by (simp add: mfa_methods split: option.split)
qed

lemma consume_None:
  assumes "map_of (subject_codes x s) h \<noteq> Some False"
  shows "mfa_exec (MConsume x h) None clk s = (Err [StoreErr ErrNotFound], s)"
  using assms by (simp add: mfa_methods result_bind_def split: option.split)

lemma consume_codes:
  assumes "map_of (subject_codes x s) h = Some False"
  shows "fst (mfa_exec (MConsume x h) None clk s) = Ok MDone"
    "ms_codes (snd (mfa_exec (MConsume x h) None clk s)) =
       AList.update x (AList.update h True (subject_codes x s)) (ms_codes s)"
  using assms by (simp_all add: mfa_methods result_bind_def split: option.split)

lemma consume_guard:
  "(if consumed_code sub (MConsume x h, fst (mfa_exec (MConsume x h) None clk s)) = []
    then unused_codes sub (snd (mfa_exec (MConsume x h) None clk s)) \<subseteq> unused_codes sub s
    else consumed_code sub (MConsume x h, fst (mfa_exec (MConsume x h) None clk s)) = [h] \<and> h \<in> unused_codes sub s \<and>
         unused_codes sub (snd (mfa_exec (MConsume x h) None clk s)) \<subseteq> unused_codes sub s - {h})"
proof (cases "map_of (subject_codes x s) h = Some False")
  case False
  show ?thesis unfolding consume_None [OF False] by simp
next
  case True
  note c = consume_codes [OF True, of clk]
  have "subject_codes sub (snd (mfa_exec (MConsume x h) None clk s)) =
      (if sub = x then AList.update h True (subject_codes x s) else subject_codes sub s)"
    unfolding subject_codes_def c(2) by simp
  then show ?thesis
    using True unfolding c(1) unused_codes_def by (auto split: if_splits)
qed

lemma consumed_code_other: "(\<And>x h. oper \<noteq> MConsume x h) \<Longrightarrow> consumed_code sub (oper, r) = []"
  by (cases "(sub, oper, r)" rule: consumed_code.cases) auto

lemma code_guard:
  fixes clk :: instant
  assumes wf: "wf_map (ms_codes s)" and keep: "\<not> new_codes sub oper"
  obtains (quiet) "consumed_code sub (oper, fst (mfa_exec oper ctx clk s)) = []"
      "unused_codes sub (snd (mfa_exec oper ctx clk s)) \<subseteq> unused_codes sub s"
    | (taken) h where "consumed_code sub (oper, fst (mfa_exec oper ctx clk s)) = [h]" "h \<in> unused_codes sub s"
      "unused_codes sub (snd (mfa_exec oper ctx clk s)) \<subseteq> unused_codes sub s - {h}"
proof (cases ctx)
  case (Some e)
  have "consumed_code sub (oper, Err e) = []"
    by (cases "(sub, oper, Err e :: mfa_answer result)" rule: consumed_code.cases) auto
  then show ?thesis using quiet Some by (simp add: exec_ctx_Some)
next
  case None
  show ?thesis
  proof (cases "\<exists>x h. oper = MConsume x h")
    case True
    then obtain x h where oper: "oper = MConsume x h" by blast
    show ?thesis
      using consume_guard [of sub x h clk s] quiet taken unfolding oper None by metis
  next
    case False
    then show ?thesis
      using quiet codes_kept [OF wf keep] consumed_code_other None by blast
  qed
qed

lemma wf_codes: "wf_map (ms_codes s) \<Longrightarrow> wf_map (ms_codes (snd (mfa_exec oper ctx clk s)))"
proof (cases ctx)
  case (Some e)
  then show "wf_map (ms_codes s) \<Longrightarrow> ?thesis" by (simp add: exec_ctx_Some)
next
  case None
  show "wf_map (ms_codes s) \<Longrightarrow> ?thesis"
    unfolding None
    by (cases oper) (simp_all add: mfa_methods replaceCodes_def wf_map_update wf_map_delete wf_map_del_where
        split: option.split result.split)
qed

lemma codes_once:
  assumes "wf_map (ms_codes s)" "\<forall>c \<in> set cs. \<not> new_codes sub (fst c)"
  shows "distinct (concat (map (consumed_code sub) (events cs s))) \<and>
         set (concat (map (consumed_code sub) (events cs s))) \<subseteq> unused_codes sub s"
  using assms
proof (induction cs arbitrary: s)
  case Nil
  show ?case by simp
next
  case (Cons c cs)
  obtain oper ctx clk where c: "c = (oper, ctx, clk)" by (cases c)
  let ?s' = "snd (mfa_exec oper ctx clk s)"
  have keep: "\<not> new_codes sub oper" using Cons.prems(2) c by simp
  let ?rest = "concat (map (consumed_code sub) (events cs ?s'))"
  have rest: "distinct ?rest" "set ?rest \<subseteq> unused_codes sub ?s'"
    using Cons.IH [OF wf_codes [OF Cons.prems(1)], of oper ctx clk] Cons.prems(2) by (simp, fastforce)
  have evs: "concat (map (consumed_code sub) (events (c # cs) s)) =
      consumed_code sub (oper, fst (mfa_exec oper ctx clk s)) @ ?rest"
    unfolding c events_Cons by simp
  show ?case
  proof (rule code_guard [OF Cons.prems(1) keep, of ctx clk], goal_cases)
    case quiet: 1
    show ?thesis unfolding evs quiet(1) using rest quiet(2) by (metis append_Nil subset_trans)
  next
    case taken: (2 h)
    then have "h \<notin> set ?rest" "set ?rest \<subseteq> unused_codes sub s" using rest(2) by blast+
    then show ?thesis unfolding evs taken(1) using rest(1) taken(2) by (simp del: set_concat)
  qed
qed

inductive mfa_reach :: "mfa_store \<Rightarrow> bool" where
  mfa_reach_New: "mfa_reach mfa_New"
| mfa_reach_step: "mfa_reach s \<Longrightarrow> mfa_reach (snd (mfa_exec oper ctx clk s))"

lemma mfa_reach_wf: "mfa_reach s \<Longrightarrow> wf_map (ms_totp s) \<and> wf_map (ms_codes s)"
  by (induction rule: mfa_reach.induct) (use wf_totp wf_codes in \<open>auto simp: mfa_New_def\<close>)

section \<open>Lockout\<close>

text \<open>
  What an attempt counter promises: a reserved attempt is one \<open>bump\<close> of it or is refused by a check, and every
  other call that does not reset it leaves it alone. Both the TOTP and the recovery counter provide it.
\<close>

definition maps_ok :: "mfa_store \<Rightarrow> bool" where
  "maps_ok s \<longleftrightarrow> wf_map (ms_totp s) \<and> wf_map (ms_codes s) \<and> wf_map (ms_recovery s)"

lemma maps_ok_exec: "maps_ok s \<Longrightarrow> maps_ok (snd (mfa_exec oper ctx clk s))"
proof (cases ctx)
  case (Some e)
  then show "maps_ok s \<Longrightarrow> ?thesis" by (simp add: exec_ctx_Some)
next
  case None
  have "wf_map (ms_recovery s) \<Longrightarrow> wf_map (ms_recovery (snd (mfa_exec oper None clk s)))"
    by (cases oper) (simp_all add: mfa_methods replaceCodes_def wf_map_update wf_map_delete wf_map_del_where
        split: option.split result.split)
  then show "maps_ok s \<Longrightarrow> ?thesis" using wf_totp wf_codes None by (simp add: maps_ok_def)
qed

definition let_through :: "(mfa_op \<Rightarrow> mfa_lockout option) \<Rightarrow> subject \<Rightarrow> mfa_op \<times> mfa_answer result \<Rightarrow> bool" where
  "let_through tried sub ev =
     (case (tried (fst ev), snd ev) of
        (Some l, Ok (MNum n)) \<Rightarrow> ml_Subject l = sub \<and> n \<le> ml_Max l
      | _ \<Rightarrow> False)"

text \<open>The attempts of a subject share one budget and fall within one window.\<close>

definition within :: "(mfa_op \<Rightarrow> mfa_lockout option) \<Rightarrow> subject \<Rightarrow> int \<Rightarrow> duration \<Rightarrow> instant \<Rightarrow> mfa_op \<Rightarrow> bool" where
  "within tried sub M D t0 oper =
     (case tried oper of
        None \<Rightarrow> True
      | Some l \<Rightarrow> ml_Subject l = sub \<longrightarrow>
          ml_Max l = M \<and> ml_Duration l = D \<and> t0 \<le> mfa_now (ml_Now l) \<and> mfa_now (ml_Now l) \<le> t0 + D)"

lemma bump_locked:
  assumes "ml_Max l \<le> ct_failed c" "0 \<le> ml_Duration l" "ml_Duration l < 2 ^ 63 - 1"
    "mfa_now (ml_Now l) - ct_last c \<le> ml_Duration l"
  shows "bump c l = (c, ml_Max l + 1)"
  using assms time_Sub_le_iff [of "ml_Duration l" "mfa_now (ml_Now l)" "ct_last c"]
  by (simp add: bump_def Let_def mfa_now_def)

lemma bump_cases:
  obtains (counted) "bump c l = (\<lparr>ct_failed = ct_failed c + 1, ct_last = mfa_now (ml_Now l)\<rparr>, ct_failed c + 1)"
      "ct_failed c < ml_Max l"
    | (decayed) "bump c l = (\<lparr>ct_failed = 1, ct_last = mfa_now (ml_Now l)\<rparr>, 1)" "ml_Max l \<le> ct_failed c"
    | (locked) "bump c l = (c, ml_Max l + 1)" "ml_Max l \<le> ct_failed c"
proof (cases "ct_failed c < ml_Max l")
  case True
  then show thesis using counted by (simp add: bump_def Let_def mfa_now_def)
next
  case False
  then have "bump c l = (\<lparr>ct_failed = 1, ct_last = mfa_now (ml_Now l)\<rparr>, 1) \<or> bump c l = (c, ml_Max l + 1)"
    by (simp add: bump_def Let_def mfa_now_def)
  then show thesis using False decayed locked by (meson linorder_not_less)
qed

locale lockout_counter =
  fixes counter_of :: "subject \<Rightarrow> mfa_store \<Rightarrow> counter"
    and tried :: "mfa_op \<Rightarrow> mfa_lockout option"
    and resets :: "subject \<Rightarrow> mfa_op \<times> mfa_answer result \<Rightarrow> bool"
  assumes frame:
    "maps_ok s \<Longrightarrow> \<not> resets sub (oper, fst (mfa_exec oper ctx clk s)) \<Longrightarrow>
     (\<And>l. tried oper = Some l \<Longrightarrow> ml_Subject l \<noteq> sub) \<Longrightarrow>
     counter_of sub (snd (mfa_exec oper ctx clk s)) = counter_of sub s"
    and attempt:
    "tried oper = Some l \<Longrightarrow> ml_Subject l = sub \<Longrightarrow>
     (fst (mfa_exec oper ctx clk s) = Ok (MNum (snd (bump (counter_of sub s) l))) \<and>
      counter_of sub (snd (mfa_exec oper ctx clk s)) = fst (bump (counter_of sub s) l)) \<or>
     ((\<exists>e. fst (mfa_exec oper ctx clk s) = Err e) \<and>
      counter_of sub (snd (mfa_exec oper ctx clk s)) = counter_of sub s)"
begin

text \<open>How many attempts a counter can still let through within the window.\<close>

definition budget :: "int \<Rightarrow> instant \<Rightarrow> counter \<Rightarrow> int" where
  "budget M t0 c = (if t0 \<le> ct_last c then max 0 (M - ct_failed c) else if ct_failed c < M then M - ct_failed c else M)"

lemma budget_bump:
  assumes "1 \<le> ml_Max l" "0 \<le> ml_Duration l" "ml_Duration l < 2 ^ 63 - 1" "0 \<le> ct_failed c"
    "t0 \<le> mfa_now (ml_Now l)" "mfa_now (ml_Now l) \<le> t0 + ml_Duration l"
  shows "budget (ml_Max l) t0 (fst (bump c l)) + (if snd (bump c l) \<le> ml_Max l then 1 else 0) \<le> budget (ml_Max l) t0 c
    \<and> 0 \<le> ct_failed (fst (bump c l))"
proof (cases rule: bump_cases [of c l])
  case counted
  then show ?thesis using assms by (simp add: budget_def)
next
  case decayed
  have "\<not> t0 \<le> ct_last c"
  proof
    assume "t0 \<le> ct_last c"
    then have "bump c l = (c, ml_Max l + 1)" using bump_locked assms decayed(2) by simp
    then show False using decayed(1) assms(1) by simp
  qed
  then show ?thesis using decayed assms by (simp add: budget_def)
next
  case locked
  then show ?thesis using assms by simp
qed

lemma guesses_bounded_from:
  assumes "maps_ok s" "\<forall>ev \<in> set (events cs s). \<not> resets sub ev" "\<forall>c \<in> set cs. within tried sub M D t0 (fst c)"
    "1 \<le> M" "0 \<le> D" "D < 2 ^ 63 - 1" "0 \<le> ct_failed (counter_of sub s)"
  shows "int (length (filter (let_through tried sub) (events cs s))) \<le> budget M t0 (counter_of sub s)"
  using assms
proof (induction cs arbitrary: s)
  case Nil
  show ?case using Nil.prems by (simp add: budget_def)
next
  case (Cons c cs)
  obtain oper ctx clk where c: "c = (oper, ctx, clk)" by (cases c)
  let ?r = "mfa_exec oper ctx clk s"
  have quiet: "\<not> resets sub (oper, fst ?r)" "\<forall>ev \<in> set (events cs (snd ?r)). \<not> resets sub ev"
    using Cons.prems(2) unfolding c events_Cons by simp_all
  have win: "within tried sub M D t0 oper" "\<forall>c \<in> set cs. within tried sub M D t0 (fst c)"
    using Cons.prems(3) c by simp_all
  have step: "budget M t0 (counter_of sub (snd ?r)) + (if let_through tried sub (oper, fst ?r) then 1 else 0)
      \<le> budget M t0 (counter_of sub s) \<and> 0 \<le> ct_failed (counter_of sub (snd ?r))"
  proof (cases "\<exists>l. tried oper = Some l \<and> ml_Subject l = sub")
    case True
    then obtain l where l: "tried oper = Some l" "ml_Subject l = sub" by blast
    then have b: "ml_Max l = M" "ml_Duration l = D" "t0 \<le> mfa_now (ml_Now l)" "mfa_now (ml_Now l) \<le> t0 + D"
      using win(1) by (simp_all add: within_def)
    note bb = budget_bump [of l "counter_of sub s" t0, unfolded b(1,2), OF Cons.prems(4-7) b(3,4)]
    from attempt [OF l, of ctx clk s] show ?thesis
    proof (elim disjE conjE exE)
      assume "fst ?r = Ok (MNum (snd (bump (counter_of sub s) l)))"
        "counter_of sub (snd ?r) = fst (bump (counter_of sub s) l)"
      then show ?thesis using bb l b(1) by (simp add: let_through_def)
    next
      fix e assume "fst ?r = Err e" "counter_of sub (snd ?r) = counter_of sub s"
      then show ?thesis using l Cons.prems(7) by (simp add: let_through_def)
    qed
  next
    case False
    then have "counter_of sub (snd ?r) = counter_of sub s" using frame [OF Cons.prems(1) quiet(1)] by blast
    moreover have "\<not> let_through tried sub (oper, fst ?r)"
      using False by (auto simp: let_through_def split: option.splits result.splits mfa_answer.splits)
    ultimately show ?thesis using Cons.prems(7) by simp
  qed
  have "int (length (filter (let_through tried sub) (events cs (snd ?r)))) \<le> budget M t0 (counter_of sub (snd ?r))"
    using Cons.IH [OF maps_ok_exec [OF Cons.prems(1)] quiet(2) win(2) Cons.prems(4-6)] step by simp
  then show ?case
    unfolding c events_Cons using step by (auto split: if_splits)
qed

lemma budget_le: "0 \<le> ct_failed c \<Longrightarrow> 1 \<le> M \<Longrightarrow> budget M t0 c \<le> M"
  by (simp add: budget_def)

lemma guesses_bounded:
  assumes "maps_ok s" "0 \<le> ct_failed (counter_of sub s)" "1 \<le> M" "0 \<le> D" "D < 2 ^ 63 - 1"
    "\<forall>ev \<in> set (events cs s). \<not> resets sub ev" "\<forall>c \<in> set cs. within tried sub M D t0 (fst c)"
  shows "int (length (filter (let_through tried sub) (events cs s))) \<le> M"
  using guesses_bounded_from [OF assms(1,6,7,3-5,2)] budget_le [OF assms(2,3), of t0] by (rule order_trans)

end

text \<open>The two counters, a missing one reading as zero, and the calls that reset them.\<close>

definition zero_counter :: counter where
  "zero_counter = \<lparr>ct_failed = 0, ct_last = zero_time\<rparr>"

definition totp_counter :: "subject \<Rightarrow> mfa_store \<Rightarrow> counter" where
  "totp_counter sub s =
     (case map_of (ms_totp s) sub of
        None \<Rightarrow> zero_counter
      | Some r \<Rightarrow> \<lparr>ct_failed = me_FailedAttempts (tr_enr r), ct_last = me_LastAttemptAt (tr_enr r)\<rparr>)"

definition recovery_counter :: "subject \<Rightarrow> mfa_store \<Rightarrow> counter" where
  "recovery_counter sub s = (case map_of (ms_recovery s) sub of None \<Rightarrow> zero_counter | Some c \<Rightarrow> c)"

fun totp_tried :: "mfa_op \<Rightarrow> mfa_lockout option" where
  "totp_tried (MTry l) = Some l"
| "totp_tried _ = None"

fun recovery_tried :: "mfa_op \<Rightarrow> mfa_lockout option" where
  "recovery_tried (MTryRecovery l) = Some l"
| "recovery_tried _ = None"

definition succeeded :: "'a result \<Rightarrow> bool" where
  "succeeded r = (case r of Ok _ \<Rightarrow> True | _ \<Rightarrow> False)"

lemma succeeded_simps [simp]:
  "succeeded (Ok x)" "\<not> succeeded (Err e)" "\<not> succeeded Panic"
  by (simp_all add: succeeded_def)

fun totp_resets :: "subject \<Rightarrow> mfa_op \<times> mfa_answer result \<Rightarrow> bool" where
  "totp_resets sub (MSave e, r) \<longleftrightarrow> me_Subject e = sub"
| "totp_resets sub (MConfirm e hs, r) \<longleftrightarrow> me_Subject e = sub"
| "totp_resets sub (MDeleteTOTP x, r) \<longleftrightarrow> x = sub"
| "totp_resets sub (MMark x k, r) \<longleftrightarrow> x = sub \<and> r = Ok (MBool True)"
| "totp_resets sub (MReset x, r) \<longleftrightarrow> x = sub"
| "totp_resets sub (MConsume x h, r) \<longleftrightarrow> x = sub \<and> succeeded r"
| "totp_resets sub (MDeleteSubject x, r) \<longleftrightarrow> x = sub"
| "totp_resets sub (MErase t, r) \<longleftrightarrow> t = s_tenant sub"
| "totp_resets sub _ \<longleftrightarrow> False"

fun recovery_resets :: "subject \<Rightarrow> mfa_op \<times> mfa_answer result \<Rightarrow> bool" where
  "recovery_resets sub (MConfirm e hs, r) \<longleftrightarrow> me_Subject e = sub"
| "recovery_resets sub (MReplaceCodes x hs, r) \<longleftrightarrow> x = sub"
| "recovery_resets sub (MConsume x h, r) \<longleftrightarrow> x = sub \<and> succeeded r"
| "recovery_resets sub (MDeleteCodes x, r) \<longleftrightarrow> x = sub"
| "recovery_resets sub (MResetRecovery x, r) \<longleftrightarrow> x = sub"
| "recovery_resets sub (MDeleteSubject x, r) \<longleftrightarrow> x = sub"
| "recovery_resets sub (MErase t, r) \<longleftrightarrow> t = s_tenant sub"
| "recovery_resets sub _ \<longleftrightarrow> False"

lemma totp_counter_simps [simp]:
  "totp_counter sub (mfa_put clk e s) = (if sub = me_Subject e
     then \<lparr>ct_failed = me_FailedAttempts (stored_enrollment clk e), ct_last = me_LastAttemptAt (stored_enrollment clk e)\<rparr>
     else totp_counter sub s)"
  "totp_counter sub (set_enr x row e s) = (if sub = x
     then \<lparr>ct_failed = me_FailedAttempts e, ct_last = me_LastAttemptAt e\<rparr> else totp_counter sub s)"
  "totp_counter sub (s\<lparr>ms_codes := cm\<rparr>) = totp_counter sub s"
  "totp_counter sub (s\<lparr>ms_recovery := rm\<rparr>) = totp_counter sub s"
  "totp_counter sub (replaceCodes x hs s) = totp_counter sub s"
  by (simp_all add: totp_counter_def put_totp set_enr_totp)

lemma recovery_counter_simps [simp]:
  "recovery_counter sub (mfa_put clk e s) = recovery_counter sub s"
  "recovery_counter sub (set_enr x row e s) = recovery_counter sub s"
  "recovery_counter sub (s\<lparr>ms_codes := cm\<rparr>) = recovery_counter sub s"
  "recovery_counter sub (s\<lparr>ms_totp := tm\<rparr>) = recovery_counter sub s"
  "x \<noteq> sub \<Longrightarrow> recovery_counter sub (replaceCodes x hs s) = recovery_counter sub s"
  by (simp_all add: recovery_counter_def replaceCodes_def Let_def)

lemma totp_counter_row:
  "map_of (ms_totp s) sub = Some r \<Longrightarrow>
   totp_counter sub s = \<lparr>ct_failed = me_FailedAttempts (tr_enr r), ct_last = me_LastAttemptAt (tr_enr r)\<rparr>"
  by (simp add: totp_counter_def)

lemma totp_frame:
  assumes ok: "maps_ok s" and keep: "\<not> totp_resets sub (oper, fst (mfa_exec oper None clk s))"
    and other: "\<And>l. totp_tried oper = Some l \<Longrightarrow> ml_Subject l \<noteq> sub"
  shows "totp_counter sub (snd (mfa_exec oper None clk s)) = totp_counter sub s"
proof (cases oper)
  case (MSave e)
  then show ?thesis using keep by (simp add: mfa_methods split: result.split)
next
  case (MConfirm e hs)
  then show ?thesis using keep by (simp add: mfa_methods split: result.split option.split)
next
  case (MDeleteTOTP x)
  then show ?thesis using keep by (simp add: mfa_methods totp_counter_def)
next
  case (MMark x k)
  then show ?thesis using keep by (auto simp: mfa_methods result_bind_def split: option.splits)
next
  case (MTry l)
  then show ?thesis using other by (simp add: mfa_methods split: result.split option.split)
next
  case (MReset x)
  then show ?thesis using keep by (simp add: mfa_methods split: option.split)
next
  case (MReplaceCodes x hs)
  then show ?thesis by (simp add: mfa_methods split: result.split)
next
  case (MConsume x h)
  show ?thesis
  proof (cases "map_of (subject_codes x s) h = Some False")
    case False
    show ?thesis unfolding MConsume consume_None [OF False] by simp
  next
    case True
    have "x \<noteq> sub" using keep consume_codes(1) [OF True, of clk] unfolding MConsume by auto
    then show ?thesis using True unfolding MConsume by (simp add: mfa_methods split: option.split)
  qed
next
  case (MDeleteCodes x)
  then show ?thesis by (simp add: mfa_methods)
next
  case (MTryRecovery l)
  then show ?thesis by (simp add: mfa_methods split: result.split)
next
  case (MResetRecovery x)
  then show ?thesis by (simp add: mfa_methods)
next
  case (MDeleteSubject x)
  then show ?thesis using keep by (simp add: mfa_methods totp_counter_def)
next
  case (MErase t)
  then show ?thesis
    using keep ok by (auto simp: mfa_methods totp_counter_def map_of_del_where maps_ok_def split: option.split)
next
  case (MReseal r)
  then show ?thesis by (auto simp: mfa_methods totp_counter_row split: option.split)
qed

lemma recovery_frame:
  assumes ok: "maps_ok s" and keep: "\<not> recovery_resets sub (oper, fst (mfa_exec oper None clk s))"
    and other: "\<And>l. recovery_tried oper = Some l \<Longrightarrow> ml_Subject l \<noteq> sub"
  shows "recovery_counter sub (snd (mfa_exec oper None clk s)) = recovery_counter sub s"
proof (cases oper)
  case (MSave e)
  then show ?thesis by (simp add: mfa_methods split: result.split)
next
  case (MConfirm e hs)
  then show ?thesis using keep by (simp add: mfa_methods split: result.split option.split)
next
  case (MDeleteTOTP x)
  then show ?thesis by (simp add: mfa_methods)
next
  case (MMark x k)
  then show ?thesis by (simp add: mfa_methods split: option.split)
next
  case (MTry l)
  then show ?thesis by (simp add: mfa_methods split: result.split option.split)
next
  case (MReset x)
  then show ?thesis by (simp add: mfa_methods split: option.split)
next
  case (MReplaceCodes x hs)
  then show ?thesis using keep by (simp add: mfa_methods split: result.split)
next
  case (MConsume x h)
  show ?thesis
  proof (cases "map_of (subject_codes x s) h = Some False")
    case False
    show ?thesis unfolding MConsume consume_None [OF False] by simp
  next
    case True
    have "x \<noteq> sub" using keep consume_codes(1) [OF True, of clk] unfolding MConsume by auto
    then show ?thesis using True unfolding MConsume by (simp add: mfa_methods recovery_counter_def split: option.split)
  qed
next
  case (MDeleteCodes x)
  then show ?thesis using keep by (simp add: mfa_methods)
next
  case (MTryRecovery l)
  then show ?thesis using other by (simp add: mfa_methods recovery_counter_def split: result.split)
next
  case (MResetRecovery x)
  then show ?thesis using keep by (simp add: mfa_methods recovery_counter_def)
next
  case (MDeleteSubject x)
  then show ?thesis using keep by (simp add: mfa_methods recovery_counter_def)
next
  case (MErase t)
  then show ?thesis
    using keep ok by (auto simp: mfa_methods recovery_counter_def map_of_del_where maps_ok_def split: option.split)
next
  case (MReseal r)
  then show ?thesis by (simp add: mfa_methods split: option.split)
qed

interpretation totp_lockout: lockout_counter totp_counter totp_tried totp_resets
proof (unfold_locales, goal_cases)
  case (1 s sub oper ctx clk)
  then show ?case using totp_frame by (cases ctx) (auto simp: exec_ctx_Some)
next
  case (2 oper l sub ctx clk s)
  then have "oper = MTry l" by (cases oper) simp_all
  then show ?case
    using 2 by (cases ctx) (auto simp: exec_ctx_Some mfa_methods result_bind_def totp_counter_row
        checkLockout_def split: option.split)
qed

interpretation recovery_lockout: lockout_counter recovery_counter recovery_tried recovery_resets
proof (unfold_locales, goal_cases)
  case (1 s sub oper ctx clk)
  then show ?case using recovery_frame by (cases ctx) (auto simp: exec_ctx_Some)
next
  case (2 oper l sub ctx clk s)
  then have "oper = MTryRecovery l" by (cases oper) simp_all
  then show ?case
    using 2 by (cases ctx) (auto simp: exec_ctx_Some mfa_methods result_bind_def recovery_counter_def zero_counter_def
        checkLockout_def split: option.split)
qed

text \<open>No counter of a reachable store is negative.\<close>

definition counters_ok :: "mfa_store \<Rightarrow> bool" where
  "counters_ok s \<longleftrightarrow> (\<forall>sub. 0 \<le> ct_failed (totp_counter sub s) \<and> 0 \<le> ct_failed (recovery_counter sub s))"

lemma stored_attempts [simp]: "me_FailedAttempts (stored_enrollment clk e) = me_FailedAttempts e"
  by (simp add: stored_enrollment_def Let_def)

lemma checkEnrollment_attempts: "checkEnrollment e = Ok u \<Longrightarrow> 0 \<le> me_FailedAttempts e"
  by (simp add: checkEnrollment_def split: if_splits)

lemma bump_nonneg: "0 \<le> ct_failed c \<Longrightarrow> 0 \<le> ct_failed (fst (bump c l))"
  by (cases rule: bump_cases [of c l]) simp_all

lemma clear_attempts_zero [simp]: "me_FailedAttempts (clear_attempts e) = 0"
  by (simp add: clear_attempts_def)

lemma totp_counter_absent [simp]: "map_of (ms_totp s) sub = None \<Longrightarrow> totp_counter sub s = zero_counter"
  by (simp add: totp_counter_def)

lemma totp_nonneg:
  assumes ok: "maps_ok s" and pos: "\<And>sub. 0 \<le> ct_failed (totp_counter sub s)"
  shows "0 \<le> ct_failed (totp_counter sub (snd (mfa_exec oper None clk s)))"
proof (cases "totp_resets sub (oper, fst (mfa_exec oper None clk s)) \<or> (\<exists>l. totp_tried oper = Some l \<and> ml_Subject l = sub)")
  case False
  then show ?thesis using totp_frame [OF ok] pos by metis
next
  case True
  have row: "0 \<le> me_FailedAttempts (tr_enr r)" if "map_of (ms_totp s) x = Some r" for x r
    using pos [of x] that by (simp add: totp_counter_def)
  show ?thesis
    using True
  proof (cases oper)
    case (MSave e)
    then show ?thesis
      using pos by (simp add: mfa_methods checkEnrollment_attempts split: result.split)
  next
    case (MConfirm e hs)
    then show ?thesis
      using pos row by (auto simp: mfa_methods checkEnrollment_attempts split: result.split option.split)
  next
    case (MDeleteTOTP x)
    then show ?thesis using pos True by (simp add: mfa_methods zero_counter_def)
  next
    case (MMark x k)
    then show ?thesis using pos by (simp add: mfa_methods split: option.split)
  next
    case (MTry l)
    then show ?thesis
      using totp_lockout.attempt [of oper l sub None clk s] bump_nonneg pos True by (auto simp del: mfa_exec.simps)
  next
    case (MReset x)
    then show ?thesis using pos by (simp add: mfa_methods split: option.split)
  next
    case (MConsume x h)
    then show ?thesis using pos by (simp add: mfa_methods split: option.split)
  next
    case (MDeleteSubject x)
    then show ?thesis using True by (simp add: mfa_methods totp_counter_def zero_counter_def)
  next
    case (MErase t)
    then show ?thesis
      using True ok by (simp add: mfa_methods totp_counter_def zero_counter_def map_of_del_where maps_ok_def split: option.split)
  qed simp_all
qed

lemma recovery_nonneg:
  assumes ok: "maps_ok s" and pos: "\<And>sub. 0 \<le> ct_failed (recovery_counter sub s)"
  shows "0 \<le> ct_failed (recovery_counter sub (snd (mfa_exec oper None clk s)))"
proof -
  have gone: "0 \<le> ct_failed (recovery_counter sub (replaceCodes x hs t))"
    if "\<And>y. 0 \<le> ct_failed (recovery_counter y t)" for x hs t
    using that [of sub] by (auto simp: recovery_counter_def replaceCodes_def Let_def zero_counter_def)
  show ?thesis
  proof (cases "recovery_resets sub (oper, fst (mfa_exec oper None clk s)) \<or> (\<exists>l. recovery_tried oper = Some l \<and> ml_Subject l = sub)")
    case False
    then show ?thesis using recovery_frame [OF ok] pos by metis
  next
    case True
    then show ?thesis
    proof (cases oper)
      case (MConfirm e hs)
      then show ?thesis using pos gone by (simp add: mfa_methods split: result.split option.split)
    next
      case (MReplaceCodes x hs)
      then show ?thesis using pos gone by (simp add: mfa_methods split: result.split)
    next
      case (MConsume x h)
      show ?thesis
      proof (cases "map_of (subject_codes x s) h = Some False")
        case False
        show ?thesis unfolding MConsume consume_None [OF False] by (simp add: pos)
      next
        case ok: True
        have "x = sub" using True unfolding MConsume by simp
        then show ?thesis using ok unfolding MConsume
          by (simp add: mfa_methods recovery_counter_def zero_counter_def split: option.split)
      qed
    next
      case (MDeleteCodes x)
      then show ?thesis using pos gone by (simp add: mfa_methods)
    next
      case (MTryRecovery l)
      then show ?thesis
        using recovery_lockout.attempt [of oper l sub None clk s] bump_nonneg pos True by (auto simp del: mfa_exec.simps)
    next
      case (MResetRecovery x)
      then show ?thesis using True by (simp add: mfa_methods recovery_counter_def zero_counter_def)
    next
      case (MDeleteSubject x)
      then show ?thesis using True by (simp add: mfa_methods recovery_counter_def zero_counter_def)
    next
      case (MErase t)
      then show ?thesis
        using True ok by (simp add: mfa_methods recovery_counter_def zero_counter_def map_of_del_where maps_ok_def split: option.split)
    qed simp_all
  qed
qed

lemma mfa_reach_ok: "mfa_reach s \<Longrightarrow> maps_ok s \<and> counters_ok s"
proof (induction rule: mfa_reach.induct)
  case mfa_reach_New
  show ?case
    by (simp add: maps_ok_def counters_ok_def mfa_New_def totp_counter_def recovery_counter_def zero_counter_def)
next
  case (mfa_reach_step s oper ctx clk)
  then show ?case
    using maps_ok_exec totp_nonneg recovery_nonneg by (cases ctx) (auto simp: counters_ok_def exec_ctx_Some)
qed

section \<open>A concrete store\<close>

definition mdemo_sub :: subject where
  "mdemo_sub = \<lparr>s_tenant = TenantID ''acme'', s_user = 1\<rparr>"

definition mdemo_enrollment :: enrollment where
  "mdemo_enrollment =
     \<lparr>me_Subject = mdemo_sub, me_Sealed = [1], me_AADVersion = 1, me_ConfirmedAt = Some 0, me_LastUsedStep = 0,
      me_FailedAttempts = 0, me_LastAttemptAt = zero_time, me_CreatedAt = 0\<rparr>"

definition mdemo_store :: mfa_store where
  "mdemo_store = snd (mfa_exec (MConfirm mdemo_enrollment [''code'']) None 0 mfa_New)"

definition mdemo_lockout :: "instant \<Rightarrow> mfa_lockout" where
  "mdemo_lockout t = \<lparr>ml_Subject = mdemo_sub, ml_Now = t, ml_Max = 1, ml_Duration = Minute\<rparr>"

definition mdemo_uses :: "mfa_call list" where
  "mdemo_uses =
     [(MMark mdemo_sub 7, None, 0), (MMark mdemo_sub 7, None, 0), (MMark mdemo_sub 8, None, 0),
      (MConsume mdemo_sub ''code'', None, 0), (MConsume mdemo_sub ''code'', None, 0)]"

definition mdemo_tries :: "mfa_call list" where
  "mdemo_tries =
     [(MTry (mdemo_lockout Second), None, 0), (MTryRecovery (mdemo_lockout Second), None, 0),
      (MTry (mdemo_lockout (2 * Second)), None, 0), (MTryRecovery (mdemo_lockout (2 * Second)), None, 0)]"

lemma mdemo_reach: "mfa_reach mdemo_store"
  unfolding mdemo_store_def by (intro mfa_reach.intros)

section \<open>Guarantees\<close>

text \<open>
  C37. A second factor is single-use. From any reachable store, however the calls interleave and whatever their
  contexts and clock readings: as long as the subject's TOTP enrollment is neither saved anew nor removed, the
  steps \<^verbatim>\<open>MarkTOTPUsed\<close> accepts strictly increase, so none is accepted twice, and confirming an enrollment does not
  roll the guard back; as long as the subject is given no new recovery codes, no code is consumed twice.
\<close>

theorem mfa_factors_single_use:
  assumes "mfa_reach s"
  shows "((\<forall>c \<in> set cs. \<not> re_enrolls sub (fst c)) \<longrightarrow>
            sorted_wrt (<) (concat (map (accepted_step sub) (fst (mfa_run cs s))))) \<and>
         ((\<forall>c \<in> set cs. \<not> new_codes sub (fst c)) \<longrightarrow>
            distinct (concat (map (consumed_code sub) (fst (mfa_run cs s)))))"
  using steps_increase [of s cs sub] codes_once [of s cs sub] mfa_reach_wf [OF assms] by simp

theorem mfa_factors_single_use_witness:
  "concat (map (accepted_step mdemo_sub) (fst (mfa_run mdemo_uses mdemo_store))) = [7, 8] \<and>
   concat (map (consumed_code mdemo_sub) (fst (mfa_run mdemo_uses mdemo_store))) = [''code''] \<and>
   sorted_wrt (<) (concat (map (accepted_step mdemo_sub) (fst (mfa_run mdemo_uses mdemo_store)))) \<and>
   distinct (concat (map (consumed_code mdemo_sub) (fst (mfa_run mdemo_uses mdemo_store))))"
proof -
  have "\<forall>c \<in> set mdemo_uses. \<not> re_enrolls mdemo_sub (fst c)" "\<forall>c \<in> set mdemo_uses. \<not> new_codes mdemo_sub (fst c)"
    by (simp_all add: mdemo_uses_def)
  then have "sorted_wrt (<) (concat (map (accepted_step mdemo_sub) (fst (mfa_run mdemo_uses mdemo_store)))) \<and>
      distinct (concat (map (consumed_code mdemo_sub) (fst (mfa_run mdemo_uses mdemo_store))))"
    using mfa_factors_single_use [OF mdemo_reach, of mdemo_uses mdemo_sub] by blast
  moreover have "concat (map (accepted_step mdemo_sub) (fst (mfa_run mdemo_uses mdemo_store))) = [7, 8] \<and>
      concat (map (consumed_code mdemo_sub) (fst (mfa_run mdemo_uses mdemo_store))) = [''code'']"
    by code_simp
  ultimately show ?thesis by blast
qed

text \<open>
  C38. The TOTP lockout bounds guessing. From any reachable store, if the attempts of a subject share the budget
  \<open>M\<close> and the duration \<open>D\<close> and fall, to the microsecond, in one window of length \<open>D\<close>, and no call of the run resets
  the subject's counter (an accepted step, a consumed recovery code, a reset, a new or removed enrollment),
  then \<^verbatim>\<open>IncrementTOTPAttempts\<close> answers at most \<open>M\<close> of them with a count within the budget, in whatever order the
  attempts of other subjects and the other calls come.
\<close>

theorem mfa_totp_guesses_bounded:
  assumes "mfa_reach s" "1 \<le> M" "0 \<le> D" "D < 2 ^ 63 - 1"
    "\<forall>ev \<in> set (fst (mfa_run cs s)). \<not> totp_resets sub ev"
    "\<forall>c \<in> set cs. within totp_tried sub M D t0 (fst c)"
  shows "int (length (filter (let_through totp_tried sub) (fst (mfa_run cs s)))) \<le> M"
  using mfa_reach_ok [OF assms(1)] assms(2-)
  by (intro totp_lockout.guesses_bounded) (auto simp: counters_ok_def)

theorem mfa_totp_guesses_bounded_witness:
  "map snd (fst (mfa_run mdemo_tries mdemo_store)) = [Ok (MNum 1), Ok (MNum 1), Ok (MNum 2), Ok (MNum 2)] \<and>
   int (length (filter (let_through totp_tried mdemo_sub) (fst (mfa_run mdemo_tries mdemo_store)))) \<le> 1"
proof -
  have "list_all (\<lambda>ev. \<not> totp_resets mdemo_sub ev) (fst (mfa_run mdemo_tries mdemo_store))"
    "list_all (\<lambda>c. within totp_tried mdemo_sub 1 Minute 0 (fst c)) mdemo_tries"
    "map snd (fst (mfa_run mdemo_tries mdemo_store)) = [Ok (MNum 1), Ok (MNum 1), Ok (MNum 2), Ok (MNum 2)]"
    by code_simp+
  then show ?thesis
    using mfa_totp_guesses_bounded [OF mdemo_reach, of 1 Minute mdemo_tries mdemo_sub 0]
    by (simp add: list_all_iff duration_defs)
qed

text \<open>
  C39. The recovery-code lockout bounds guessing in the same way, on its own counter and without a TOTP
  enrollment: within one window and without a reset of the recovery counter, \<^verbatim>\<open>IncrementRecoveryAttempts\<close> answers
  at most \<open>M\<close> attempts of the subject with a count within the budget.
\<close>

theorem mfa_recovery_guesses_bounded:
  assumes "mfa_reach s" "1 \<le> M" "0 \<le> D" "D < 2 ^ 63 - 1"
    "\<forall>ev \<in> set (fst (mfa_run cs s)). \<not> recovery_resets sub ev"
    "\<forall>c \<in> set cs. within recovery_tried sub M D t0 (fst c)"
  shows "int (length (filter (let_through recovery_tried sub) (fst (mfa_run cs s)))) \<le> M"
  using mfa_reach_ok [OF assms(1)] assms(2-)
  by (intro recovery_lockout.guesses_bounded) (auto simp: counters_ok_def)

theorem mfa_recovery_guesses_bounded_witness:
  "map snd (fst (mfa_run mdemo_tries mdemo_store)) = [Ok (MNum 1), Ok (MNum 1), Ok (MNum 2), Ok (MNum 2)] \<and>
   int (length (filter (let_through recovery_tried mdemo_sub) (fst (mfa_run mdemo_tries mdemo_store)))) \<le> 1"
proof -
  have "list_all (\<lambda>ev. \<not> recovery_resets mdemo_sub ev) (fst (mfa_run mdemo_tries mdemo_store))"
    "list_all (\<lambda>c. within recovery_tried mdemo_sub 1 Minute 0 (fst c)) mdemo_tries"
    "map snd (fst (mfa_run mdemo_tries mdemo_store)) = [Ok (MNum 1), Ok (MNum 1), Ok (MNum 2), Ok (MNum 2)]"
    by code_simp+
  then show ?thesis
    using mfa_recovery_guesses_bounded [OF mdemo_reach, of 1 Minute mdemo_tries mdemo_sub 0]
    by (simp add: list_all_iff duration_defs)
qed

end
