(* ===== verification/Spec2Isabelle.thy ===== *)
theory Spec2Isabelle
  imports Core_Properties Codec_Properties Sessions_Properties Revoke_Epochs Identity_Canonical
    Revoke_Families Ceremony_Properties MFA_Properties
begin

text \<open>
  A verification of egauth, a Go authentication library. All paths below are under \<^verbatim>\<open>src/\<close>.

  \<^bold>\<open>The program.\<close> A login is a journey: \<^verbatim>\<open>internal/core\<close> collects verified factors in a sealed Pending and turns
  it into the attributes of a session. Between two requests a journey is parked in the ceremony store
  (\<^verbatim>\<open>store/ceremony\<close>) under the digest of a random handle; an established session lives in the session store
  (\<^verbatim>\<open>store/sessions\<close>) or in a family of refresh tokens (\<^verbatim>\<open>store/tokens\<close>). Accounts, their security epoch and the
  outbox of lifecycle effects are in \<^verbatim>\<open>store/identity\<close>, second factors in \<^verbatim>\<open>store/mfa\<close>.
  Every instance of the service keeps caches of epochs and families (\<^verbatim>\<open>internal/revoke\<close>) and follows the stores' change feeds to evict them.

  \<^bold>\<open>How it is modelled.\<close> \<open>Prelude\<close> fixes the Go types: bytes and integers at their width, instants in
  nanoseconds, errors as lists of joined sentinels, results that are a value, an error or a panic, maps as
  association lists whose order stands for the iteration order Go leaves open. A store method holds the
  store's mutex from its first read to its last write, so it is one function from the old state to the answer
  and the new state; contexts and clock readings are arguments, and a theorem about all runs quantifies over
  them. What lies outside the repository is an argument as well: the Unicode upper-case table, the sealer
  given to a record constructor, random identifiers.

  \<^item> \<open>Core_Factor\<close>, \<open>Core_Journey\<close>: \<^verbatim>\<open>internal/core\<close> (\<^verbatim>\<open>tenant.go\<close>, \<^verbatim>\<open>factor.go\<close>, \<^verbatim>\<open>policy.go\<close>, \<^verbatim>\<open>attrs.go\<close>,
    \<^verbatim>\<open>pending.go\<close>, \<^verbatim>\<open>transitions.go\<close>). \<open>Core_Reach\<close> has the values a program can hold, as mutually inductive
    predicates with one rule per transition, and \<open>Core_Properties\<close> what holds of them: admission is sound
    (C1), sessions are well formed and keep their identity (C2, C4), a passkey never serves as both factors
    (C3), freshness comes from a real verification (C5), a second factor completes a login (C6).
  \<^item> \<open>Binary\<close>, \<open>Core_Codec\<close>: \<^verbatim>\<open>internal/core/codec.go\<close> in the state monad. \<open>Codec_Laws\<close> describes every encoder by
    the bytes it writes and every decoder by the bytes it reads; \<open>Codec_Properties\<close> has the round trips and
    canonicity (C7 to C9).
  \<^item> \<open>Feed\<close>: \<^verbatim>\<open>store.Cursor\<close> and the feed both revocation stores keep, with the locale \<open>revocation_feed\<close> that
    the session and the token store interpret.
  \<^item> \<open>Sessions_Record\<close>, \<open>Sessions_Store\<close>: \<^verbatim>\<open>store/sessions\<close> and its in-process store; \<open>Sessions_Laws\<close> and
    \<open>Sessions_Properties\<close> show the index invariant, the exact effect of each method, the feed and tenant
    isolation (C10 to C17).
  \<^item> \<open>Revoke_LRU\<close>: \<^verbatim>\<open>internal/revoke/lru.go\<close> as a heap of linked nodes, which refines a bounded list (C18).
    \<open>Revoke_Follower\<close> and \<open>Follower_System\<close>: \<^verbatim>\<open>internal/revoke/revoke.go\<close>, its critical sections and their
    interleavings; the locale \<open>change_source\<close> is what a cache relies on from the store it follows.
    \<open>Revoke_Epochs\<close> (C25, C27) and \<open>Revoke_Families\<close> (C34) interpret it for accounts and for families.
  \<^item> \<open>Identity_Record\<close>, \<open>Identity_Mutation\<close>, \<open>Identity_Store\<close>, \<open>Identity_Apply\<close>: \<^verbatim>\<open>store/identity\<close> and its
    in-process store. \<open>Identity_Laws\<close> and \<open>Identity_Ops\<close> show the invariant of the accounts; \<open>Identity_Lockout\<close>
    bounds password guesses (C19), \<open>Identity_Properties\<close> has uniqueness, lookup, atomicity, wiping and the
    outbox (C20 to C24), \<open>Identity_Canonical\<close> the identifiers (C26).
  \<^item> \<open>Tokens_Record\<close>, \<open>Tokens_Store\<close>: \<^verbatim>\<open>store/tokens\<close> and its in-process store. \<open>Tokens_Laws\<close> and \<open>Tokens_Moves\<close>
    break every method into a few moves, \<open>Tokens_Ops\<close> shows which moves each method makes, and
    \<open>Tokens_Properties\<close> has linear families, single-use rotation, final revocation and API keys (C28 to C33).
  \<^item> \<open>Ceremony_Kind\<close>, \<open>Ceremony_Record\<close>, \<open>Ceremony_Store\<close>: \<^verbatim>\<open>store/ceremony\<close> and its in-process store.
    \<open>Ceremony_Laws\<close> shows that buckets and counters agree with the rows, \<open>Ceremony_Reference\<close> that the store is
    equivalent to one without them, \<open>Ceremony_Properties\<close> that handles are single-use and guesses bounded
    (C35, C36).
  \<^item> \<open>MFA_Store\<close>: \<^verbatim>\<open>store/mfa\<close> and its in-process store of TOTP enrollments, recovery codes and attempt counters.
    \<open>MFA_Properties\<close> shows that TOTP steps and recovery codes are single-use (C37) and, in the locale
    \<open>lockout_counter\<close> interpreted for both counters, that a lockout bounds guesses (C38, C39).

  \<^bold>\<open>Bounds.\<close> No fuel is used: loops are structural recursions or functions with a termination proof. Feed
  positions and insertion counters are natural numbers; the 64-bit counters of the code grow by one per
  write and do not wrap in the life of a process.

  \<^bold>\<open>Not modelled.\<close> The HTTP surface, routing and configuration (\<^verbatim>\<open>auth.go\<close>, \<^verbatim>\<open>wiring.go\<close>, \<^verbatim>\<open>internal/httpx\<close>,
  \<^verbatim>\<open>internal/routes\<close>) and the services behind the endpoints (\<^verbatim>\<open>internal/identitysvc\<close>, \<^verbatim>\<open>internal/codesvc\<close>,
  \<^verbatim>\<open>internal/mfasvc\<close>, \<^verbatim>\<open>internal/passkeysvc\<close>, \<^verbatim>\<open>internal/issuance\<close>), which compose the stores over requests. The
  in-process stores of signing keys, providers and passkeys, the limiter (whose bucket is a float64), the
  session backends, the lifecycle dispatcher and the v0.16 upgrade are not modelled yet. The SQL stores
  (\<^verbatim>\<open>adapters/pgx\<close>) are statements run by a database outside the repository. Cryptography (JWT, WebAuthn, Argon2,
  KEK) calls packages that are not in the repository. Test suites (\<^verbatim>\<open>storetest\<close>, \<^verbatim>\<open>journeytest\<close>) and the linters
  under \<^verbatim>\<open>tools\<close> are not part of the library.
\<close>

end
